(* ===== verification/Prelude.thy ===== *)
theory Prelude
  imports Main "HOL-Library.Word" "HOL-Library.List_Lexorder" "HOL-Library.Char_ord"
    "HOL-Library.Sublist"
begin

text \<open>
  The vocabulary every component of the audit event log shares: Go's basic types, its
  \<^verbatim>\<open>error\<close> values, the few functions of Go's \<^verbatim>\<open>strings\<close> package the sources call, and
  the generic list lemmas the component proofs rest on.

  Go strings are byte sequences; they are HOL strings (lists of 8-bit characters), so
  \<^verbatim>\<open>len(s)\<close> is \<open>length s\<close> and \<^verbatim>\<open>a < b\<close> is the lexicographic order of the
  library. A \<^verbatim>\<open>[]byte\<close> is a list of 8-bit words; where the code tells nil from empty it
  is an option. A \<^verbatim>\<open>time.Time\<close> is its instant, in nanoseconds since January 1, year 1 UTC,
  so the zero \<^verbatim>\<open>time.Time\<close> is \<open>0\<close>; the location, which only affects printing, is not
  kept.
\<close>

named_theorems chain_simps \<open>facts on the hash chain and its canonical encoding\<close>
named_theorems store_simps \<open>facts on the event store and its abstraction\<close>
named_theorems err_simps \<open>facts on error values\<close>

section \<open>Go's basic types\<close>

type_synonym byte = "8 word"
type_synonym bytes = "byte list"
type_synonym time = int
type_synonym duration = int

abbreviation IsZero :: "time \<Rightarrow> bool" where
  "IsZero t \<equiv> t = 0"

text \<open>The conversions \<^verbatim>\<open>[]byte(s)\<close> and \<^verbatim>\<open>string(b)\<close>.\<close>

definition bytes_of_string :: "string \<Rightarrow> bytes" where
  "bytes_of_string s = map of_char s"

definition string_of_bytes :: "bytes \<Rightarrow> string" where
  "string_of_bytes b = map (\<lambda>w. char_of (unat w)) b"

lemma length_bytes_of_string [simp]: "length (bytes_of_string s) = length s"
  by (simp add: bytes_of_string_def)

lemma length_string_of_bytes [simp]: "length (string_of_bytes b) = length b"
  by (simp add: string_of_bytes_def)

lemma unat_of_char [simp]: "unat (of_char c :: byte) = of_char c"
proof -
  have "(of_char c :: byte) = of_nat (of_char c)" by (rule of_nat_of_char [symmetric])
  moreover have "(of_char c :: nat) < 256" by (rule nat_of_char_less_256)
  ultimately show ?thesis by (simp add: unat_of_nat)
qed

lemma string_of_bytes_of_string [simp]: "string_of_bytes (bytes_of_string s) = s"
  by (simp add: string_of_bytes_def bytes_of_string_def comp_def)

lemma bytes_of_string_inject [simp]: "bytes_of_string s = bytes_of_string t \<longleftrightarrow> s = t"
  by (metis string_of_bytes_of_string)

lemma bytes_of_string_Nil [simp]: "bytes_of_string [] = []"
  by (simp add: bytes_of_string_def)

lemma bytes_of_string_eq_Nil [simp]: "bytes_of_string s = [] \<longleftrightarrow> s = []"
  by (simp add: bytes_of_string_def)

section \<open>Error values\<close>

text \<open>
  The error types of the repository, and the errors its sources build with
  \<^verbatim>\<open>errors.New\<close> or receive from libraries (\<open>ErrMsg\<close>), wrap with
  \<^verbatim>\<open>fmt.Errorf("...: %w", err)\<close> (\<open>ErrWrap\<close>) or get from \<^verbatim>\<open>encoding/hex\<close>.
  \<open>ErrBadHash\<close> and \<open>ErrHashSize\<close> are the two errors of \<^verbatim>\<open>event.DecodeHashToBytes\<close>, which
  quote the hash with \<^verbatim>\<open>%q\<close>; \<open>ErrTimeParse v\<close> is \<^verbatim>\<open>time.Parse\<close>'s error on \<open>v\<close>, and
  \<open>ErrJson t v\<close> the error of \<^verbatim>\<open>json.Unmarshal\<close> of the text \<open>v\<close> into a value of type \<open>t\<close>;
  \<open>ErrUnsupportedFormat\<close> is the error of internal/export that quotes the format.
\<close>

datatype go_error =
    ErrMsg string
  | ErrCtx string
  | ErrEmptyChain
  | ErrValidation string
  | StoreErrNotFound string
  | S3ErrNotFound string
  | ErrRetentionActive string
  | KafkaErrInvalid string
  | HexInvalidByte byte
  | HexOddLength
  | ErrBadHash string go_error
  | ErrHashSize string nat
  | ErrTimeParse string
  | ErrJson string string
  | ErrUnsupportedFormat string
  | PolicyLoadError string go_error
  | ErrWrap string go_error

text \<open>
  \<^verbatim>\<open>errors.As\<close> follows \<^verbatim>\<open>Unwrap\<close>: \<^verbatim>\<open>fmt.Errorf\<close> with \<^verbatim>\<open>%w\<close> has it,
  \<^verbatim>\<open>PolicyLoadError\<close> (internal/redaction) has not.
\<close>

fun unwrap_all :: "go_error \<Rightarrow> go_error" where
  "unwrap_all (ErrWrap p e) = unwrap_all e"
| "unwrap_all (ErrBadHash h e) = unwrap_all e"
| "unwrap_all e = e"

type_synonym 'a result = "go_error + 'a"

definition is_ok :: "'a result \<Rightarrow> bool" where
  "is_ok r = (case r of Inl _ \<Rightarrow> False | Inr _ \<Rightarrow> True)"

lemma is_ok_simps [simp]: "is_ok (Inr x)" "\<not> is_ok (Inl e)"
  by (simp_all add: is_ok_def)

section \<open>Generic list lemmas\<close>

text \<open>Sorting a sorted list with one new element at the end is insertion.\<close>

lemma insort_key_lt_hd: "\<forall>y \<in> set xs. f x < f y \<Longrightarrow> insort_key f x xs = x # xs"
  by (cases xs) (auto simp: less_imp_le)

lemma sort_key_snoc:
  assumes "sorted (map f xs)" and "\<forall>y \<in> set xs. f y \<noteq> f x"
  shows "sort_key f (xs @ [x]) = insort_key f x xs"
  using assms
proof (induction xs)
  case (Cons y ys)
  then have ih: "sort_key f (ys @ [x]) = insort_key f x ys" by simp
  have y: "insort_key f y ys = y # ys" using Cons.prems by (simp add: insort_is_Cons)
  show ?case
  proof (cases "f x \<le> f y")
    case True
    with Cons.prems have lt: "f x < f y" by force
    have "\<forall>z \<in> set ys. f x < f z" using lt Cons.prems by auto
    then have "insort_key f x ys = x # ys" by (rule insort_key_lt_hd)
    moreover have "\<not> f y \<le> f x" using lt by simp
    ultimately show ?thesis using ih True y by simp
  next
    case False
    have "f y \<le> f z" if "z \<in> set (insort_key f x ys)" for z
      using that False Cons.prems by (auto simp: set_insort_key)
    then have "insort_key f y (insort_key f x ys) = y # insort_key f x ys"
      by (simp add: insort_is_Cons)
    then show ?thesis using ih False by simp
  qed
qed simp

lemma insort_key_snoc: "\<forall>y \<in> set xs. f y < f x \<Longrightarrow> insort_key f x xs = xs @ [x]"
  by (induction xs) (auto simp: not_le)

lemma insort_key_split: "\<exists>as bs. xs = as @ bs \<and> insort_key f x xs = as @ x # bs"
proof (induction xs)
  case (Cons y ys)
  then obtain as bs where "ys = as @ bs" "insort_key f x ys = as @ x # bs" by blast
  then have later: "y # ys = (y # as) @ bs" "y # insort_key f x ys = (y # as) @ x # bs" by simp_all
  show ?case
  proof (cases "f x \<le> f y")
    case True
    then have "insort_key f x (y # ys) = [] @ x # y # ys" by simp
    then show ?thesis by (metis append_Nil)
  next
    case False
    then have "insort_key f x (y # ys) = y # insort_key f x ys" by simp
    with later show ?thesis by metis
  qed
qed simp

lemma map_insort_key: "map g (insort_key (\<lambda>i. f (g i)) x xs) = insort_key f (g x) (map g xs)"
  by (induction xs) auto

lemma sorted_wrt_insort_key:
  assumes "sorted_wrt (\<lambda>a b. f a < (f b :: 'k :: linorder)) xs" and "f x \<notin> f ` set xs"
  shows "sorted_wrt (\<lambda>a b. f a < f b) (insort_key f x xs)"
  using assms by (induction xs) (auto simp: set_insort_key order.strict_trans1 not_le order_less_le)

lemma sorted_wrt_less_imp_sorted:
  "sorted_wrt (\<lambda>a b. f a < (f b :: 'k :: linorder)) xs \<Longrightarrow> sorted (map f xs)"
  by (induction xs) (auto simp: less_imp_le)

text \<open>
  \<^verbatim>\<open>sort.SliceStable\<close> with a \<^verbatim>\<open>less\<close> function: the stable sort, as insertion sort. For a
  \<^verbatim>\<open>less\<close> that compares keys it is the library's \<open>sort_key\<close>.
\<close>

fun insert_stable :: "('a \<Rightarrow> 'a \<Rightarrow> bool) \<Rightarrow> 'a \<Rightarrow> 'a list \<Rightarrow> 'a list" where
  "insert_stable lt x [] = [x]"
| "insert_stable lt x (y # ys) = (if lt y x then y # insert_stable lt x ys else x # y # ys)"

fun SliceStable :: "('a \<Rightarrow> 'a \<Rightarrow> bool) \<Rightarrow> 'a list \<Rightarrow> 'a list" where
  "SliceStable lt [] = []"
| "SliceStable lt (x # xs) = insert_stable lt x (SliceStable lt xs)"

lemma insert_stable_key:
  assumes "\<And>a b. lt a b \<longleftrightarrow> f a < (f b :: 'k :: linorder)"
  shows "insert_stable lt x ys = insort_key f x ys"
  by (induction ys) (auto simp: assms not_less)

lemma SliceStable_key:
  assumes "\<And>a b. lt a b \<longleftrightarrow> f a < (f b :: 'k :: linorder)"
  shows "SliceStable lt xs = sort_key f xs"
  by (induction xs) (simp_all add: insert_stable_key [OF assms])

text \<open>In a strictly ordered list, the elements above the last of a page are the rest.\<close>

lemma filter_above_last_take:
  assumes s: "sorted_wrt (\<lambda>a b. f a < (f b :: 'k :: linorder)) xs" and "xs \<noteq> []" and "0 < k"
  shows "filter (\<lambda>e. f (last (take k xs)) < f e) xs = drop k xs"
proof -
  define y where "y = last (take k xs)"
  have tk: "take k xs \<noteq> []" using assms by simp
  have split: "sorted_wrt (\<lambda>a b. f a < f b) (take k xs @ drop k xs)" using s by simp
  have "f z \<le> f y" if "z \<in> set (take k xs)" for z
  proof -
    have "take k xs = butlast (take k xs) @ [y]" unfolding y_def using tk by simp
    then have "sorted_wrt (\<lambda>a b. f a < f b) (butlast (take k xs) @ [y])" and
      "z \<in> set (butlast (take k xs) @ [y])"
      using split that by (auto simp only: sorted_wrt_append)
    then show ?thesis by (auto simp: sorted_wrt_append)
  qed
  moreover have "f y < f z" if "z \<in> set (drop k xs)" for z
    using split that last_in_set [OF tk] unfolding y_def by (auto simp only: sorted_wrt_append)
  ultimately have "filter (\<lambda>e. f y < f e) (take k xs) = []" "filter (\<lambda>e. f y < f e) (drop k xs) = drop k xs"
    by (auto simp: filter_empty_conv filter_id_conv not_less)
  then have "filter (\<lambda>e. f y < f e) (take k xs @ drop k xs) = drop k xs"
    by (simp only: filter_append append_Nil)
  then show ?thesis by (simp add: y_def)
qed

end
