(* ===== verification/Encoding.thy ===== *)
theory Encoding
  imports Prelude
begin

text \<open>
  The byte encodings of Go's standard library that the sources use: \<^verbatim>\<open>encoding/hex\<close>
  (\<^verbatim>\<open>EncodeToString\<close>, \<^verbatim>\<open>DecodeString\<close>) and \<^verbatim>\<open>encoding/binary\<close>'s big-endian
  \<^verbatim>\<open>PutUint32\<close> and \<^verbatim>\<open>PutUint64\<close>, with their round trips and injectivity.
\<close>

unbundle bit_operations_syntax

section \<open>Hexadecimal\<close>

definition hextable :: string where
  "hextable = ''0123456789abcdef''"

definition hex_digit :: "nat \<Rightarrow> char" where
  "hex_digit n = hextable ! n"

fun hex_EncodeToString :: "bytes \<Rightarrow> string" where
  "hex_EncodeToString [] = []"
| "hex_EncodeToString (b # bs) =
     hex_digit (unat b div 16) # hex_digit (unat b mod 16) # hex_EncodeToString bs"

text \<open>\<^verbatim>\<open>fromHexChar\<close>: upper-case digits are accepted on input.\<close>

definition hex_value :: "char \<Rightarrow> nat option" where
  "hex_value c =
     (let n = (of_char c :: nat) in
      if 48 \<le> n \<and> n \<le> 57 then Some (n - 48)
      else if 97 \<le> n \<and> n \<le> 102 then Some (n - 87)
      else if 65 \<le> n \<and> n \<le> 70 then Some (n - 55)
      else None)"

text \<open>
  \<^verbatim>\<open>DecodeString\<close> reads pairs; the first invalid digit is reported before an odd length
  is, and a final single digit is checked before the length error.
\<close>

fun hex_DecodeString :: "string \<Rightarrow> bytes result" where
  "hex_DecodeString [] = Inr []"
| "hex_DecodeString [c] =
     (case hex_value c of None \<Rightarrow> Inl (HexInvalidByte (of_char c)) | Some _ \<Rightarrow> Inl HexOddLength)"
| "hex_DecodeString (c # d # s) =
     (case hex_value c of None \<Rightarrow> Inl (HexInvalidByte (of_char c))
      | Some h \<Rightarrow> (case hex_value d of None \<Rightarrow> Inl (HexInvalidByte (of_char d))
      | Some l \<Rightarrow> (case hex_DecodeString s of Inl e \<Rightarrow> Inl e
      | Inr bs \<Rightarrow> Inr (of_nat (16 * h + l) # bs))))"

lemma hex_digit_cases: "n < 16 \<Longrightarrow> hex_value (hex_digit n) = Some n"
proof -
  have all: "\<forall>n \<in> set [0..<16]. hex_value (hex_digit n) = Some n"
    by code_simp
  assume "n < 16"
  with all show ?thesis by simp
qed

lemma hex_roundtrip [simp]: "hex_DecodeString (hex_EncodeToString bs) = Inr bs"
proof (induction bs)
  case Nil
  show ?case by simp
next
  case (Cons b bs)
  have "unat b < 2 ^ LENGTH(8)" by (rule unsigned_less)
  then have "unat b < 256" by simp
  then have h: "unat b div 16 < 16" and l: "unat b mod 16 < 16" by auto
  have "(of_nat (16 * (unat b div 16) + unat b mod 16) :: byte) = b"
    by simp
  then show ?case
    using Cons by (simp add: hex_digit_cases [OF h] hex_digit_cases [OF l])
qed

lemma length_hex_EncodeToString [simp]: "length (hex_EncodeToString bs) = 2 * length bs"
  by (induction bs) auto

lemma hex_EncodeToString_inject [simp]:
  "hex_EncodeToString xs = hex_EncodeToString ys \<longleftrightarrow> xs = ys"
  by (metis hex_roundtrip sum.inject(2))

lemma length_hex_DecodeString: "hex_DecodeString s = Inr bs \<Longrightarrow> length s = 2 * length bs"
  by (induction s arbitrary: bs rule: hex_DecodeString.induct)
    (auto split: option.splits sum.splits)

section \<open>Decimal\<close>

fun dec_digits :: "nat \<Rightarrow> string" where
  "dec_digits n = (if n < 10 then [hex_digit n] else dec_digits (n div 10) @ [hex_digit (n mod 10)])"

declare dec_digits.simps [simp del]

definition itoa :: "int \<Rightarrow> string" where
  "itoa i = (if i < 0 then ''-'' @ dec_digits (nat (- i)) else dec_digits (nat i))"

section \<open>Error texts\<close>

text \<open>
  \<open>err_text q e\<close> is \<^verbatim>\<open>e.Error()\<close>. The texts that rest on the Unicode tables or on the
  internals of the time parser are arguments: \<open>et_Quote\<close> is \<^verbatim>\<open>strconv.Quote\<close> (the \<^verbatim>\<open>%q\<close>
  verb), \<open>et_ParseTime v\<close> the text of the \<^verbatim>\<open>*time.ParseError\<close> that
  \<^verbatim>\<open>time.Parse(time.RFC3339Nano, v)\<close> returns, which is a function of \<open>v\<close>, and
  \<open>et_Json t v\<close> the text of \<^verbatim>\<open>encoding/json\<close>'s error. The invalid
  byte of \<^verbatim>\<open>encoding/hex\<close> is printed with \<^verbatim>\<open>%#U\<close>: the code point, and the character
  where it is printable.
\<close>

record err_texts =
  et_Quote :: "string \<Rightarrow> string"
  et_ParseTime :: "string \<Rightarrow> string"
  et_Json :: "string \<Rightarrow> string \<Rightarrow> string"

text \<open>Texts for concrete inputs.\<close>

definition plain_texts :: err_texts where
  "plain_texts = \<lparr>et_Quote = id, et_ParseTime = id, et_Json = (\<lambda>t v. v)\<rparr>"

definition utf8_byte :: "byte \<Rightarrow> string" where
  "utf8_byte b =
     (if unat b < 128 then [char_of (unat b)]
      else [char_of (192 + unat b div 64), char_of (128 + unat b mod 64)])"

definition upper_hex_digit :: "nat \<Rightarrow> char" where
  "upper_hex_digit n = ''0123456789ABCDEF'' ! n"

definition fmt_sharp_U :: "byte \<Rightarrow> string" where
  "fmt_sharp_U b =
     ''U+00'' @ [upper_hex_digit (unat b div 16), upper_hex_digit (unat b mod 16)] @
     (if 32 \<le> unat b \<and> unat b < 127 \<or> 161 \<le> unat b \<and> unat b \<noteq> 173
      then '' '' @ [CHR 0x27] @ utf8_byte b @ [CHR 0x27] else [])"

fun err_text :: "err_texts \<Rightarrow> go_error \<Rightarrow> string" where
  "err_text q (ErrMsg m) = m"
| "err_text q (ErrCtx m) = m"
| "err_text q ErrEmptyChain = ''chain: no events to anchor''"
| "err_text q (ErrValidation r) = ''event: invalid: '' @ r"
| "err_text q (StoreErrNotFound i) = ''store: not found: '' @ i"
| "err_text q (S3ErrNotFound k) = ''s3store: not found: '' @ k"
| "err_text q (ErrRetentionActive k) = ''s3store: object under retention: '' @ k"
| "err_text q (KafkaErrInvalid r) = ''kafka: invalid: '' @ r"
| "err_text q (HexInvalidByte b) = ''encoding/hex: invalid byte: '' @ fmt_sharp_U b"
| "err_text q HexOddLength = ''encoding/hex: odd length hex string''"
| "err_text q (ErrBadHash h e) = ''event: bad hash '' @ et_Quote q h @ '': '' @ err_text q e"
| "err_text q (ErrHashSize h n) =
     ''event: hash '' @ et_Quote q h @ '' is '' @ itoa (int n) @ '' bytes, want 32''"
| "err_text q (ErrTimeParse v) = et_ParseTime q v"
| "err_text q (ErrJson t v) = et_Json q t v"
| "err_text q (ErrUnsupportedFormat f) = ''export: unsupported format '' @ et_Quote q f"
| "err_text q (PolicyLoadError p e) = ''redaction: load '' @ p @ '': '' @ err_text q e"
| "err_text q (ErrWrap p e) = p @ err_text q e"

section \<open>Big-endian integers\<close>

definition be32 :: "32 word \<Rightarrow> bytes" where
  "be32 w = [ucast (drop_bit 24 w), ucast (drop_bit 16 w), ucast (drop_bit 8 w), ucast w]"

definition be64 :: "64 word \<Rightarrow> bytes" where
  "be64 w = [ucast (drop_bit 56 w), ucast (drop_bit 48 w), ucast (drop_bit 40 w),
     ucast (drop_bit 32 w), ucast (drop_bit 24 w), ucast (drop_bit 16 w),
     ucast (drop_bit 8 w), ucast w]"

lemma length_be32 [simp]: "length (be32 w) = 4"
  by (simp add: be32_def)

lemma length_be64 [simp]: "length (be64 w) = 8"
  by (simp add: be64_def)

lemma be32_inject [simp]: "be32 v = be32 w \<longleftrightarrow> v = w"
proof
  assume eq: "be32 v = be32 w"
  show "v = w"
  proof (rule bit_word_eqI)
    fix n
    assume "n < LENGTH(32)"
    then have n: "n < 32" by simp
    have b: "(ucast (drop_bit (8 * k) v) :: byte) = ucast (drop_bit (8 * k) w) \<Longrightarrow>
        8 * k \<le> n \<Longrightarrow> n < 8 * k + 8 \<Longrightarrow> bit v n = bit w n" for k
      by (drule arg_cong [where f = "\<lambda>x. bit x (n - 8 * k)"])
        (auto simp: bit_ucast_iff bit_drop_bit_eq)
    show "bit v n = bit w n"
      using eq n b [of 0] b [of 1] b [of 2] b [of 3]
      by (simp add: be32_def) (metis linorder_not_less)
  qed
qed simp

lemma be64_inject [simp]: "be64 v = be64 w \<longleftrightarrow> v = w"
proof
  assume eq: "be64 v = be64 w"
  show "v = w"
  proof (rule bit_word_eqI)
    fix n
    assume "n < LENGTH(64)"
    then have n: "n < 64" by simp
    have b: "(ucast (drop_bit (8 * k) v) :: byte) = ucast (drop_bit (8 * k) w) \<Longrightarrow>
        8 * k \<le> n \<Longrightarrow> n < 8 * k + 8 \<Longrightarrow> bit v n = bit w n" for k
      by (drule arg_cong [where f = "\<lambda>x. bit x (n - 8 * k)"])
        (auto simp: bit_ucast_iff bit_drop_bit_eq)
    show "bit v n = bit w n"
      using eq n b [of 0] b [of 1] b [of 2] b [of 3] b [of 4] b [of 5] b [of 6] b [of 7]
      by (simp add: be64_def) (metis linorder_not_less)
  qed
qed simp

end
