(* ===== verification/GoText.thy ===== *)
theory GoText
  imports Encoding
begin

text \<open>
  The functions of Go's \<^verbatim>\<open>strings\<close>, \<^verbatim>\<open>unicode/utf8\<close>, \<^verbatim>\<open>encoding/base64\<close> and
  \<^verbatim>\<open>encoding/csv\<close> the sources call, on byte strings.
\<close>

section \<open>UTF-8\<close>

abbreviation code :: "char \<Rightarrow> nat" where
  "code c \<equiv> of_char c"

definition byte_in :: "nat \<Rightarrow> nat \<Rightarrow> char \<Rightarrow> bool" where
  "byte_in lo hi c \<longleftrightarrow> lo \<le> code c \<and> code c \<le> hi"

abbreviation cont_byte :: "char \<Rightarrow> bool" where
  "cont_byte \<equiv> byte_in 128 191"

text \<open>
  The number of bytes of the rune at the start of a string, as \<^verbatim>\<open>utf8.DecodeRuneInString\<close>
  accepts them; 0 for no byte or an invalid encoding.
\<close>

fun rune_len :: "string \<Rightarrow> nat" where
  "rune_len [] = 0"
| "rune_len (a # s) =
     (let n = code a in
      if n < 128 then 1
      else (case s of [] \<Rightarrow> 0 | b # s \<Rightarrow>
        if 194 \<le> n \<and> n \<le> 223 then (if cont_byte b then 2 else 0)
        else (case s of [] \<Rightarrow> 0 | c # s \<Rightarrow>
          if n = 224 then (if byte_in 160 191 b \<and> cont_byte c then 3 else 0)
          else if n = 237 then (if byte_in 128 159 b \<and> cont_byte c then 3 else 0)
          else if 225 \<le> n \<and> n \<le> 239 then (if cont_byte b \<and> cont_byte c then 3 else 0)
          else (case s of [] \<Rightarrow> 0 | d # s \<Rightarrow>
            if n = 240 then (if byte_in 144 191 b \<and> cont_byte c \<and> cont_byte d then 4 else 0)
            else if 241 \<le> n \<and> n \<le> 243 then (if cont_byte b \<and> cont_byte c \<and> cont_byte d then 4 else 0)
            else if n = 244 then (if byte_in 128 143 b \<and> cont_byte c \<and> cont_byte d then 4 else 0)
            else 0))))"

text \<open>\<^verbatim>\<open>utf8.EncodeRune\<close>, for code points that are not surrogates.\<close>

definition encode_rune :: "nat \<Rightarrow> string" where
  "encode_rune r =
     (if r < 128 then [char_of r]
      else if r < 2048 then [char_of (192 + r div 64), char_of (128 + r mod 64)]
      else if r < 65536 then
        [char_of (224 + r div 4096), char_of (128 + r div 64 mod 64), char_of (128 + r mod 64)]
      else [char_of (240 + r div 262144), char_of (128 + r div 4096 mod 64),
            char_of (128 + r div 64 mod 64), char_of (128 + r mod 64)])"

abbreviation rune_error :: string where
  "rune_error \<equiv> encode_rune 65533"

section \<open>White space\<close>

text \<open>The encodings of the runes for which \<^verbatim>\<open>unicode.IsSpace\<close> holds.\<close>

definition space_codes :: "nat list" where
  "space_codes = [9, 10, 11, 12, 13, 32, 133, 160, 5760] @ [8192..<8203] @ [8232, 8233, 8239, 8287, 12288]"

definition space_runes :: "string list" where
  "space_runes = map encode_rune space_codes"

text \<open>The length of the white-space rune a string starts with, or 0.\<close>

definition space_prefix :: "string \<Rightarrow> nat" where
  "space_prefix s = (case filter (\<lambda>r. prefix r s) space_runes of [] \<Rightarrow> 0 | r # _ \<Rightarrow> length r)"

lemma encode_rune_nonempty [simp]: "encode_rune r \<noteq> []"
  by (simp add: encode_rune_def)

lemma space_prefix_le: "space_prefix s \<le> length s"
  by (auto simp: space_prefix_def filter_eq_Cons_iff dest: prefix_length_le split: list.split)

lemma space_prefix_Nil [simp]: "space_prefix [] = 0"
  using space_prefix_le [of "[]"] by simp

function trim_left :: "string \<Rightarrow> string" where
  "trim_left s = (if space_prefix s = 0 then s else trim_left (drop (space_prefix s) s))"
  by pat_completeness auto
termination
proof (relation "measure length", goal_cases)
  case (2 s)
  then show ?case using space_prefix_le [of s] by simp
qed simp

declare trim_left.simps [simp del]

text \<open>The end of the string: the same runes, as suffixes.\<close>

definition space_suffix :: "string \<Rightarrow> nat" where
  "space_suffix s = (case filter (\<lambda>r. suffix r s) space_runes of [] \<Rightarrow> 0 | r # _ \<Rightarrow> length r)"

lemma space_suffix_le: "space_suffix s \<le> length s"
  by (auto simp: space_suffix_def filter_eq_Cons_iff dest: suffix_length_le split: list.split)

lemma space_suffix_Nil [simp]: "space_suffix [] = 0"
  using space_suffix_le [of "[]"] by simp

function trim_right :: "string \<Rightarrow> string" where
  "trim_right s =
     (if space_suffix s = 0 then s else trim_right (take (length s - space_suffix s) s))"
  by pat_completeness auto
termination
proof (relation "measure length", goal_cases)
  case (2 s)
  then show ?case using space_suffix_le [of s] by simp
qed simp

declare trim_right.simps [simp del]

definition TrimSpace :: "string \<Rightarrow> string" where
  "TrimSpace s = trim_right (trim_left s)"

text \<open>A string of printable ASCII has nothing to trim.\<close>

lemma encode_rune_ends:
  assumes "128 \<le> r" and "r < 65536"
  shows "128 \<le> code (hd (encode_rune r))" and "128 \<le> code (last (encode_rune r))"
proof -
  have "r div 64 < 32" if "r < 2048" using that by simp
  moreover have "r div 4096 < 16" using assms(2) by simp
  ultimately show "128 \<le> code (hd (encode_rune r))" "128 \<le> code (last (encode_rune r))"
    using assms by (auto simp: encode_rune_def)
qed

lemma space_rune_ends:
  assumes "r \<in> set space_runes"
  shows "code (hd r) \<le> 32 \<or> 128 \<le> code (hd r)" and "code (last r) \<le> 32 \<or> 128 \<le> code (last r)"
proof -
  obtain n where n: "r = encode_rune n" and "n \<le> 32 \<or> 128 \<le> n \<and> n < 65536"
    using assms by (auto simp: space_runes_def space_codes_def)
  then show "code (hd r) \<le> 32 \<or> 128 \<le> code (hd r)" and "code (last r) \<le> 32 \<or> 128 \<le> code (last r)"
    using encode_rune_ends [of n] by (auto simp: encode_rune_def)
qed

lemma TrimSpace_plain:
  assumes "s \<noteq> [] \<Longrightarrow> 32 < code (hd s) \<and> code (hd s) < 128 \<and> 32 < code (last s) \<and> code (last s) < 128"
  shows "TrimSpace s = s"
proof -
  have ne: "r \<noteq> []" if "r \<in> set space_runes" for r using that by (auto simp: space_runes_def)
  have "filter (\<lambda>r. prefix r s) space_runes = []"
    using assms space_rune_ends(1) ne by (fastforce simp: prefix_def filter_empty_conv)
  then have "space_prefix s = 0" by (simp add: space_prefix_def)
  moreover have "filter (\<lambda>r. suffix r s) space_runes = []"
    using assms space_rune_ends(2) ne by (fastforce simp: suffix_def filter_empty_conv)
  then have "space_suffix s = 0" by (simp add: space_suffix_def)
  ultimately show ?thesis by (simp add: TrimSpace_def trim_left.simps trim_right.simps)
qed

section \<open>Splitting, prefixes and case\<close>

definition TrimPrefix :: "string \<Rightarrow> string \<Rightarrow> string" where
  "TrimPrefix s p = (if prefix p s then drop (length p) s else s)"

lemma TrimPrefix_append [simp]: "TrimPrefix (p @ s) p = s"
  by (simp add: TrimPrefix_def)

text \<open>\<^verbatim>\<open>strings.Split\<close> at one character, and \<^verbatim>\<open>strings.SplitN(s, sep, 2)\<close>.\<close>

fun split_at_char :: "char \<Rightarrow> string \<Rightarrow> string list" where
  "split_at_char c [] = [[]]"
| "split_at_char c (x # s) =
     (if x = c then [] # split_at_char c s
      else (case split_at_char c s of [] \<Rightarrow> [[x]] | p # ps \<Rightarrow> (x # p) # ps))"

definition split_first :: "char \<Rightarrow> string \<Rightarrow> string \<times> string" where
  "split_first c s = (takeWhile (\<lambda>x. x \<noteq> c) s, tl (dropWhile (\<lambda>x. x \<noteq> c) s))"

text \<open>
  \<^verbatim>\<open>strings.ToLower\<close> and \<^verbatim>\<open>strings.ToUpper\<close> of an ASCII string; of another string they
  depend on the Unicode tables, which are the argument \<open>uni\<close>.
\<close>

definition is_ascii :: "string \<Rightarrow> bool" where
  "is_ascii s \<longleftrightarrow> (\<forall>c \<in> set s. code c < 128)"

definition ascii_lower :: "char \<Rightarrow> char" where
  "ascii_lower c = (if byte_in 65 90 c then char_of (code c + 32) else c)"

definition ascii_upper :: "char \<Rightarrow> char" where
  "ascii_upper c = (if byte_in 97 122 c then char_of (code c - 32) else c)"

definition ToLower :: "(string \<Rightarrow> string) \<Rightarrow> string \<Rightarrow> string" where
  "ToLower uni s = (if is_ascii s then map ascii_lower s else uni s)"

definition ToUpper :: "(string \<Rightarrow> string) \<Rightarrow> string \<Rightarrow> string" where
  "ToUpper uni s = (if is_ascii s then map ascii_upper s else uni s)"

section \<open>Base64\<close>

definition base64_digit :: "nat \<Rightarrow> char" where
  "base64_digit n = ''ABCDEFGHIJKLMNOPQRSTUVWXYZabcdefghijklmnopqrstuvwxyz0123456789+/'' ! n"

text \<open>\<^verbatim>\<open>base64.StdEncoding.EncodeToString\<close>\<close>

fun base64_encode :: "bytes \<Rightarrow> string" where
  "base64_encode [] = []"
| "base64_encode [a] =
     (let v = unat a * 65536 in [base64_digit (v div 262144), base64_digit (v div 4096 mod 64), CHR ''='', CHR ''=''])"
| "base64_encode [a, b] =
     (let v = unat a * 65536 + unat b * 256 in
      [base64_digit (v div 262144), base64_digit (v div 4096 mod 64), base64_digit (v div 64 mod 64), CHR ''=''])"
| "base64_encode (a # b # c # bs) =
     (let v = unat a * 65536 + unat b * 256 + unat c in
      base64_digit (v div 262144) # base64_digit (v div 4096 mod 64) # base64_digit (v div 64 mod 64) #
      base64_digit (v mod 64) # base64_encode bs)"

section \<open>CSV\<close>

abbreviation dquote :: char where
  "dquote \<equiv> CHR 0x22"

abbreviation newline :: char where
  "newline \<equiv> CHR 0x0A"

abbreviation return :: char where
  "return \<equiv> CHR 0x0D"

text \<open>\<^verbatim>\<open>Writer.fieldNeedsQuotes\<close> and \<^verbatim>\<open>Writer.Write\<close> with the default settings.\<close>

definition csv_needs_quotes :: "string \<Rightarrow> bool" where
  "csv_needs_quotes f =
     (if f = [] then False
      else if f = [CHR 0x5C, CHR ''.''] then True
      else list_ex (\<lambda>c. c = newline \<or> c = return \<or> c = dquote \<or> c = CHR '','') f \<or> space_prefix f \<noteq> 0)"

definition csv_field :: "string \<Rightarrow> string" where
  "csv_field f =
     (if \<not> csv_needs_quotes f then f
      else [dquote] @ concat (map (\<lambda>c. if c = dquote then [dquote, dquote] else [c]) f) @ [dquote])"

fun csv_fields :: "string list \<Rightarrow> string" where
  "csv_fields [] = []"
| "csv_fields [f] = csv_field f"
| "csv_fields (f # fs) = csv_field f @ [CHR '',''] @ csv_fields fs"

definition csv_record :: "string list \<Rightarrow> string" where
  "csv_record fs = csv_fields fs @ [newline]"

end
