(* ===== verification/GoTime.thy ===== *)
theory GoTime
  imports Encoding
begin

text \<open>
  The part of Go's \<^verbatim>\<open>time\<close> package the sources use: durations, \<^verbatim>\<open>UnixNano\<close>, and the
  RFC3339Nano text of an instant in UTC (\<^verbatim>\<open>t.UTC().Format(time.RFC3339Nano)\<close>) with its parser
  (\<^verbatim>\<open>time.Parse(time.RFC3339Nano, s)\<close>). An instant is the number of nanoseconds since
  January 1, year 1; years are those of the proleptic Gregorian calendar.

  The parser follows the general layout-driven parser of the package: the hour may have one
  digit, the fraction starts with a period or a comma and has any number of digits (those
  after the ninth are dropped), and the zone is \<^verbatim>\<open>Z\<close> or a numeric offset.
\<close>

section \<open>Durations and Unix time\<close>

text \<open>
  A \<^verbatim>\<open>time.Duration\<close> is an int64 count of nanoseconds. Products of durations wrap around
  at 64 bits, which \<open>wrap64\<close> writes out.
\<close>

definition wrap64 :: "int \<Rightarrow> int" where
  "wrap64 i = sint (word_of_int i :: 64 word)"

definition nanos_per_sec :: int where "nanos_per_sec = 1000000000"
definition nanos_per_day :: int where "nanos_per_day = 86400000000000"

text \<open>\<^verbatim>\<open>time.Duration(d) * 24 * time.Hour\<close>\<close>

definition duration_days :: "int \<Rightarrow> duration" where
  "duration_days d = wrap64 (wrap64 (d * 24) * 3600000000000)"

text \<open>Seconds from the zero time to the Unix epoch.\<close>

definition unix_epoch :: time where
  "unix_epoch = 62135596800 * 1000000000"

text \<open>\<^verbatim>\<open>uint64(ts.UTC().UnixNano())\<close>: the int64 arithmetic of \<^verbatim>\<open>UnixNano\<close> wraps around.\<close>

definition UnixNano :: "time \<Rightarrow> 64 word" where
  "UnixNano t = word_of_int (t - unix_epoch)"

section \<open>The calendar\<close>

definition is_leap :: "int \<Rightarrow> bool" where
  "is_leap y \<longleftrightarrow> y mod 4 = 0 \<and> (y mod 100 \<noteq> 0 \<or> y mod 400 = 0)"

text \<open>Days from January 1, year 1 to January 1 of a year.\<close>

definition days_before_year :: "int \<Rightarrow> int" where
  "days_before_year y = 365 * (y - 1) + (y - 1) div 4 - (y - 1) div 100 + (y - 1) div 400"

text \<open>The year and the day of the year, from a day count.\<close>

definition year_yday :: "int \<Rightarrow> int \<times> int" where
  "year_yday d =
     (let a = d div 146097; r = d mod 146097;
          b = min 3 (r div 36524); r = r - 36524 * b;
          c = r div 1461; r = r mod 1461;
          e = min 3 (r div 365)
      in (400 * a + 100 * b + 4 * c + e + 1, r - 365 * e))"

definition month_lengths :: "bool \<Rightarrow> int list" where
  "month_lengths leap = [31, if leap then 29 else 28, 31, 30, 31, 30, 31, 31, 30, 31, 30, 31]"

fun month_day :: "int list \<Rightarrow> int \<Rightarrow> int \<Rightarrow> int \<times> int" where
  "month_day [] m d = (m, d + 1)"
| "month_day (l # ls) m d = (if d < l then (m, d + 1) else month_day ls (m + 1) (d - l))"

definition days_before_month :: "bool \<Rightarrow> int \<Rightarrow> int" where
  "days_before_month leap m = sum_list (take (nat (m - 1)) (month_lengths leap))"

definition days_in :: "bool \<Rightarrow> int \<Rightarrow> int" where
  "days_in leap m = month_lengths leap ! nat (m - 1)"

section \<open>Printing\<close>

definition digit2 :: "int \<Rightarrow> string" where
  "digit2 n = [hex_digit (nat (n div 10 mod 10)), hex_digit (nat (n mod 10))]"

definition digit4 :: "int \<Rightarrow> string" where
  "digit4 n = digit2 (n div 100) @ digit2 (n mod 100)"

text \<open>
  \<^verbatim>\<open>appendInt(b, year, 4)\<close>: at least four digits, a sign in front of a negative year.
\<close>

definition append_year :: "int \<Rightarrow> string" where
  "append_year y =
     (if 0 \<le> y \<and> y \<le> 9999 then digit4 y
      else if y < 0 then ''-'' @ (if y \<ge> -9999 then digit4 (- y) else dec_digits (nat (- y)))
      else dec_digits (nat y))"

fun drop_trailing_zeros :: "string \<Rightarrow> string" where
  "drop_trailing_zeros s =
     (if s \<noteq> [] \<and> last s = CHR ''0'' then drop_trailing_zeros (butlast s) else s)"

declare drop_trailing_zeros.simps [simp del]

fun frac_digits :: "nat \<Rightarrow> int \<Rightarrow> string" where
  "frac_digits 0 n = []"
| "frac_digits (Suc k) n = frac_digits k (n div 10) @ [hex_digit (nat (n mod 10))]"

definition append_nano :: "int \<Rightarrow> string" where
  "append_nano n = (if n = 0 then [] else CHR ''.'' # drop_trailing_zeros (frac_digits 9 n))"

text \<open>\<^verbatim>\<open>t.UTC().Format(time.RFC3339Nano)\<close>\<close>

definition format_RFC3339Nano :: "time \<Rightarrow> string" where
  "format_RFC3339Nano t =
     (let secs = t div nanos_per_sec; ns = t mod nanos_per_sec;
          d = secs div 86400; s = secs mod 86400;
          (y, yd) = year_yday d;
          (m, md) = month_day (month_lengths (is_leap y)) 1 yd
      in append_year y @ ''-'' @ digit2 m @ ''-'' @ digit2 md @ ''T'' @
         digit2 (s div 3600) @ '':'' @ digit2 (s div 60 mod 60) @ '':'' @ digit2 (s mod 60) @
         append_nano ns @ ''Z'')"

section \<open>Parsing\<close>

definition digit_val :: "char \<Rightarrow> int option" where
  "digit_val c = (if CHR ''0'' \<le> c \<and> c \<le> CHR ''9'' then Some (int (of_char c) - 48) else None)"

text \<open>\<^verbatim>\<open>getnum\<close>: two digits, or one where \<open>fixed\<close> is off; \<^verbatim>\<open>skip\<close>: a literal character.\<close>

definition getnum :: "bool \<Rightarrow> string \<Rightarrow> (int \<times> string) option" where
  "getnum fixed s = (case s of [] \<Rightarrow> None | c # s' \<Rightarrow> (case digit_val c of None \<Rightarrow> None
     | Some h \<Rightarrow>
        (case s' of [] \<Rightarrow> if fixed then None else Some (h, s')
         | d # r \<Rightarrow> (case digit_val d of None \<Rightarrow> if fixed then None else Some (h, s')
            | Some l \<Rightarrow> Some (10 * h + l, r)))))"

definition skip :: "char \<Rightarrow> string \<Rightarrow> string option" where
  "skip c s = (case s of [] \<Rightarrow> None | d # s' \<Rightarrow> if d = c then Some s' else None)"

text \<open>\<^verbatim>\<open>stdLongYear\<close>: exactly four digits.\<close>

definition getyear :: "string \<Rightarrow> (int \<times> string) option" where
  "getyear s = Option.bind (getnum True s) (\<lambda>(h, s).
     Option.bind (getnum True s) (\<lambda>(l, s). Some (100 * h + l, s)))"

definition digits_val :: "string \<Rightarrow> int" where
  "digits_val s = foldl (\<lambda>a c. 10 * a + (case digit_val c of Some d \<Rightarrow> d | None \<Rightarrow> 0)) 0 s"

lemma digit_val_hex_digit: "n < 10 \<Longrightarrow> digit_val (hex_digit n) = Some (int n)"
proof -
  have all: "\<forall>n \<in> set [0..<10]. digit_val (hex_digit n) = Some (int n)" by code_simp
  assume "n < 10"
  with all show ?thesis by simp
qed

lemma digits_val_snoc: "digits_val (s @ [c]) = 10 * digits_val s + (case digit_val c of Some d \<Rightarrow> d | None \<Rightarrow> 0)"
  by (simp add: digits_val_def)

text \<open>
  The fraction: a period or comma and a digit, then all digits that follow; the first nine
  count.
\<close>

definition getnano :: "string \<Rightarrow> int \<times> string" where
  "getnano s = (case s of c # d # _ \<Rightarrow>
       if (c = CHR ''.'' \<or> c = CHR '','') \<and> digit_val d \<noteq> None
       then let ds = takeWhile (\<lambda>x. digit_val x \<noteq> None) (tl s); n = take 9 ds
            in (digits_val n * 10 ^ (9 - length n), drop (length ds) (tl s))
       else (0, s)
     | _ \<Rightarrow> (0, s))"

text \<open>The zone offset in seconds; the whole rest of the text must be the zone.\<close>

definition getzone :: "string \<Rightarrow> int option" where
  "getzone s = (if s = ''Z'' then Some 0
     else if length s = 6 \<and> s ! 3 = CHR '':'' then
       (case getnum True (take 2 (drop 1 s)) of None \<Rightarrow> None | Some (h, _) \<Rightarrow>
        (case getnum True (drop 4 s) of None \<Rightarrow> None | Some (m, _) \<Rightarrow>
          if h > 24 \<or> m > 60 then None
          else if s ! 0 = CHR ''+'' then Some ((h * 60 + m) * 60)
          else if s ! 0 = CHR ''-'' then Some (- ((h * 60 + m) * 60))
          else None))
     else None)"

definition time_of_civil :: "int \<Rightarrow> int \<Rightarrow> int \<Rightarrow> int \<Rightarrow> int \<Rightarrow> int \<Rightarrow> int \<Rightarrow> time" where
  "time_of_civil y m d hh mm ss ns =
     ((days_before_year y + days_before_month (is_leap y) m + d - 1) * 86400
       + hh * 3600 + mm * 60 + ss) * nanos_per_sec + ns"

text \<open>\<^verbatim>\<open>time.Parse(time.RFC3339Nano, s)\<close>; \<open>None\<close> is its error.\<close>

definition parse_time_opt :: "string \<Rightarrow> time option" where
  "parse_time_opt s =
     Option.bind (getyear s) (\<lambda>(y, s).
     Option.bind (skip CHR ''-'' s) (\<lambda>s.
     Option.bind (getnum True s) (\<lambda>(m, s).
     if m \<le> 0 \<or> 12 < m then None else
     Option.bind (skip CHR ''-'' s) (\<lambda>s.
     Option.bind (getnum True s) (\<lambda>(d, s).
     Option.bind (skip CHR ''T'' s) (\<lambda>s.
     Option.bind (getnum False s) (\<lambda>(hh, s).
     if 24 \<le> hh then None else
     Option.bind (skip CHR '':'' s) (\<lambda>s.
     Option.bind (getnum True s) (\<lambda>(mm, s).
     if 60 \<le> mm then None else
     Option.bind (skip CHR '':'' s) (\<lambda>s.
     Option.bind (getnum True s) (\<lambda>(ss, s).
     if 60 \<le> ss then None else
     (case getnano s of (ns, s) \<Rightarrow>
     Option.bind (getzone s) (\<lambda>off.
     if d < 1 \<or> d > days_in (is_leap y) m then None
     else Some (time_of_civil y m d hh mm ss ns - off * nanos_per_sec))))))))))))))"

definition parse_RFC3339Nano :: "string \<Rightarrow> time result" where
  "parse_RFC3339Nano s = (case parse_time_opt s of None \<Rightarrow> Inl (ErrTimeParse s) | Some t \<Rightarrow> Inr t)"

section \<open>Durations as text\<close>

text \<open>\<^verbatim>\<open>Duration.String\<close>: \<open>frac_text\<close> is the fraction with its trailing zeros dropped.\<close>

definition frac_text :: "int \<Rightarrow> nat \<Rightarrow> string" where
  "frac_text v prec =
     (let ds = drop_trailing_zeros (frac_digits prec (v mod 10 ^ prec)) in if ds = [] then [] else CHR ''.'' # ds)"

definition Duration_String :: "duration \<Rightarrow> string" where
  "Duration_String d =
     (let u = \<bar>d\<bar>; sg = (if d < 0 then ''-'' else '''') in
      if u = 0 then ''0s''
      else if u < 1000 then sg @ itoa u @ ''ns''
      else if u < 1000000 then sg @ itoa (u div 1000) @ frac_text u 3 @ [CHR 0xC2, CHR 0xB5, CHR ''s'']
      else if u < 1000000000 then sg @ itoa (u div 1000000) @ frac_text u 6 @ ''ms''
      else
        let s = u div 1000000000; m = s div 60; h = m div 60 in
        sg @ (if m > 0 then (if h > 0 then itoa h @ ''h'' else '''') @ itoa (m mod 60) @ ''m'' else '''') @
        itoa (s mod 60) @ frac_text u 9 @ ''s'')"

lemma wrap64_small: "- 9223372036854775808 \<le> i \<Longrightarrow> i < 9223372036854775808 \<Longrightarrow> wrap64 i = i"
  by (simp add: wrap64_def signed_of_int signed_take_bit_int_eq_self_iff)

lemma wrap64_wrapped:
  assumes "9223372036854775808 \<le> i" and "i < 27670116110564327424"
  shows "wrap64 i = i - 18446744073709551616"
proof -
  have "(word_of_int i :: 64 word) = word_of_int (i - 18446744073709551616)"
    by (simp add: word_of_int_eq_iff take_bit_eq_mod)
  then have "wrap64 i = wrap64 (i - 18446744073709551616)" unfolding wrap64_def by (rule arg_cong)
  also have "\<dots> = i - 18446744073709551616" using assms by (intro wrap64_small) auto
  finally show ?thesis .
qed

lemma duration_days_small:
  assumes "0 \<le> d" and "d \<le> 106751"
  shows "duration_days d = d * 86400000000000"
  using assms by (simp add: duration_days_def wrap64_small)

end
