(* ===== verification/Json.thy ===== *)
theory Json
  imports GoText GoTime
begin

text \<open>
  The part of \<^verbatim>\<open>encoding/json\<close> the sources use: the checked parse of a document, the decoding
  into a map of \<^verbatim>\<open>any\<close>, and the two encoders \<^verbatim>\<open>Marshal\<close> and \<^verbatim>\<open>MarshalIndent\<close>.

  A number that is decoded into \<^verbatim>\<open>any\<close> becomes a float64. The model keeps such a number as the
  text \<^verbatim>\<open>Marshal\<close> prints for it; the conversion of a number literal to that text through
  float64 is the argument \<open>fl\<close>, which is \<open>None\<close> where the literal is out of range. Structs
  decode numbers nowhere in this repository.
\<close>

datatype json =
    JNull
  | JBool bool
  | JNum string
  | JStr string
  | JArr "json list"
  | JObj "(string \<times> json) list"

section \<open>Scanning\<close>

definition json_ws :: "char \<Rightarrow> bool" where
  "json_ws c \<longleftrightarrow> c = CHR '' '' \<or> c = CHR 0x09 \<or> c = newline \<or> c = return"

definition skip_ws :: "string \<Rightarrow> string" where
  "skip_ws s = dropWhile json_ws s"

lemma length_skip_ws: "length (skip_ws s) \<le> length s"
  by (simp add: skip_ws_def length_dropWhile_le)

lemma length_skip_ws_Cons: "skip_ws s = c # r \<Longrightarrow> length r < length s"
  using length_skip_ws [of s] by simp

lemma double_skip_ws: "length r < n \<Longrightarrow> 2 * length (skip_ws r) < Suc (2 * n)"
  using length_skip_ws [of r] by simp

abbreviation backslash :: char where
  "backslash \<equiv> CHR 0x5C"

definition is_hex_digit :: "char \<Rightarrow> bool" where
  "is_hex_digit c \<longleftrightarrow> hex_value c \<noteq> None"

text \<open>The raw text of a string literal, after its opening quote, and what follows it.\<close>

fun scan_string :: "string \<Rightarrow> string \<Rightarrow> (string \<times> string) option" where
  "scan_string acc [] = None"
| "scan_string acc (c # s) =
     (if c = dquote then Some (rev acc, s)
      else if c = backslash then
        (case s of [] \<Rightarrow> None
         | e # s' \<Rightarrow>
            if e \<in> set ''bfnrt/'' \<or> e = backslash \<or> e = dquote then scan_string (e # c # acc) s'
            else if e = CHR ''u'' then
              (case s' of h1 # h2 # h3 # h4 # s'' \<Rightarrow>
                 if is_hex_digit h1 \<and> is_hex_digit h2 \<and> is_hex_digit h3 \<and> is_hex_digit h4
                 then scan_string (h4 # h3 # h2 # h1 # e # c # acc) s'' else None
               | _ \<Rightarrow> None)
            else None)
      else if code c < 32 then None
      else scan_string (c # acc) s)"

lemma scan_string_shorter: "scan_string acc s = Some (k, r) \<Longrightarrow> length r < length s"
proof (induction "length s" arbitrary: acc s rule: less_induct)
  case less
  have ih: "scan_string acc' t = Some (k, r) \<Longrightarrow> length t < length s \<Longrightarrow> length r < length s" for acc' t
    using less.hyps [of t acc'] by simp
  obtain c t where s: "s = c # t" using less.prems by (cases s) auto
  show ?case
  proof (cases "c = backslash")
    case False
    then show ?thesis using less.prems ih [of "c # acc" t] by (auto simp: s split: if_splits)
  next
    case True
    then obtain e t' where t: "t = e # t'" using less.prems by (cases t) (auto simp: s)
    show ?thesis
    proof (cases "e \<in> set ''bfnrt/'' \<or> e = backslash \<or> e = dquote")
      case True
      then have "scan_string (e # c # acc) t' = Some (k, r)" using less.prems \<open>c = backslash\<close> by (simp add: s t)
      from ih [OF this] show ?thesis by (simp add: s t)
    next
      case False
      then obtain h1 h2 h3 h4 t'' where t': "t' = h1 # h2 # h3 # h4 # t''"
        and "scan_string (h4 # h3 # h2 # h1 # e # c # acc) t'' = Some (k, r)"
        using less.prems \<open>c = backslash\<close> by (auto simp: s t split: if_splits list.splits)
      from ih [OF this(2)] show ?thesis by (simp add: s t t')
    qed
  qed
qed

definition hex_val :: "char \<Rightarrow> nat" where
  "hex_val c = (case hex_value c of Some n \<Rightarrow> n | None \<Rightarrow> 0)"

definition getu4 :: "string \<Rightarrow> nat option" where
  "getu4 s = (case s of b # u # h1 # h2 # h3 # h4 # _ \<Rightarrow>
       if b = backslash \<and> u = CHR ''u''
       then Some (((hex_val h1 * 16 + hex_val h2) * 16 + hex_val h3) * 16 + hex_val h4) else None
     | _ \<Rightarrow> None)"

definition simple_escape :: "char \<Rightarrow> char" where
  "simple_escape e =
     (if e = CHR ''b'' then CHR 0x08 else if e = CHR ''f'' then CHR 0x0C else if e = CHR ''n'' then newline
      else if e = CHR ''r'' then return else if e = CHR ''t'' then CHR 0x09 else e)"

text \<open>
  \<^verbatim>\<open>unquote\<close> on a scanned literal: escapes are resolved, a surrogate pair becomes its rune, and
  a lone surrogate or an invalid byte becomes U+FFFD.
\<close>

function json_unquote :: "string \<Rightarrow> string" where
  "json_unquote s =
     (case s of [] \<Rightarrow> []
      | c # r \<Rightarrow>
         if c = backslash then
           (case getu4 s of
              Some rr \<Rightarrow>
                if 55296 \<le> rr \<and> rr < 57344 then
                  (case getu4 (drop 6 s) of
                     Some rr1 \<Rightarrow>
                       if rr < 56320 \<and> 56320 \<le> rr1 \<and> rr1 < 57344
                       then encode_rune (65536 + (rr - 55296) * 1024 + (rr1 - 56320)) @ json_unquote (drop 12 s)
                       else rune_error @ json_unquote (drop 6 s)
                   | None \<Rightarrow> rune_error @ json_unquote (drop 6 s))
                else encode_rune rr @ json_unquote (drop 6 s)
            | None \<Rightarrow> (case r of [] \<Rightarrow> [] | e # t \<Rightarrow> simple_escape e # json_unquote t))
         else if code c < 128 then c # json_unquote r
         else if rune_len s = 0 then rune_error @ json_unquote r
         else take (rune_len s) s @ json_unquote (drop (rune_len s) s))"
  by pat_completeness auto
termination
  by (relation "measure length") (auto split: list.splits)

declare json_unquote.simps [simp del]

section \<open>Numbers\<close>

definition is_digit :: "char \<Rightarrow> bool" where
  "is_digit c \<longleftrightarrow> byte_in 48 57 c"

definition scan_exponent :: "string \<Rightarrow> string \<Rightarrow> (string \<times> string) option" where
  "scan_exponent acc s =
     (case s of [] \<Rightarrow> Some (acc, [])
      | c # t \<Rightarrow>
         if c = CHR ''e'' \<or> c = CHR ''E'' then
           let sg = takeWhile (\<lambda>x. x = CHR ''+'' \<or> x = CHR ''-'') (take 1 t);
               t = drop (length sg) t;
               ds = takeWhile is_digit t
           in if ds = [] then None else Some (acc @ c # sg @ ds, drop (length ds) t)
         else Some (acc, s))"

definition scan_fraction :: "string \<Rightarrow> string \<Rightarrow> (string \<times> string) option" where
  "scan_fraction acc s =
     (case s of [] \<Rightarrow> Some (acc, [])
      | c # t \<Rightarrow>
         if c = CHR ''.'' then
           let ds = takeWhile is_digit t
           in if ds = [] then None else scan_exponent (acc @ c # ds) (drop (length ds) t)
         else scan_exponent acc s)"

definition scan_number :: "string \<Rightarrow> (string \<times> string) option" where
  "scan_number s =
     (let sg = takeWhile (\<lambda>x. x = CHR ''-'') (take 1 s); s = drop (length sg) s in
      case s of [] \<Rightarrow> None
      | d # t \<Rightarrow>
         if d = CHR ''0'' then scan_fraction (sg @ [d]) t
         else if is_digit d then
           let ds = takeWhile is_digit s in scan_fraction (sg @ ds) (drop (length ds) s)
         else None)"

lemma scan_exponent_le: "scan_exponent acc s = Some (n, r) \<Longrightarrow> length r \<le> length s"
  by (auto simp: scan_exponent_def Let_def split: list.splits if_splits)

lemma scan_fraction_le: "scan_fraction acc s = Some (n, r) \<Longrightarrow> length r \<le> length s"
  by (fastforce simp: scan_fraction_def Let_def split: list.splits if_splits dest: scan_exponent_le)

lemma scan_number_shorter: "scan_number s = Some (n, r) \<Longrightarrow> length r < length s"
proof -
  assume a: "scan_number s = Some (n, r)"
  define s' where "s' = drop (length (takeWhile (\<lambda>x. x = CHR ''-'') (take 1 s))) s"
  have "length s' \<le> length s" by (simp add: s'_def)
  moreover have "length r < length s'"
    using a unfolding scan_number_def Let_def s'_def [symmetric]
    by (auto split: list.splits if_splits dest!: scan_fraction_le)
  ultimately show "length r < length s" by simp
qed

section \<open>Documents\<close>

text \<open>
  The grammar of JSON, with Go's limit on the nesting depth. A member is returned with the
  text of its value, which a \<^verbatim>\<open>json.RawMessage\<close> keeps. The two tests on the length of the rest
  are there for the termination proof; \<open>parse_shorter\<close> shows that they always hold.
\<close>

definition literal_value :: "string \<Rightarrow> (json \<times> string) option" where
  "literal_value s =
     (if prefix ''null'' s then Some (JNull, drop 4 s)
      else if prefix ''true'' s then Some (JBool True, drop 4 s)
      else if prefix ''false'' s then Some (JBool False, drop 5 s)
      else map_option (\<lambda>(n, r). (JNum n, r)) (scan_number s))"

function parse_value :: "int \<Rightarrow> string \<Rightarrow> (json \<times> string) option"
  and parse_elements :: "int \<Rightarrow> bool \<Rightarrow> string \<Rightarrow> (json list \<times> string) option"
  and parse_members :: "int \<Rightarrow> bool \<Rightarrow> string \<Rightarrow> ((string \<times> json \<times> string) list \<times> string) option" where
  "parse_value d s =
     (case skip_ws s of [] \<Rightarrow> None
      | c # r \<Rightarrow>
         if c = CHR ''{'' then
           (if d \<le> 0 then None
            else map_option (\<lambda>(ms, r). (JObj (map (\<lambda>(k, v, _). (k, v)) ms), r)) (parse_members (d - 1) True r))
         else if c = CHR ''['' then
           (if d \<le> 0 then None
            else map_option (\<lambda>(vs, r). (JArr vs, r)) (parse_elements (d - 1) True r))
         else if c = dquote then map_option (\<lambda>(k, r). (JStr (json_unquote k), r)) (scan_string [] r)
         else literal_value (c # r))"
| "parse_elements d first s =
     (if first \<and> prefix '']'' (skip_ws s) then Some ([], tl (skip_ws s))
      else case parse_value d s of None \<Rightarrow> None
      | Some (v, r) \<Rightarrow>
         (case skip_ws r of [] \<Rightarrow> None
          | c # t \<Rightarrow>
             if c = CHR '']'' then Some ([v], t)
             else if c = CHR '','' \<and> length t < length s then
               map_option (\<lambda>(vs, t). (v # vs, t)) (parse_elements d False t)
             else None))"
| "parse_members d first s =
     (if first \<and> prefix ''}'' (skip_ws s) then Some ([], tl (skip_ws s))
      else case skip_ws s of [] \<Rightarrow> None
      | q # r \<Rightarrow>
         if q \<noteq> dquote then None
         else case scan_string [] r of None \<Rightarrow> None
         | Some (k, r) \<Rightarrow>
            (case skip_ws r of [] \<Rightarrow> None
             | c # r \<Rightarrow>
                if c \<noteq> CHR '':'' \<or> \<not> length r < length s then None
                else case parse_value d (skip_ws r) of None \<Rightarrow> None
                | Some (v, t) \<Rightarrow>
                   let m = (json_unquote k, v, take (length (skip_ws r) - length t) (skip_ws r)) in
                   (case skip_ws t of [] \<Rightarrow> None
                    | c # t \<Rightarrow>
                       if c = CHR ''}'' then Some ([m], t)
                       else if c = CHR '','' \<and> length t < length s then
                         map_option (\<lambda>(ms, t). (m # ms, t)) (parse_members d False t)
                       else None)))"
  by pat_completeness auto
termination
proof (relation "measure (\<lambda>x. case x of Inl (d, s) \<Rightarrow> 2 * length s
    | Inr (Inl (d, b, s)) \<Rightarrow> 2 * length s + 1 | Inr (Inr (d, b, s)) \<Rightarrow> 2 * length s + 1)", goal_cases)
  case (2 d s c r)
  then show ?case using length_skip_ws_Cons [of s c r] by simp
next
  case (3 d s c r)
  then show ?case using length_skip_ws_Cons [of s c r] by simp
qed (auto intro: double_skip_ws)

declare parse_value.simps [simp del] parse_elements.simps [simp del] parse_members.simps [simp del]

definition max_depth :: int where
  "max_depth = 10000"

definition json_parse :: "string \<Rightarrow> json option" where
  "json_parse s =
     (case parse_value max_depth s of None \<Rightarrow> None
      | Some (v, r) \<Rightarrow> if skip_ws r = [] then Some v else None)"

text \<open>The members of a document that is an object, each with the text of its value.\<close>

definition json_members :: "string \<Rightarrow> (string \<times> json \<times> string) list option" where
  "json_members s =
     (case skip_ws s of [] \<Rightarrow> None
      | c # r \<Rightarrow>
         if c \<noteq> CHR ''{'' then None
         else case parse_members (max_depth - 1) True r of None \<Rightarrow> None
         | Some (ms, r) \<Rightarrow> if skip_ws r = [] then Some ms else None)"

lemma literal_value_shorter: "literal_value s = Some (v, r) \<Longrightarrow> length r < length s"
  by (auto simp: literal_value_def dest: prefix_length_le scan_number_shorter split: if_splits)

lemma tl_skip_ws_shorter: "prefix (c # p) (skip_ws s) \<Longrightarrow> length (tl (skip_ws s)) < length s"
  using length_skip_ws [of s] by (cases "skip_ws s") auto

lemma parse_shorter:
  shows "parse_value d s = Some (v, r) \<Longrightarrow> length r < length s"
    and "parse_elements d first s = Some (vs, r) \<Longrightarrow> length r < length s"
    and "parse_members d first s = Some (ms, r) \<Longrightarrow> length r < length s"
proof (induction d s and d first s and d first s arbitrary: v r and vs r and ms r
    rule: parse_value_parse_elements_parse_members.induct)
  case (1 d s)
  then show ?case
    using length_skip_ws [of s]
    by (fastforce simp: parse_value.simps [of d s] split: list.splits if_splits
        dest: scan_string_shorter literal_value_shorter)
next
  case (2 d first s)
  show ?case
  proof (cases "first \<and> prefix '']'' (skip_ws s)")
    case True
    then show ?thesis using "2.prems" tl_skip_ws_shorter [of "CHR '']''" "[]" s]
      unfolding parse_elements.simps [of d first s] by simp
  next
    case False
    then obtain v r' where v: "parse_value d s = Some (v, r')"
      using "2.prems" by (auto simp: parse_elements.simps [of d first s] split: option.splits)
    then have r': "length r' < length s" using "2.IH"(1) False by blast
    obtain c t where c: "skip_ws r' = c # t"
      using "2.prems" False v by (auto simp: parse_elements.simps [of d first s] split: list.splits)
    then have t: "length t < length s" using r' length_skip_ws_Cons [OF c] by simp
    show ?thesis
    proof (cases "c = CHR '']''")
      case True
      then show ?thesis using "2.prems" False v c t by (auto simp: parse_elements.simps [of d first s])
    next
      case nc: False
      then have comma: "c = CHR '','' \<and> length t < length s"
        and "\<exists>ws. parse_elements d False t = Some (ws, r)"
        using "2.prems" False v c by (auto simp: parse_elements.simps [of d first s] split: if_splits)
      then obtain ws where "parse_elements d False t = Some (ws, r)" by blast
      from "2.IH"(2) [OF False v refl c nc comma this] t show ?thesis by simp
    qed
  qed
next
  case (3 d first s)
  show ?case
  proof (cases "first \<and> prefix ''}'' (skip_ws s)")
    case True
    then show ?thesis using "3.prems" tl_skip_ws_shorter [of "CHR ''}''" "[]" s]
      unfolding parse_members.simps [of d first s] by simp
  next
    case False
    then obtain r1 k r2 r3 v t c t' where
      s: "skip_ws s = dquote # r1" "scan_string [] r1 = Some (k, r2)"
      "skip_ws r2 = CHR '':'' # r3" "length r3 < length s"
      "parse_value d (skip_ws r3) = Some (v, t)" "skip_ws t = c # t'"
      using "3.prems" by (auto simp: parse_members.simps [of d first s] Let_def
          split: list.splits if_splits option.splits)
    have "length t < length (skip_ws r3)" using "3.IH"(1) s False by blast
    then have "length t' < length s"
      using length_skip_ws [of r3] s(4) length_skip_ws_Cons [OF s(6)] by linarith
    moreover have "length r < length t'" if "parse_members d False t' = Some (ms', r)" "c = CHR '',''" for ms'
      using that "3.IH"(2) False s \<open>length t' < length s\<close> by auto
    ultimately show ?thesis
      using "3.prems" False s
      by (auto simp: parse_members.simps [of d first s] Let_def split: if_splits)
  qed
qed

lemma json_members_parse:
  assumes "json_members s = Some ms"
  shows "json_parse s = Some (JObj (map (\<lambda>(k, v, _). (k, v)) ms))"
proof -
  obtain r t where "skip_ws s = CHR ''{'' # r" "parse_members (max_depth - 1) True r = Some (ms, t)" "skip_ws t = []"
    using assms by (auto simp: json_members_def split: list.splits if_splits option.splits)
  then show ?thesis
    by (simp add: json_parse_def parse_value.simps [of max_depth s]) (simp add: max_depth_def)
qed

section \<open>Decoding into any\<close>

text \<open>
  A Go map with string keys is the list of its entries in the order of the keys, each key
  once; \<open>map_put\<close> is the assignment \<^verbatim>\<open>m[k] = v\<close>.
\<close>

fun map_put :: "string \<Rightarrow> 'v \<Rightarrow> (string \<times> 'v) list \<Rightarrow> (string \<times> 'v) list" where
  "map_put k v [] = [(k, v)]"
| "map_put k v ((k', v') # m) =
     (if k = k' then (k, v) # m else if k < k' then (k, v) # (k', v') # m else (k', v') # map_put k v m)"

lemma map_of_map_put: "map_of (map_put k v m) = (map_of m)(k \<mapsto> v)"
  by (induction m rule: map_put.induct) (auto simp: fun_eq_iff)

definition canonical_map :: "(string \<times> 'v) list \<Rightarrow> bool" where
  "canonical_map m \<longleftrightarrow> sorted_wrt (<) (map fst m)"

lemma set_map_put: "set (map fst (map_put k v m)) = insert k (set (map fst m))"
  by (induction m rule: map_put.induct) auto

lemma canonical_map_put: "canonical_map m \<Longrightarrow> canonical_map (map_put k v m)"
  unfolding canonical_map_def
proof (induction m)
  case (Cons a m)
  then show ?case
    using set_map_put [of k v m] by (cases a) (auto intro: less_trans simp: not_less)
qed simp

fun json_any :: "(string \<Rightarrow> string option) \<Rightarrow> json \<Rightarrow> json option"
  and json_anys :: "(string \<Rightarrow> string option) \<Rightarrow> json list \<Rightarrow> json list option"
  and json_any_map :: "(string \<Rightarrow> string option) \<Rightarrow> (string \<times> json) list \<Rightarrow>
    (string \<times> json) list \<Rightarrow> (string \<times> json) list option" where
  "json_any fl (JNum n) = map_option JNum (fl n)"
| "json_any fl (JArr vs) = map_option JArr (json_anys fl vs)"
| "json_any fl (JObj ms) = map_option JObj (json_any_map fl ms [])"
| "json_any fl v = Some v"
| "json_anys fl [] = Some []"
| "json_anys fl (v # vs) =
     (case json_any fl v of None \<Rightarrow> None | Some w \<Rightarrow> map_option ((#) w) (json_anys fl vs))"
| "json_any_map fl [] m = Some m"
| "json_any_map fl ((k, v) # ms) m =
     (case json_any fl v of None \<Rightarrow> None | Some w \<Rightarrow> json_any_map fl ms (map_put k w m))"

text \<open>
  \<^verbatim>\<open>json.Unmarshal\<close> into a \<^verbatim>\<open>map[string]any\<close>: \<open>None\<close> is an error; \<^verbatim>\<open>null\<close> leaves the map nil.
\<close>

definition Unmarshal_map :: "(string \<Rightarrow> string option) \<Rightarrow> bytes \<Rightarrow> (string \<times> json) list option" where
  "Unmarshal_map fl b =
     (case json_parse (string_of_bytes b) of
        Some JNull \<Rightarrow> Some []
      | Some (JObj ms) \<Rightarrow> json_any_map fl ms []
      | _ \<Rightarrow> None)"

section \<open>Encoding\<close>

definition hex_escape :: "nat \<Rightarrow> string" where
  "hex_escape n = [backslash, CHR ''u'', CHR ''0'', CHR ''0'', hex_digit (n div 16), hex_digit (n mod 16)]"

definition encode_ascii :: "char \<Rightarrow> string" where
  "encode_ascii c =
     (if c = backslash \<or> c = dquote then [backslash, c]
      else if c = CHR 0x08 then [backslash, CHR ''b'']
      else if c = CHR 0x0C then [backslash, CHR ''f'']
      else if c = newline then [backslash, CHR ''n'']
      else if c = return then [backslash, CHR ''r'']
      else if c = CHR 0x09 then [backslash, CHR ''t'']
      else if code c < 32 \<or> c = CHR ''<'' \<or> c = CHR ''>'' \<or> c = CHR ''&'' then hex_escape (code c)
      else [c])"

function encode_body :: "string \<Rightarrow> string" where
  "encode_body s =
     (case s of [] \<Rightarrow> []
      | c # r \<Rightarrow>
         if code c < 128 then encode_ascii c @ encode_body r
         else if rune_len s = 0 then (backslash # ''ufffd'') @ encode_body r
         else if prefix (encode_rune 8232) s then (backslash # ''u2028'') @ encode_body (drop (rune_len s) s)
         else if prefix (encode_rune 8233) s then (backslash # ''u2029'') @ encode_body (drop (rune_len s) s)
         else take (rune_len s) s @ encode_body (drop (rune_len s) s))"
  by pat_completeness auto
termination
  by (relation "measure length") (auto split: list.splits)

declare encode_body.simps [simp del]

definition encode_string :: "string \<Rightarrow> string" where
  "encode_string s = [dquote] @ encode_body s @ [dquote]"

fun join :: "string \<Rightarrow> string list \<Rightarrow> string" where
  "join sep [] = []"
| "join sep [x] = x"
| "join sep (x # xs) = x @ sep @ join sep xs"

fun Marshal :: "json \<Rightarrow> string" where
  "Marshal JNull = ''null''"
| "Marshal (JBool b) = (if b then ''true'' else ''false'')"
| "Marshal (JNum n) = n"
| "Marshal (JStr s) = encode_string s"
| "Marshal (JArr vs) = ''['' @ join '','' (map Marshal vs) @ '']''"
| "Marshal (JObj ms) =
     ''{'' @ join '','' (map (\<lambda>(k, v). encode_string k @ '':'' @ Marshal v) ms) @ ''}''"

text \<open>\<^verbatim>\<open>MarshalIndent(v, "", "  ")\<close>; \<open>d\<close> is the depth.\<close>

definition indent_nl :: "nat \<Rightarrow> string" where
  "indent_nl d = newline # replicate (2 * d) CHR '' ''"

fun MarshalIndent :: "nat \<Rightarrow> json \<Rightarrow> string" where
  "MarshalIndent d (JArr vs) =
     (if vs = [] then ''[]''
      else ''['' @ indent_nl (d + 1) @ join ('','' @ indent_nl (d + 1)) (map (MarshalIndent (d + 1)) vs) @
        indent_nl d @ '']'')"
| "MarshalIndent d (JObj ms) =
     (if ms = [] then ''{}''
      else ''{'' @ indent_nl (d + 1) @
        join ('','' @ indent_nl (d + 1))
          (map (\<lambda>(k, v). encode_string k @ '': '' @ MarshalIndent (d + 1) v) ms) @
        indent_nl d @ ''}'')"
| "MarshalIndent d v = Marshal v"

section \<open>Times\<close>

text \<open>
  \<^verbatim>\<open>Time.MarshalJSON\<close> of a time in UTC fails outside the years 0 to 9999, and
  \<^verbatim>\<open>Time.UnmarshalJSON\<close> reads the literal without resolving escapes, and is stricter than
  \<^verbatim>\<open>time.Parse\<close>: two digits for the hour, a period, and an offset below 24:60.
\<close>

definition year_of :: "time \<Rightarrow> int" where
  "year_of t = fst (year_yday (t div nanos_per_sec div 86400))"

definition time_json :: "time \<Rightarrow> json result" where
  "time_json t =
     (if 0 \<le> year_of t \<and> year_of t \<le> 9999 then Inr (JStr (format_RFC3339Nano t))
      else Inl (ErrMsg ''json: error calling MarshalJSON for type time.Time: Time.MarshalJSON: year outside of range [0,9999]''))"

definition parse_strict :: "string \<Rightarrow> time option" where
  "parse_strict s =
     (case parse_time_opt s of None \<Rightarrow> None
      | Some t \<Rightarrow>
         if s ! 12 = CHR '':'' \<or> s ! 19 = CHR '','' then None
         else if last s \<noteq> CHR ''Z'' \<and>
           (digits_val (take 2 (drop (length s - 5) s)) \<ge> 24 \<or> digits_val (drop (length s - 2) s) \<ge> 60)
         then None
         else Some t)"

text \<open>\<open>raw\<close> is the text of the JSON value; \<open>Some None\<close> for \<^verbatim>\<open>null\<close>, which changes nothing.\<close>

definition UnmarshalJSON_time :: "string \<Rightarrow> time option option" where
  "UnmarshalJSON_time raw =
     (if raw = ''null'' then Some None
      else if length raw < 2 \<or> hd raw \<noteq> dquote \<or> last raw \<noteq> dquote then None
      else map_option Some (parse_strict (butlast (tl raw))))"

section \<open>Decoding into structs\<close>

text \<open>
  \<^verbatim>\<open>encoding/json\<close> matches a key to a field by the exact tag, or else by folding case: ASCII
  letters, and the two runes (U+017F and U+212A) that fold to an ASCII letter.
\<close>

fun fold_key :: "string \<Rightarrow> string" where
  "fold_key [] = []"
| "fold_key (a # s) =
     (case s of
        b # t \<Rightarrow>
          if a = CHR 0xC5 \<and> b = CHR 0xBF then CHR ''S'' # fold_key t
          else if a = CHR 0xE2 \<and> prefix [CHR 0x84, CHR 0xAA] s then CHR ''K'' # fold_key (tl t)
          else ascii_upper a # fold_key s
      | [] \<Rightarrow> [ascii_upper a])"

definition match_field :: "string list \<Rightarrow> string \<Rightarrow> string option" where
  "match_field tags key =
     (if key \<in> set tags then Some key
      else List.find (\<lambda>tag. fold_key tag = fold_key key) tags)"

text \<open>
  \<^verbatim>\<open>Decoder.Decode\<close> of the first document of a stream into a struct: the end of the input, an
  error, \<^verbatim>\<open>null\<close> (no members) or the members of an object.
\<close>

datatype first_doc = EndOfInput | Malformed | Members "(string \<times> json \<times> string) list"

definition json_first :: "string \<Rightarrow> first_doc" where
  "json_first s =
     (case skip_ws s of [] \<Rightarrow> EndOfInput
      | c # r \<Rightarrow>
         if c = CHR ''{'' then
           (case parse_members (max_depth - 1) True r of None \<Rightarrow> Malformed | Some (ms, _) \<Rightarrow> Members ms)
         else (case parse_value max_depth s of Some (JNull, _) \<Rightarrow> Members [] | _ \<Rightarrow> Malformed))"

text \<open>The members in order, each by the assignment of its field; \<open>None\<close> is a type error.\<close>

fun set_fields :: "('m \<Rightarrow> 'r \<Rightarrow> 'r option) \<Rightarrow> 'm list \<Rightarrow> 'r \<Rightarrow> 'r option" where
  "set_fields assign [] r = Some r"
| "set_fields assign (m # ms) r = (case assign m r of None \<Rightarrow> None | Some r' \<Rightarrow> set_fields assign ms r')"

end
