(* ===== verification/Audit_Event.thy ===== *)
theory Audit_Event
  imports Sha256 Json
begin

text \<open>
  internal/event/event.go: the wire envelope, its validation, and the textual form of
  SHA-256 hashes. \<open>Unmarshal_envelope\<close> is \<^verbatim>\<open>json.Unmarshal\<close> into an
  \<^verbatim>\<open>Envelope\<close>, driven by the field tags of the struct.
\<close>

record envelope =
  env_ID :: string
  env_TS :: time
  env_SourceService :: string
  env_ActorID :: string
  env_Action :: string
  env_TargetType :: string
  env_TargetID :: string
  env_PayloadHash :: string
  env_Payload :: bytes
  env_PrevHash :: string
  env_ThisHash :: string
  env_Redaction :: string

definition IsValidation :: "go_error \<Rightarrow> bool" where
  "IsValidation err = (case unwrap_all err of ErrValidation _ \<Rightarrow> True | _ \<Rightarrow> False)"

text \<open>The receiver may be nil; the result is the returned error, \<open>None\<close> for nil.\<close>

definition Validate :: "envelope option \<Rightarrow> go_error option" where
  "Validate eo = (case eo of
      None \<Rightarrow> Some (ErrValidation ''nil envelope'')
    | Some e \<Rightarrow>
       (if env_ID e = '''' then Some (ErrValidation ''missing id'')
        else if IsZero (env_TS e) then Some (ErrValidation ''missing ts'')
        else if env_SourceService e = '''' then Some (ErrValidation ''missing source_service'')
        else if env_ActorID e = '''' then Some (ErrValidation ''missing actor_id'')
        else if env_Action e = '''' then Some (ErrValidation ''missing action'')
        else if env_TargetType e = '''' then Some (ErrValidation ''missing target_type'')
        else if env_TargetID e = '''' then Some (ErrValidation ''missing target_id'')
        else if env_PayloadHash e = '''' then Some (ErrValidation ''missing payload_hash'')
        else None))"

section \<open>Decoding\<close>

definition envelope_tags :: "string list" where
  "envelope_tags = [''id'', ''ts'', ''source_service'', ''actor_id'', ''action'', ''target_type'',
     ''target_id'', ''payload_hash'', ''payload'', ''prev_hash'', ''this_hash'', ''redaction'']"

definition envelope_field :: "string \<Rightarrow> string option" where
  "envelope_field key =
     match_field envelope_tags key"

text \<open>A string field: \<^verbatim>\<open>null\<close> leaves it alone, any other type is an error.\<close>

definition string_field :: "json \<Rightarrow> (string \<Rightarrow> envelope) \<Rightarrow> envelope \<Rightarrow> envelope option" where
  "string_field v set_to e = (case v of JStr s \<Rightarrow> Some (set_to s) | JNull \<Rightarrow> Some e | _ \<Rightarrow> None)"

definition set_envelope :: "string \<times> json \<times> string \<Rightarrow> envelope \<Rightarrow> envelope option" where
  "set_envelope m e =
     (case m of (key, v, raw) \<Rightarrow>
       (case envelope_field key of None \<Rightarrow> Some e
        | Some tag \<Rightarrow>
           if tag = ''id'' then string_field v (\<lambda>x. e\<lparr>env_ID := x\<rparr>) e
           else if tag = ''ts'' then
             (case UnmarshalJSON_time raw of None \<Rightarrow> None
              | Some None \<Rightarrow> Some e | Some (Some t) \<Rightarrow> Some (e\<lparr>env_TS := t\<rparr>))
           else if tag = ''source_service'' then string_field v (\<lambda>x. e\<lparr>env_SourceService := x\<rparr>) e
           else if tag = ''actor_id'' then string_field v (\<lambda>x. e\<lparr>env_ActorID := x\<rparr>) e
           else if tag = ''action'' then string_field v (\<lambda>x. e\<lparr>env_Action := x\<rparr>) e
           else if tag = ''target_type'' then string_field v (\<lambda>x. e\<lparr>env_TargetType := x\<rparr>) e
           else if tag = ''target_id'' then string_field v (\<lambda>x. e\<lparr>env_TargetID := x\<rparr>) e
           else if tag = ''payload_hash'' then string_field v (\<lambda>x. e\<lparr>env_PayloadHash := x\<rparr>) e
           else if tag = ''payload'' then Some (e\<lparr>env_Payload := bytes_of_string raw\<rparr>)
           else if tag = ''prev_hash'' then string_field v (\<lambda>x. e\<lparr>env_PrevHash := x\<rparr>) e
           else if tag = ''this_hash'' then string_field v (\<lambda>x. e\<lparr>env_ThisHash := x\<rparr>) e
           else string_field v (\<lambda>x. e\<lparr>env_Redaction := x\<rparr>) e))"

abbreviation set_members :: "(string \<times> json \<times> string) list \<Rightarrow> envelope \<Rightarrow> envelope option" where
  "set_members \<equiv> set_fields set_envelope"

definition zero_envelope :: envelope where
  "zero_envelope = \<lparr>env_ID = '''', env_TS = 0, env_SourceService = '''', env_ActorID = '''',
     env_Action = '''', env_TargetType = '''', env_TargetID = '''', env_PayloadHash = '''',
     env_Payload = [], env_PrevHash = '''', env_ThisHash = '''', env_Redaction = ''''\<rparr>"

definition Unmarshal_envelope :: "bytes \<Rightarrow> envelope result" where
  "Unmarshal_envelope b =
     (let s = string_of_bytes b; err = Inl (ErrJson ''event.Envelope'' s) in
      case json_parse s of
        None \<Rightarrow> err
      | Some JNull \<Rightarrow> Inr zero_envelope
      | Some (JObj _) \<Rightarrow>
         (case json_members s of None \<Rightarrow> err
          | Some ms \<Rightarrow> (case set_members ms zero_envelope of None \<Rightarrow> err | Some e \<Rightarrow> Inr e))
      | Some _ \<Rightarrow> err)"

definition Decode :: "bytes \<Rightarrow> envelope result" where
  "Decode b =
     (if b = [] then Inl (ErrValidation ''empty payload'')
      else case Unmarshal_envelope b of
        Inl err \<Rightarrow> Inl (ErrWrap ''event: decode: '' err)
      | Inr ev \<Rightarrow> Inr ev)"

definition DecodeAndValidate :: "bytes \<Rightarrow> envelope result" where
  "DecodeAndValidate b =
     (case Decode b of
        Inl err \<Rightarrow> Inl err
      | Inr ev \<Rightarrow> (case Validate (Some ev) of Some err \<Rightarrow> Inl err | None \<Rightarrow> Inr ev))"

section \<open>Hashes in text form\<close>

definition HashPrefix :: string where
  "HashPrefix = ''sha256:''"

definition HashPayload :: "bytes \<Rightarrow> string" where
  "HashPayload payload = HashPrefix @ hex_EncodeToString (sha256 payload)"

definition ZeroHash_text :: string where
  "ZeroHash_text = HashPrefix @ replicate 64 (CHR ''0'')"

text \<open>
  \<^verbatim>\<open>isHex\<close> ranges over runes; a byte of a multi-byte or invalid sequence never yields a
  rune in one of the three ASCII ranges, so the test is the same on bytes.
\<close>

definition is_hex_rune :: "char \<Rightarrow> bool" where
  "is_hex_rune r \<longleftrightarrow>
     CHR ''0'' \<le> r \<and> r \<le> CHR ''9'' \<or> CHR ''a'' \<le> r \<and> r \<le> CHR ''f'' \<or>
     CHR ''A'' \<le> r \<and> r \<le> CHR ''F''"

fun isHex :: "string \<Rightarrow> bool" where
  "isHex [] = True"
| "isHex (r # s) = (if \<not> is_hex_rune r then False else isHex s)"

definition NormalizeHash :: "string \<Rightarrow> string" where
  "NormalizeHash h =
     (if h = '''' then ''''
      else if prefix HashPrefix h then h
      else if length h = 64 \<and> isHex h then HashPrefix @ h
      else h)"

definition VerifyPayload :: "string \<Rightarrow> bytes \<Rightarrow> bool" where
  "VerifyPayload payloadHash payload \<longleftrightarrow> HashPayload payload = NormalizeHash payloadHash"

definition DecodeHashToBytes :: "string \<Rightarrow> bytes result" where
  "DecodeHashToBytes h =
     (case hex_DecodeString (TrimPrefix h HashPrefix) of
        Inl err \<Rightarrow> Inl (ErrBadHash h err)
      | Inr b \<Rightarrow> if length b \<noteq> 32 then Inl (ErrHashSize h (length b)) else Inr b)"

definition EncodeHashFromBytes :: "bytes \<Rightarrow> string" where
  "EncodeHashFromBytes b =
     (if length b \<noteq> 32 then '''' else HashPrefix @ hex_EncodeToString b)"

section \<open>Lemmas\<close>

lemma Validate_None_iff:
  "Validate (Some e) = None \<longleftrightarrow>
     env_ID e \<noteq> '''' \<and> \<not> IsZero (env_TS e) \<and> env_SourceService e \<noteq> '''' \<and> env_ActorID e \<noteq> '''' \<and>
     env_Action e \<noteq> '''' \<and> env_TargetType e \<noteq> '''' \<and> env_TargetID e \<noteq> '''' \<and>
     env_PayloadHash e \<noteq> ''''"
  by (auto simp: Validate_def)

lemma Validate_is_validation: "Validate eo = Some err \<Longrightarrow> IsValidation err"
  by (auto simp: Validate_def IsValidation_def split: option.splits if_splits)

lemma DecodeHashToBytes_length: "DecodeHashToBytes h = Inr b \<Longrightarrow> length b = 32"
  by (auto simp: DecodeHashToBytes_def split: sum.splits if_splits)

lemma DecodeHashToBytes_HashPayload [simp]: "DecodeHashToBytes (HashPayload p) = Inr (sha256 p)"
  by (simp add: DecodeHashToBytes_def HashPayload_def)

lemma DecodeAndValidate_Inr:
  "DecodeAndValidate b = Inr ev \<longleftrightarrow> b \<noteq> [] \<and> Unmarshal_envelope b = Inr ev \<and> Validate (Some ev) = None"
  by (auto simp: DecodeAndValidate_def Decode_def split: sum.splits option.splits)

lemma Unmarshal_envelope_error:
  "Unmarshal_envelope b = Inl err \<Longrightarrow> err = ErrJson ''event.Envelope'' (string_of_bytes b)"
  by (auto simp: Unmarshal_envelope_def Let_def split: option.splits json.splits)

lemma hex_digit_is_hex: "n < 16 \<Longrightarrow> is_hex_rune (hex_digit n)"
proof -
  have all: "\<forall>n \<in> set [0..<16]. is_hex_rune (hex_digit n)" by code_simp
  assume "n < 16"
  with all show ?thesis by simp
qed

lemma isHex_EncodeToString [simp]: "isHex (hex_EncodeToString bs)"
proof (induction bs)
  case (Cons b bs)
  have "unat b < 2 ^ LENGTH(8)" by (rule unsigned_less)
  then have "unat b div 16 < 16" "unat b mod 16 < 16" by auto
  with Cons show ?case by (simp add: hex_digit_is_hex)
qed simp

lemma not_prefix_bare_hex: "isHex s \<Longrightarrow> \<not> prefix HashPrefix s"
  by (auto simp: HashPrefix_def prefix_def is_hex_rune_def)

lemma hex_EncodeToString_eq_Nil [simp]: "hex_EncodeToString b = [] \<longleftrightarrow> b = []"
  by (cases b) simp_all

lemma NormalizeHash_bare:
  "length b = 32 \<Longrightarrow> NormalizeHash (hex_EncodeToString b) = HashPrefix @ hex_EncodeToString b"
  using not_prefix_bare_hex [OF isHex_EncodeToString, of b] by (auto simp: NormalizeHash_def)

lemma NormalizeHash_HashPayload [simp]: "NormalizeHash (HashPayload p) = HashPayload p"
  by (simp add: NormalizeHash_def HashPayload_def HashPrefix_def)

section \<open>Properties\<close>

text \<open>
  Hash texts round-trip. A 32-byte hash is recovered by \<^verbatim>\<open>DecodeHashToBytes\<close> from
  what \<^verbatim>\<open>EncodeHashFromBytes\<close> prints and from its bare hex form, and whatever
  \<^verbatim>\<open>DecodeHashToBytes\<close> accepts is 32 bytes long.
\<close>

theorem hash_text_roundtrip:
  "(length b = 32 \<longrightarrow> DecodeHashToBytes (EncodeHashFromBytes b) = Inr b \<and>
      DecodeHashToBytes (hex_EncodeToString b) = Inr b) \<and>
   (DecodeHashToBytes h = Inr c \<longrightarrow> length c = 32)"
  using not_prefix_bare_hex [OF isHex_EncodeToString, of b]
  by (auto simp: DecodeHashToBytes_def EncodeHashFromBytes_def TrimPrefix_def
      split: sum.splits if_splits)

theorem hash_text_roundtrip_witness:
  "DecodeHashToBytes (EncodeHashFromBytes (replicate 32 171)) = Inr (replicate 32 (171::byte))"
  using hash_text_roundtrip [of "replicate 32 171"] by simp

text \<open>
  \<^verbatim>\<open>VerifyPayload\<close> accepts exactly two spellings of a payload's hash, the canonical
  \<^verbatim>\<open>sha256:<hex>\<close> and the bare lower-case hex; every other text, the upper-case spelling of
  the same digest included, is refused.
\<close>

theorem VerifyPayload_iff:
  "VerifyPayload h payload \<longleftrightarrow>
     h = HashPayload payload \<or> h = hex_EncodeToString (sha256 payload)"
proof
  assume "VerifyPayload h payload"
  then have eq: "HashPayload payload = NormalizeHash h" by (simp add: VerifyPayload_def)
  then show "h = HashPayload payload \<or> h = hex_EncodeToString (sha256 payload)"
    by (auto simp: NormalizeHash_def HashPayload_def HashPrefix_def split: if_splits)
next
  assume "h = HashPayload payload \<or> h = hex_EncodeToString (sha256 payload)"
  then show "VerifyPayload h payload"
    by (auto simp: VerifyPayload_def NormalizeHash_bare) (simp add: HashPayload_def)
qed

text \<open>
  Decoding accepts a message exactly when it is not empty, \<^verbatim>\<open>encoding/json\<close> decodes it,
  and the eight required fields of the envelope are present. A rejection is a validation
  error exactly when the message is empty or the decoded envelope lacks a field.
\<close>

theorem DecodeAndValidate_accepts_iff:
  "(DecodeAndValidate b = Inr ev \<longleftrightarrow>
      b \<noteq> [] \<and> Unmarshal_envelope b = Inr ev \<and> env_ID ev \<noteq> '''' \<and> \<not> IsZero (env_TS ev) \<and>
      env_SourceService ev \<noteq> '''' \<and> env_ActorID ev \<noteq> '''' \<and> env_Action ev \<noteq> '''' \<and>
      env_TargetType ev \<noteq> '''' \<and> env_TargetID ev \<noteq> '''' \<and> env_PayloadHash ev \<noteq> '''') \<and>
   ((\<exists>err. DecodeAndValidate b = Inl err \<and> IsValidation err) \<longleftrightarrow>
      b = [] \<or> (\<exists>e. Unmarshal_envelope b = Inr e \<and> Validate (Some e) \<noteq> None))"
proof
  show "(\<exists>err. DecodeAndValidate b = Inl err \<and> IsValidation err) \<longleftrightarrow>
      b = [] \<or> (\<exists>e. Unmarshal_envelope b = Inr e \<and> Validate (Some e) \<noteq> None)"
    using Unmarshal_envelope_error [of b]
    by (auto simp: DecodeAndValidate_def Decode_def IsValidation_def
        dest: Validate_is_validation split: sum.splits option.splits if_splits)
qed (auto simp: DecodeAndValidate_Inr Validate_None_iff)

end
