(* ===== verification/Store.thy ===== *)
theory Store
  imports GoTime
begin

text \<open>
  internal/store/store.go: the record types of the service, the keyset cursor with its
  textual form, and the storage interfaces.

  A Go interface is a record of operations over a state type \<open>'s\<close>, so that the chain,
  the ingest pipeline and the export pipeline are written once, for any implementation, as in
  the code. An operation that changes the store returns its result and the new state; a
  read returns its result. What \<^verbatim>\<open>time.Now\<close> and \<^verbatim>\<open>uuid.NewV7\<close> return inside an operation
  is the argument \<open>op_env\<close>. The laws an event store promises (the comments of
  \<^verbatim>\<open>EventStore\<close>) are the locale \<open>event_store_contract\<close>, and what the pagination loop of the sweep
  and of the export needs is proved in it once.
\<close>

section \<open>Record types\<close>

record event =
  ID :: string
  TS :: time
  SourceService :: string
  ActorID :: string
  Action :: string
  TargetType :: string
  TargetID :: string
  PayloadHash :: bytes
  PayloadRef :: string
  PrevHash :: bytes
  ThisHash :: bytes
  Anchored :: bool
  LegalHold :: bool
  Redacted :: bool

datatype cursor = Cursor (c_TS: time) (c_ID: string)

abbreviation no_cursor :: cursor where
  "no_cursor \<equiv> Cursor 0 ''''"

record event_filter =
  f_From :: time
  f_To :: time
  f_Service :: string
  f_Actor :: string
  f_Action :: string
  f_TargetType :: string
  f_TargetID :: string
  f_Limit :: int
  f_Cursor :: cursor

definition zero_filter :: event_filter where
  "zero_filter = \<lparr>f_From = 0, f_To = 0, f_Service = '''', f_Actor = '''', f_Action = '''',
     f_TargetType = '''', f_TargetID = '''', f_Limit = 0, f_Cursor = no_cursor\<rparr>"

record list_result =
  lr_Events :: "event list"
  lr_NextCursor :: cursor

record anchor =
  an_ID :: string
  an_AnchoredAt :: time
  an_RootHash :: bytes
  an_LastEventID :: string
  an_LastEventTS :: time
  an_Signature :: bytes
  an_KMSKeyID :: string
  an_NotaryURL :: string
  an_EventCount :: int

record export_job =
  ej_ID :: string
  ej_Query :: bytes
  ej_Format :: string
  ej_RetentionDays :: int
  ej_Status :: string
  ej_RowCount :: int
  ej_PayloadRef :: string
  ej_ChainRoot :: bytes
  ej_AnchorID :: string
  ej_CreatedAt :: time
  ej_CompletedAt :: time

record dead_letter =
  dl_ID :: string
  dl_Topic :: string
  dl_Partition :: int
  dl_Offset :: int
  dl_Key :: string
  dl_Payload :: bytes
  dl_Reason :: string
  dl_RejectedAt :: time

definition IsNotFound :: "go_error \<Rightarrow> bool" where
  "IsNotFound err = (case unwrap_all err of StoreErrNotFound _ \<Rightarrow> True | _ \<Rightarrow> False)"

section \<open>Cursors\<close>

definition Cursor_String :: "cursor \<Rightarrow> string" where
  "Cursor_String c =
     (if IsZero (c_TS c) \<and> c_ID c = '''' then ''''
      else format_RFC3339Nano (c_TS c) @ ''|'' @ c_ID c)"

text \<open>
  The scan of \<^verbatim>\<open>ParseCursor\<close> for the first bar: the text before it (\<open>pre\<close>, reversed) and
  the text after it.
\<close>

fun scan_bar :: "string \<Rightarrow> string \<Rightarrow> (string \<times> string) option" where
  "scan_bar pre [] = None"
| "scan_bar pre (c # s) = (if c = CHR ''|'' then Some (rev pre, s) else scan_bar (c # pre) s)"

definition ParseCursor :: "string \<Rightarrow> cursor result" where
  "ParseCursor s =
     (if s = '''' then Inr no_cursor
      else case scan_bar [] s of
        None \<Rightarrow> Inl (ErrMsg ''store: invalid cursor'')
      | Some (t, i) \<Rightarrow> (case parse_RFC3339Nano t of Inl err \<Rightarrow> Inl err | Inr ts \<Rightarrow> Inr (Cursor ts i)))"

text \<open>
  The order of the chain: by time, then by id. It is the order of the store's sort, of the
  keyset pagination and of the chain head, so it is the order of the type.
\<close>

instantiation cursor :: linorder
begin

definition less_eq_cursor :: "cursor \<Rightarrow> cursor \<Rightarrow> bool" where
  "less_eq_cursor a b \<longleftrightarrow> c_TS a < c_TS b \<or> c_TS a = c_TS b \<and> c_ID a \<le> c_ID b"

definition less_cursor :: "cursor \<Rightarrow> cursor \<Rightarrow> bool" where
  "less_cursor a b \<longleftrightarrow> c_TS a < c_TS b \<or> c_TS a = c_TS b \<and> c_ID a < c_ID b"

instance
proof
  fix x y z :: cursor
  show "x < y \<longleftrightarrow> x \<le> y \<and> \<not> y \<le> x" by (auto simp: less_eq_cursor_def less_cursor_def)
  show "x \<le> x" by (simp add: less_eq_cursor_def)
  show "x \<le> y \<Longrightarrow> y \<le> z \<Longrightarrow> x \<le> z" by (auto simp: less_eq_cursor_def)
  show "x \<le> y \<Longrightarrow> y \<le> x \<Longrightarrow> x = y" by (auto simp: less_eq_cursor_def cursor.expand)
  show "x \<le> y \<or> y \<le> x" by (auto simp: less_eq_cursor_def)
qed

end

definition ev_key :: "event \<Rightarrow> cursor" where
  "ev_key e = Cursor (TS e) (ID e)"

lemma ev_key_sel [simp]: "c_TS (ev_key e) = TS e" "c_ID (ev_key e) = ID e"
  by (simp_all add: ev_key_def)

text \<open>A row with a given time and id, for concrete inputs.\<close>

definition sample_row :: "time \<Rightarrow> string \<Rightarrow> event" where
  "sample_row t i = \<lparr>ID = i, TS = t, SourceService = ''orch'', ActorID = ''user'',
     Action = ''tx.initiated'', TargetType = ''transaction'', TargetID = ''tx'',
     PayloadHash = replicate 32 1, PayloadRef = '''', PrevHash = replicate 32 0,
     ThisHash = replicate 32 2, Anchored = False, LegalHold = False, Redacted = False\<rparr>"

lemma sample_row_sel [simp]:
  "TS (sample_row t i) = t" "ID (sample_row t i) = i" "\<not> Anchored (sample_row t i)"
  "ev_key (sample_row t i) = Cursor t i"
  by (simp_all add: sample_row_def ev_key_def)

section \<open>Filters\<close>

text \<open>
  The rows a filter selects, and the page size: the conditions of \<^verbatim>\<open>Filter\<close>'s comments, which
  the interface promises and \<^verbatim>\<open>memstore\<close> and \<^verbatim>\<open>postgres\<close> implement.
\<close>

definition in_window :: "event_filter \<Rightarrow> event \<Rightarrow> bool" where
  "in_window f e \<longleftrightarrow>
     (IsZero (f_From f) \<or> f_From f \<le> TS e) \<and> (IsZero (f_To f) \<or> TS e < f_To f)"

definition attrs_match :: "event_filter \<Rightarrow> event \<Rightarrow> bool" where
  "attrs_match f e \<longleftrightarrow>
     (f_Service f = '''' \<or> SourceService e = f_Service f) \<and>
     (f_Actor f = '''' \<or> ActorID e = f_Actor f) \<and>
     (f_Action f = '''' \<or> Action e = f_Action f) \<and>
     (f_TargetType f = '''' \<or> TargetType e = f_TargetType f) \<and>
     (f_TargetID f = '''' \<or> TargetID e = f_TargetID f)"

definition selected :: "event_filter \<Rightarrow> event \<Rightarrow> bool" where
  "selected f e \<longleftrightarrow> in_window f e \<and> attrs_match f e"

definition after_cursor :: "cursor \<Rightarrow> event \<Rightarrow> bool" where
  "after_cursor c e \<longleftrightarrow> c = no_cursor \<or> c < ev_key e"

definition page_limit :: "event_filter \<Rightarrow> nat" where
  "page_limit f = (if f_Limit f \<le> 0 \<or> f_Limit f > 1000 then 1000 else nat (f_Limit f))"

lemma page_limit_pos [simp]: "0 < page_limit f"
  by (simp add: page_limit_def)

lemma selected_cursor_irrelevant [simp]: "selected (f\<lparr>f_Cursor := c\<rparr>) = selected f"
  by (simp add: fun_eq_iff selected_def in_window_def attrs_match_def)

lemma page_limit_cursor_irrelevant [simp]: "page_limit (f\<lparr>f_Cursor := c\<rparr>) = page_limit f"
  by (simp add: page_limit_def)

section \<open>The interfaces\<close>

record op_env =
  oe_Now :: time
  oe_UUID :: string

record 's event_store =
  es_Insert :: "event \<Rightarrow> 's \<Rightarrow> bool result \<times> 's"
  es_Get :: "string \<Rightarrow> 's \<Rightarrow> event result"
  es_List :: "event_filter \<Rightarrow> 's \<Rightarrow> list_result result"
  es_ChainHead :: "'s \<Rightarrow> event option result"
  es_SetLegalHold :: "string \<Rightarrow> bool \<Rightarrow> 's \<Rightarrow> go_error option \<times> 's"
  es_MarkAnchored :: "time \<Rightarrow> string \<Rightarrow> 's \<Rightarrow> int result \<times> 's"

record 's anchor_store =
  as_InsertAnchor :: "op_env \<Rightarrow> anchor \<Rightarrow> 's \<Rightarrow> string result \<times> 's"
  as_ListAnchors :: "time \<Rightarrow> time \<Rightarrow> 's \<Rightarrow> anchor list result"
  as_GetAnchor :: "string \<Rightarrow> 's \<Rightarrow> anchor result"

record job_update =
  ju_Status :: string
  ju_RowCount :: int
  ju_PayloadRef :: string
  ju_ChainRoot :: bytes
  ju_AnchorID :: string
  ju_CompletedAt :: time

record 's export_job_store =
  js_CreateJob :: "op_env \<Rightarrow> export_job \<Rightarrow> 's \<Rightarrow> go_error option \<times> 's"
  js_GetJob :: "string \<Rightarrow> 's \<Rightarrow> export_job result"
  js_UpdateJob :: "string \<Rightarrow> job_update \<Rightarrow> 's \<Rightarrow> go_error option \<times> 's"
  js_ListJobs :: "int \<Rightarrow> 's \<Rightarrow> export_job list result"

record 's dead_letter_store =
  ds_Append :: "op_env \<Rightarrow> dead_letter \<Rightarrow> 's \<Rightarrow> go_error option \<times> 's"
  ds_List :: "int \<Rightarrow> 's \<Rightarrow> dead_letter list result"

section \<open>The contract of an event store\<close>

text \<open>
  \<open>rows s\<close> is what the store holds, in chain order. Inserting is idempotent on the id and
  never changes a stored row; the only mutators set the two flags \<open>LegalHold\<close> and
  \<open>Anchored\<close>; a listing is the next page of the selected rows after the cursor, and hands
  out a cursor unless the page is the last one.
\<close>

definition mark_upto :: "cursor \<Rightarrow> event \<Rightarrow> event" where
  "mark_upto c e = (if ev_key e \<le> c then e\<lparr>Anchored := True\<rparr> else e)"

definition hold_row :: "string \<Rightarrow> bool \<Rightarrow> event \<Rightarrow> event" where
  "hold_row i h e = (if ID e = i then e\<lparr>LegalHold := h\<rparr> else e)"

abbreviation chain_sorted :: "event list \<Rightarrow> bool" where
  "chain_sorted \<equiv> sorted_wrt (\<lambda>a b. ev_key a < ev_key b)"

locale event_store_contract =
  fixes ops :: "'s event_store" and inv :: "'s \<Rightarrow> bool" and rows :: "'s \<Rightarrow> event list"
  assumes rows_sorted: "inv s \<Longrightarrow> chain_sorted (rows s)"
    and rows_distinct: "inv s \<Longrightarrow> distinct (map ID (rows s))"
    and Insert_contract: "inv s \<Longrightarrow> es_Insert ops e s = (r, s') \<Longrightarrow> inv s' \<and>
      (case r of Inl _ \<Rightarrow> rows s' = rows s
       | Inr ok \<Rightarrow> ok = (ID e \<notin> ID ` set (rows s)) \<and>
           rows s' = (if ok then insort_key ev_key e (rows s) else rows s))"
    and Get_contract: "inv s \<Longrightarrow> es_Get ops i s = Inr e \<Longrightarrow> e \<in> set (rows s) \<and> ID e = i"
    and ChainHead_contract: "inv s \<Longrightarrow> es_ChainHead ops s = Inr hd_row \<Longrightarrow>
      hd_row = (if rows s = [] then None else Some (last (rows s)))"
    and List_contract: "inv s \<Longrightarrow> es_List ops f s = Inr res \<Longrightarrow>
      sel = filter (\<lambda>e. selected f e \<and> after_cursor (f_Cursor f) e) (rows s) \<Longrightarrow>
      lr_Events res = take (page_limit f) sel \<and>
      (lr_NextCursor res = no_cursor \<and> length sel \<le> page_limit f \<or>
       sel \<noteq> [] \<and> lr_NextCursor res = ev_key (last (lr_Events res)))"
    and SetLegalHold_contract: "inv s \<Longrightarrow> es_SetLegalHold ops i h s = (hr, s') \<Longrightarrow> inv s' \<and>
      rows s' = (if hr = None then map (hold_row i h) (rows s) else rows s)"
    and MarkAnchored_contract: "inv s \<Longrightarrow> es_MarkAnchored ops t i s = (mr, s') \<Longrightarrow> inv s' \<and>
      (case mr of Inl _ \<Rightarrow> rows s' = rows s | Inr n \<Rightarrow> rows s' = map (mark_upto (Cursor t i)) (rows s))"

text \<open>A store whose reads and inserts do not fail.\<close>

locale reliable_event_store = event_store_contract +
  assumes Insert_total: "inv s \<Longrightarrow> is_ok (fst (es_Insert ops e s))"
    and Get_total: "inv s \<Longrightarrow> e \<in> set (rows s) \<Longrightarrow> es_Get ops (ID e) s = Inr e"
    and Get_missing: "inv s \<Longrightarrow> i \<notin> ID ` set (rows s) \<Longrightarrow> es_Get ops i s = Inl (StoreErrNotFound i)"
    and List_total: "inv s \<Longrightarrow> is_ok (es_List ops f s)"
    and ChainHead_total: "inv s \<Longrightarrow> is_ok (es_ChainHead ops s)"

section \<open>Append-only stores\<close>

text \<open>
  The columns that no operation may change after insertion: all but the two flags. The
  states a store goes through under any sequence of its mutators are \<open>store_reach\<close>.
\<close>

definition immutable_view :: "event \<Rightarrow> event" where
  "immutable_view e = e\<lparr>Anchored := False, LegalHold := False\<rparr>"

lemma immutable_view_flags [simp]:
  "immutable_view (e\<lparr>Anchored := a\<rparr>) = immutable_view e"
  "immutable_view (e\<lparr>LegalHold := h\<rparr>) = immutable_view e"
  by (simp_all add: immutable_view_def)

inductive store_reach :: "'s event_store \<Rightarrow> 's \<Rightarrow> 's \<Rightarrow> bool" for ops where
  reach_start: "store_reach ops s s"
| reach_Insert: "store_reach ops s s' \<Longrightarrow> es_Insert ops e s' = (r, s'') \<Longrightarrow> store_reach ops s s''"
| reach_SetLegalHold:
    "store_reach ops s s' \<Longrightarrow> es_SetLegalHold ops i h s' = (hr, s'') \<Longrightarrow> store_reach ops s s''"
| reach_MarkAnchored:
    "store_reach ops s s' \<Longrightarrow> es_MarkAnchored ops t i s' = (mr, s'') \<Longrightarrow> store_reach ops s s''"

lemma store_reach_trans: "store_reach ops s' s'' \<Longrightarrow> store_reach ops s s' \<Longrightarrow> store_reach ops s s''"
  by (induction rule: store_reach.induct) (auto intro: store_reach.intros)

definition row_kept :: "event list \<Rightarrow> event \<Rightarrow> bool" where
  "row_kept rs e \<longleftrightarrow> (\<exists>e' \<in> set rs. immutable_view e' = immutable_view e \<and> (Anchored e \<longrightarrow> Anchored e'))"

lemma row_kept_self: "e \<in> set rs \<Longrightarrow> row_kept rs e"
  by (auto simp: row_kept_def)

lemma row_kept_trans: "row_kept rs e \<Longrightarrow> \<forall>x \<in> set rs. row_kept rs' x \<Longrightarrow> row_kept rs' e"
  unfolding row_kept_def by metis

lemma row_kept_map:
  assumes "row_kept rs e"
    and "\<And>x. immutable_view (f x) = immutable_view x \<and> (Anchored x \<longrightarrow> Anchored (f x))"
  shows "row_kept (map f rs) e"
  using assms unfolding row_kept_def by fastforce

text \<open>
  The laws an append-only store keeps, whatever its operations answer: every mutator keeps the
  rows. A store that promises \<open>event_store_contract\<close> keeps them; so does the Postgres adapter,
  which does not promise it (it rounds times when it inserts).
\<close>

locale append_only_store =
  fixes ops :: "'s event_store" and inv :: "'s \<Rightarrow> bool" and rows :: "'s \<Rightarrow> event list"
  assumes Insert_keeps: "inv s \<Longrightarrow> es_Insert ops e s = (r, s') \<Longrightarrow> inv s' \<and> (\<forall>x \<in> set (rows s). row_kept (rows s') x)"
    and SetLegalHold_keeps: "inv s \<Longrightarrow> es_SetLegalHold ops i h s = (hr, s') \<Longrightarrow>
      inv s' \<and> (\<forall>x \<in> set (rows s). row_kept (rows s') x)"
    and MarkAnchored_keeps: "inv s \<Longrightarrow> es_MarkAnchored ops t i s = (mr, s') \<Longrightarrow>
      inv s' \<and> (\<forall>x \<in> set (rows s). row_kept (rows s') x)"
begin

lemma store_reach_inv: "store_reach ops s s' \<Longrightarrow> inv s \<Longrightarrow> inv s'"
  by (induction rule: store_reach.induct)
    (auto dest: Insert_keeps SetLegalHold_keeps MarkAnchored_keeps)

lemma store_reach_append_only:
  assumes "store_reach ops s s'" and "inv s" and "e \<in> set (rows s)"
  shows "row_kept (rows s') e"
  using assms
proof (induction rule: store_reach.induct)
  case (reach_Insert s s' x r s'')
  then have "row_kept (rows s') e" and "inv s'" by (auto dest: store_reach_inv)
  with Insert_keeps [OF this(2) reach_Insert.hyps(2)] show ?case by (blast intro: row_kept_trans)
next
  case (reach_SetLegalHold s s' i h hr s'')
  then have "row_kept (rows s') e" and "inv s'" by (auto dest: store_reach_inv)
  with SetLegalHold_keeps [OF this(2) reach_SetLegalHold.hyps(2)] show ?case by (blast intro: row_kept_trans)
next
  case (reach_MarkAnchored s s' t i mr s'')
  then have "row_kept (rows s') e" and "inv s'" by (auto dest: store_reach_inv)
  with MarkAnchored_keeps [OF this(2) reach_MarkAnchored.hyps(2)] show ?case by (blast intro: row_kept_trans)
qed (simp add: row_kept_self)

end

lemma hold_row_keeps: "e \<in> set es \<Longrightarrow> row_kept (map (hold_row i h) es) e"
  by (rule row_kept_map [OF row_kept_self]) (auto simp: hold_row_def)

lemma mark_upto_keeps: "e \<in> set es \<Longrightarrow> row_kept (map (mark_upto c) es) e"
  by (rule row_kept_map [OF row_kept_self]) (auto simp: mark_upto_def)

sublocale event_store_contract \<subseteq> append_only_store ops inv rows
proof
  fix s s' :: 's and e r
  assume "inv s" "es_Insert ops e s = (r, s')"
  from Insert_contract [OF this] show "inv s' \<and> (\<forall>x \<in> set (rows s). row_kept (rows s') x)"
    by (auto simp: set_insort_key row_kept_self split: sum.splits if_splits)
next
  fix s s' :: 's and i h hr
  assume "inv s" "es_SetLegalHold ops i h s = (hr, s')"
  from SetLegalHold_contract [OF this] show "inv s' \<and> (\<forall>x \<in> set (rows s). row_kept (rows s') x)"
    by (auto simp: row_kept_self hold_row_keeps)
next
  fix s s' :: 's and t i mr
  assume "inv s" "es_MarkAnchored ops t i s = (mr, s')"
  from MarkAnchored_contract [OF this] show "inv s' \<and> (\<forall>x \<in> set (rows s). row_kept (rows s') x)"
    by (auto simp: row_kept_self mark_upto_keeps split: sum.splits)
qed

section \<open>Stores that carry a chain\<close>

text \<open>
  What the ingest of a chain needs of a store, whether or not its calls fail: the head is the
  last row, and an insertion adds the row at its place or leaves the rows alone. \<open>keeps\<close> are the
  keys a row may have to be kept as it is (a database may change the texts of ids and times).
\<close>

locale chain_store =
  fixes ops :: "'s event_store" and inv :: "'s \<Rightarrow> bool" and rows :: "'s \<Rightarrow> event list" and keeps :: "cursor \<Rightarrow> bool"
  assumes insert_at_place: "inv s \<Longrightarrow> keeps (ev_key e) \<Longrightarrow> es_Insert ops e s = (r, s') \<Longrightarrow>
      inv s' \<and> (rows s' = rows s \<or> ID e \<notin> ID ` set (rows s) \<and> rows s' = insort_key ev_key e (rows s))"
    and head_is_last: "inv s \<Longrightarrow> es_ChainHead ops s = Inr h \<Longrightarrow>
      h = (if rows s = [] then None else Some (last (rows s)))"

sublocale event_store_contract \<subseteq> chain_store ops inv rows "\<lambda>_. True"
proof
  fix s s' :: 's and e r
  assume "inv s" "es_Insert ops e s = (r, s')"
  from Insert_contract [OF this]
  show "inv s' \<and> (rows s' = rows s \<or> ID e \<notin> ID ` set (rows s) \<and> rows s' = insort_key ev_key e (rows s))"
    by (auto split: sum.splits if_splits)
qed (rule ChainHead_contract)

section \<open>The pagination loop\<close>

text \<open>
  The loop that \<^verbatim>\<open>chain.Sweep\<close> and \<^verbatim>\<open>Runner.RunJob\<close> share line by line: check the context,
  list a page from the cursor, append it, go on from the returned cursor until a page is
  empty or comes without one. \<open>ctx i\<close> is \<^verbatim>\<open>ctx.Err()\<close> at the check of round \<open>i\<close>. Nothing
  in the loop bounds the number of rounds; \<open>None\<close> would be a loop that never ends.
\<close>

datatype collect_stop = CtxDone go_error | ListFailed go_error

partial_function (option) collect_pages ::
  "'s event_store \<Rightarrow> 's \<Rightarrow> (nat \<Rightarrow> go_error option) \<Rightarrow> event_filter \<Rightarrow> nat \<Rightarrow> event list \<Rightarrow>
   (collect_stop + event list) option" where
  "collect_pages ops s ctx f i acc =
     (case ctx i of Some err \<Rightarrow> Some (Inl (CtxDone err))
      | None \<Rightarrow> (case es_List ops f s of Inl err \<Rightarrow> Some (Inl (ListFailed err))
      | Inr res \<Rightarrow>
          if lr_Events res = [] then Some (Inr acc)
          else if IsZero (c_TS (lr_NextCursor res)) then Some (Inr (acc @ lr_Events res))
          else collect_pages ops s ctx (f\<lparr>f_Cursor := lr_NextCursor res\<rparr>) (Suc i)
                 (acc @ lr_Events res)))"

text \<open>
  What the loop needs of a store: the listing laws, for the filters that \<open>fits\<close> admits. The
  cursors the store hands out keep a filter admissible.
\<close>

locale event_listing =
  fixes ops :: "'s event_store" and inv :: "'s \<Rightarrow> bool" and rows :: "'s \<Rightarrow> event list"
    and fits :: "event_filter \<Rightarrow> bool"
  assumes rows_in_order: "inv s \<Longrightarrow> chain_sorted (rows s)"
    and listing: "inv s \<Longrightarrow> fits f \<Longrightarrow> es_List ops f s = Inr res \<Longrightarrow>
      sel = filter (\<lambda>e. selected f e \<and> after_cursor (f_Cursor f) e) (rows s) \<Longrightarrow>
      lr_Events res = take (page_limit f) sel \<and>
      (lr_NextCursor res = no_cursor \<and> length sel \<le> page_limit f \<or>
       sel \<noteq> [] \<and> lr_NextCursor res = ev_key (last (lr_Events res)))"
    and listing_total: "inv s \<Longrightarrow> fits f \<Longrightarrow> is_ok (es_List ops f s)"
    and fits_cursor: "inv s \<Longrightarrow> fits f \<Longrightarrow> e \<in> set (rows s) \<Longrightarrow> fits (f\<lparr>f_Cursor := ev_key e\<rparr>)"

sublocale reliable_event_store \<subseteq> event_listing ops inv rows "\<lambda>_. True"
  by unfold_locales (use rows_sorted List_contract List_total in blast)+

context event_listing
begin

text \<open>A page is the last one, or what it leaves is what the returned cursor selects.\<close>

lemma page_cases:
  assumes "inv s" and "fits f" and "\<forall>e \<in> set (rows s). \<not> IsZero (TS e)" and "es_List ops f s = Inr res"
    and sel: "sel = filter (\<lambda>e. selected f e \<and> after_cursor (f_Cursor f) e) (rows s)"
  obtains (last_page) "lr_Events res = sel" "sel = [] \<or> IsZero (c_TS (lr_NextCursor res))"
  | (more) "lr_Events res = take (page_limit f) sel" "lr_Events res \<noteq> []" "fits (f\<lparr>f_Cursor := lr_NextCursor res\<rparr>)"
      "\<not> IsZero (c_TS (lr_NextCursor res))" "length (drop (page_limit f) sel) < length sel"
      "drop (page_limit f) sel = filter (\<lambda>e. selected (f\<lparr>f_Cursor := lr_NextCursor res\<rparr>) e \<and>
         after_cursor (f_Cursor (f\<lparr>f_Cursor := lr_NextCursor res\<rparr>)) e) (rows s)"
proof (cases "sel = [] \<or> lr_NextCursor res = no_cursor \<and> length sel \<le> page_limit f")
  case True
  then show thesis using listing [OF assms(1,2,4) sel] by (intro last_page) auto
next
  case False
  let ?k = "page_limit f"
  have page: "lr_Events res = take ?k sel" "sel \<noteq> []" "lr_NextCursor res = ev_key (last (take ?k sel))"
    using False listing [OF assms(1,2,4) sel] by auto
  define y where "y = last (take ?k sel)"
  have tk: "take ?k sel \<noteq> []" using page(2) page_limit_pos [of f] by (simp del: page_limit_pos)
  then have "y \<in> set sel" unfolding y_def by (meson in_set_takeD last_in_set)
  then have y: "y \<in> set (rows s)" "after_cursor (f_Cursor f) y" using sel by auto
  have next_c: "lr_NextCursor res = ev_key y" using page(3) by (simp add: y_def)
  have nz: "\<not> IsZero (c_TS (ev_key y))" using assms(3) y(1) by simp
  then have nk: "ev_key y \<noteq> no_cursor" by (auto simp: ev_key_def)
  have above: "after_cursor (ev_key y) e \<longleftrightarrow> after_cursor (f_Cursor f) e \<and> ev_key y < ev_key e" for e
    using y(2) nk by (auto simp: after_cursor_def)
  have sorted_sel: "chain_sorted sel"
    using rows_in_order [OF assms(1)] sel by (simp add: sorted_wrt_filter)
  have "filter (\<lambda>e. selected f e \<and> after_cursor (ev_key y) e) (rows s) =
      filter (\<lambda>e. ev_key y < ev_key e) sel"
    by (simp add: sel above conj_assoc)
  also have "\<dots> = drop ?k sel"
    unfolding y_def by (rule filter_above_last_take [OF sorted_sel page(2) page_limit_pos])
  finally have rest: "drop ?k sel = filter (\<lambda>e. selected (f\<lparr>f_Cursor := ev_key y\<rparr>) e \<and>
      after_cursor (f_Cursor (f\<lparr>f_Cursor := ev_key y\<rparr>)) e) (rows s)"
    by simp
  show thesis
  proof (rule more)
    show "length (drop ?k sel) < length sel" using page(2) by simp
    show "fits (f\<lparr>f_Cursor := lr_NextCursor res\<rparr>)"
      unfolding next_c using fits_cursor [OF assms(1,2) y(1)] .
  qed (use page(1) tk nz rest in \<open>simp_all add: next_c\<close>)
qed

lemma collect_pages_from:
  assumes "inv s" and "fits f" and "\<And>i. ctx i = None" and "\<forall>e \<in> set (rows s). \<not> IsZero (TS e)"
    and "sel = filter (\<lambda>e. selected f e \<and> after_cursor (f_Cursor f) e) (rows s)"
  shows "collect_pages ops s ctx f i acc = Some (Inr (acc @ sel))"
  using assms(2,5)
proof (induction "length sel" arbitrary: sel f i acc rule: less_induct)
  case less
  obtain res where res: "es_List ops f s = Inr res"
    using listing_total [OF assms(1) less.prems(1)] by (auto simp: is_ok_def split: sum.splits)
  from assms(1) less.prems(1) assms(4) res less.prems(2) show ?case
  proof (cases rule: page_cases)
    case last_page
    then show ?thesis by (subst collect_pages.simps) (auto simp: assms(3) res)
  next
    case more
    from less.hyps [OF more(5,3,6), of "Suc i" "acc @ take (page_limit f) sel"] more(1,2,4) show ?thesis
      by (subst collect_pages.simps) (simp add: assms(3) res)
  qed
qed

text \<open>Whatever the context does, the loop ends.\<close>

lemma collect_pages_returns:
  assumes "inv s" and "fits f" and "\<forall>e \<in> set (rows s). \<not> IsZero (TS e)"
  shows "\<exists>r. collect_pages ops s ctx f i acc = Some r"
  using assms(2)
proof (induction "length (filter (\<lambda>e. selected f e \<and> after_cursor (f_Cursor f) e) (rows s))"
    arbitrary: f i acc rule: less_induct)
  case less
  obtain res where res: "es_List ops f s = Inr res"
    using listing_total [OF assms(1) less.prems] by (auto simp: is_ok_def split: sum.splits)
  show ?case
  proof (cases "ctx i")
    case None
    from assms(1) less.prems assms(3) res refl show ?thesis
    proof (cases rule: page_cases)
      case last_page
      then show ?thesis by (subst collect_pages.simps) (auto simp: None res)
    next
      case more
      have "\<exists>r. collect_pages ops s ctx (f\<lparr>f_Cursor := lr_NextCursor res\<rparr>) (Suc i) (acc @ lr_Events res) = Some r"
        using less.hyps more(3,5,6) by metis
      with more show ?thesis by (subst collect_pages.simps) (simp add: None res)
    qed
  qed (subst collect_pages.simps, simp)
qed

text \<open>Pagination is complete and exact: every selected row once, in chain order.\<close>

lemma collect_pages_complete:
  assumes "inv s" and "fits f" and "\<And>i. ctx i = None" and "\<forall>e \<in> set (rows s). \<not> IsZero (TS e)"
    and "f_Cursor f = no_cursor"
  shows "collect_pages ops s ctx f 0 [] = Some (Inr (filter (selected f) (rows s)))"
  using collect_pages_from [OF assms(1-4) refl, where i = 0 and acc = "[]"] assms(5)
  by (simp add: after_cursor_def)

end

end
