(* ===== verification/Memstore.thy ===== *)
theory Memstore
  imports Store
begin

text \<open>
  internal/store/memstore/memstore.go: the in-memory stores. Every operation takes the
  store's mutex for its whole body, so each is one atomic step.

  The event store keeps pointers: the map \<^verbatim>\<open>events\<close> and the slice \<^verbatim>\<open>ordered\<close> hold the same
  objects, and \<^verbatim>\<open>SetLegalHold\<close> and \<^verbatim>\<open>MarkAnchored\<close> write through one and are seen through the
  other. The model keeps the objects in a heap, a list indexed by address, with the map and
  the slice holding addresses. \<open>mem_rows\<close> reads the rows in chain order off it, and
  \<open>mem_inv\<close> says how the three parts agree; the interpretations at the end show that the
  store keeps the contract of \<open>reliable_event_store\<close>.
\<close>

section \<open>EventStore\<close>

record mem_events =
  mem_heap :: "event list"
  mem_index :: "string \<rightharpoonup> nat"
  mem_ordered :: "nat list"

definition NewEventStore :: mem_events where
  "NewEventStore = \<lparr>mem_heap = [], mem_index = Map.empty, mem_ordered = []\<rparr>"

text \<open>The comparison passed to \<^verbatim>\<open>sort.SliceStable\<close>.\<close>

definition row_less :: "event \<Rightarrow> event \<Rightarrow> bool" where
  "row_less a b = (if TS a \<noteq> TS b then TS a < TS b else ID a < ID b)"

definition EventStore_Insert :: "event \<Rightarrow> mem_events \<Rightarrow> bool result \<times> mem_events" where
  "EventStore_Insert e s =
     (case mem_index s (ID e) of
        Some _ \<Rightarrow> (Inr False, s)
      | None \<Rightarrow>
          let p = length (mem_heap s); heap = mem_heap s @ [e] in
          (Inr True, s\<lparr>mem_heap := heap,
             mem_index := (mem_index s)(ID e \<mapsto> p),
             mem_ordered := SliceStable (\<lambda>i j. row_less (heap ! i) (heap ! j)) (mem_ordered s @ [p])\<rparr>))"

definition EventStore_Get :: "string \<Rightarrow> mem_events \<Rightarrow> event result" where
  "EventStore_Get i s =
     (case mem_index s i of None \<Rightarrow> Inl (StoreErrNotFound i) | Some p \<Rightarrow> Inr (mem_heap s ! p))"

text \<open>
  The loop of \<^verbatim>\<open>List\<close>: \<open>skip_row\<close> is the sequence of guards that \<^verbatim>\<open>continue\<close> past a
  row, and the loop breaks when the page is full.
\<close>

definition skip_row :: "event_filter \<Rightarrow> event \<Rightarrow> bool" where
  "skip_row f e =
     (if \<not> IsZero (f_From f) \<and> TS e < f_From f then True
      else if \<not> IsZero (f_To f) \<and> \<not> TS e < f_To f then True
      else if f_Service f \<noteq> '''' \<and> SourceService e \<noteq> f_Service f then True
      else if f_Actor f \<noteq> '''' \<and> ActorID e \<noteq> f_Actor f then True
      else if f_Action f \<noteq> '''' \<and> Action e \<noteq> f_Action f then True
      else if f_TargetType f \<noteq> '''' \<and> TargetType e \<noteq> f_TargetType f then True
      else if f_TargetID f \<noteq> '''' \<and> TargetID e \<noteq> f_TargetID f then True
      else if \<not> IsZero (c_TS (f_Cursor f)) \<or> c_ID (f_Cursor f) \<noteq> '''' then
        \<not> TS e > c_TS (f_Cursor f) \<and> \<not> (TS e = c_TS (f_Cursor f) \<and> ID e > c_ID (f_Cursor f))
      else False)"

primrec list_loop :: "event list \<Rightarrow> event_filter \<Rightarrow> nat \<Rightarrow> nat list \<Rightarrow> event list \<Rightarrow> event list" where
  "list_loop heap f limit [] out = out"
| "list_loop heap f limit (p # ps) out =
     (if skip_row f (heap ! p) then list_loop heap f limit ps out
      else if length (out @ [heap ! p]) \<ge> limit then out @ [heap ! p]
      else list_loop heap f limit ps (out @ [heap ! p]))"

definition EventStore_List :: "event_filter \<Rightarrow> mem_events \<Rightarrow> list_result result" where
  "EventStore_List f s =
     (let limit = (if f_Limit f \<le> 0 \<or> f_Limit f > 1000 then 1000 else nat (f_Limit f));
          out = list_loop (mem_heap s) f limit (mem_ordered s) [] in
      Inr \<lparr>lr_Events = out,
           lr_NextCursor =
             (if length out \<ge> limit \<and> length out > 0
              then Cursor (TS (out ! (length out - 1))) (ID (out ! (length out - 1)))
              else no_cursor)\<rparr>)"

definition EventStore_ChainHead :: "mem_events \<Rightarrow> event option result" where
  "EventStore_ChainHead s =
     (if length (mem_ordered s) = 0 then Inr None
      else Inr (Some (mem_heap s ! (mem_ordered s ! (length (mem_ordered s) - 1)))))"

definition EventStore_SetLegalHold :: "string \<Rightarrow> bool \<Rightarrow> mem_events \<Rightarrow> go_error option \<times> mem_events" where
  "EventStore_SetLegalHold i hold s =
     (case mem_index s i of
        None \<Rightarrow> (Some (StoreErrNotFound i), s)
      | Some p \<Rightarrow> (None, s\<lparr>mem_heap := (mem_heap s)[p := (mem_heap s ! p)\<lparr>LegalHold := hold\<rparr>]\<rparr>))"

fun mark_loop :: "time \<Rightarrow> string \<Rightarrow> nat list \<Rightarrow> event list \<times> int \<Rightarrow> event list \<times> int" where
  "mark_loop toTS toID [] st = st"
| "mark_loop toTS toID (p # ps) (heap, n) =
     (let e = heap ! p in
      if TS e < toTS \<or> TS e = toTS \<and> ID e \<le> toID then
        if \<not> Anchored e then mark_loop toTS toID ps (heap[p := e\<lparr>Anchored := True\<rparr>], n + 1)
        else mark_loop toTS toID ps (heap, n)
      else mark_loop toTS toID ps (heap, n))"

definition EventStore_MarkAnchored :: "time \<Rightarrow> string \<Rightarrow> mem_events \<Rightarrow> int result \<times> mem_events" where
  "EventStore_MarkAnchored toTS toID s =
     (case mark_loop toTS toID (mem_ordered s) (mem_heap s, 0) of (heap, n) \<Rightarrow>
        (Inr n, s\<lparr>mem_heap := heap\<rparr>))"

definition TamperForTest :: "string \<Rightarrow> (event \<Rightarrow> event) \<Rightarrow> mem_events \<Rightarrow> mem_events" where
  "TamperForTest i fn s =
     (case mem_index s i of
        None \<Rightarrow> s
      | Some p \<Rightarrow> s\<lparr>mem_heap := (mem_heap s)[p := fn (mem_heap s ! p)]\<rparr>)"

definition mem_event_store :: "mem_events event_store" where
  "mem_event_store = \<lparr>es_Insert = EventStore_Insert, es_Get = EventStore_Get,
     es_List = EventStore_List, es_ChainHead = EventStore_ChainHead,
     es_SetLegalHold = EventStore_SetLegalHold, es_MarkAnchored = EventStore_MarkAnchored\<rparr>"

section \<open>AnchorStore\<close>

text \<open>Anchors are copied in and out and never written again, so the slice is a list of values.\<close>

type_synonym mem_anchors = "anchor list"

definition AnchorStore_InsertAnchor :: "op_env \<Rightarrow> anchor \<Rightarrow> mem_anchors \<Rightarrow> string result \<times> mem_anchors" where
  "AnchorStore_InsertAnchor env a s =
     (let c = a\<lparr>an_ID := oe_UUID env\<rparr>;
          c = (if IsZero (an_AnchoredAt c) then c\<lparr>an_AnchoredAt := oe_Now env\<rparr> else c)
      in (Inr (an_ID c), s @ [c]))"

fun anchors_loop :: "time \<Rightarrow> time \<Rightarrow> anchor list \<Rightarrow> anchor list \<Rightarrow> anchor list" where
  "anchors_loop from_ts to_ts [] out = out"
| "anchors_loop from_ts to_ts (a # as) out =
     (if \<not> IsZero from_ts \<and> an_AnchoredAt a < from_ts then anchors_loop from_ts to_ts as out
      else if \<not> IsZero to_ts \<and> an_AnchoredAt a > to_ts then anchors_loop from_ts to_ts as out
      else anchors_loop from_ts to_ts as (out @ [a]))"

definition AnchorStore_ListAnchors :: "time \<Rightarrow> time \<Rightarrow> mem_anchors \<Rightarrow> anchor list result" where
  "AnchorStore_ListAnchors from_ts to_ts s =
     Inr (SliceStable (\<lambda>a b. an_AnchoredAt a < an_AnchoredAt b) (anchors_loop from_ts to_ts s []))"

fun AnchorStore_GetAnchor :: "string \<Rightarrow> mem_anchors \<Rightarrow> anchor result" where
  "AnchorStore_GetAnchor i [] = Inl (StoreErrNotFound i)"
| "AnchorStore_GetAnchor i (a # as) = (if an_ID a = i then Inr a else AnchorStore_GetAnchor i as)"

definition mem_anchor_store :: "mem_anchors anchor_store" where
  "mem_anchor_store = \<lparr>as_InsertAnchor = AnchorStore_InsertAnchor,
     as_ListAnchors = AnchorStore_ListAnchors, as_GetAnchor = AnchorStore_GetAnchor\<rparr>"

section \<open>ExportJobStore\<close>

type_synonym mem_jobs = "string \<rightharpoonup> export_job"

definition ExportJobStore_CreateJob :: "op_env \<Rightarrow> export_job \<Rightarrow> mem_jobs \<Rightarrow> go_error option \<times> mem_jobs" where
  "ExportJobStore_CreateJob env j s =
     (case s (ej_ID j) of
        Some _ \<Rightarrow> (None, s)
      | None \<Rightarrow>
          let c = (if IsZero (ej_CreatedAt j) then j\<lparr>ej_CreatedAt := oe_Now env\<rparr> else j)
          in (None, s(ej_ID j \<mapsto> c)))"

definition ExportJobStore_GetJob :: "string \<Rightarrow> mem_jobs \<Rightarrow> export_job result" where
  "ExportJobStore_GetJob i s = (case s i of None \<Rightarrow> Inl (StoreErrNotFound i) | Some j \<Rightarrow> Inr j)"

definition ExportJobStore_UpdateJob :: "string \<Rightarrow> job_update \<Rightarrow> mem_jobs \<Rightarrow> go_error option \<times> mem_jobs" where
  "ExportJobStore_UpdateJob i u s =
     (case s i of
        None \<Rightarrow> (Some (StoreErrNotFound i), s)
      | Some j \<Rightarrow>
          let j = j\<lparr>ej_Status := ju_Status u, ej_RowCount := ju_RowCount u,
                    ej_PayloadRef := ju_PayloadRef u, ej_ChainRoot := ju_ChainRoot u,
                    ej_AnchorID := ju_AnchorID u\<rparr>;
              j = (if \<not> IsZero (ju_CompletedAt u) then j\<lparr>ej_CompletedAt := ju_CompletedAt u\<rparr> else j)
          in (None, s(i \<mapsto> j)))"

text \<open>
  Go visits the keys of a map in no fixed order; \<open>order\<close> is the order of this visit, a
  list of the keys.
\<close>

definition ExportJobStore_ListJobs :: "string list \<Rightarrow> int \<Rightarrow> mem_jobs \<Rightarrow> export_job list result" where
  "ExportJobStore_ListJobs order limit s =
     (let out = SliceStable (\<lambda>a b. ej_CreatedAt a > ej_CreatedAt b)
                  (List.map_filter s order) in
      Inr (if limit > 0 \<and> int (length out) > limit then take (nat limit) out else out))"

definition mem_export_store :: "string list \<Rightarrow> mem_jobs export_job_store" where
  "mem_export_store order = \<lparr>js_CreateJob = ExportJobStore_CreateJob, js_GetJob = ExportJobStore_GetJob,
     js_UpdateJob = ExportJobStore_UpdateJob, js_ListJobs = ExportJobStore_ListJobs order\<rparr>"

section \<open>DeadLetterStore\<close>

type_synonym mem_dead_letters = "dead_letter list"

definition DeadLetterStore_Append :: "op_env \<Rightarrow> dead_letter \<Rightarrow> mem_dead_letters \<Rightarrow> go_error option \<times> mem_dead_letters" where
  "DeadLetterStore_Append env dl s =
     (let c = dl\<lparr>dl_ID := oe_UUID env\<rparr>;
          c = (if IsZero (dl_RejectedAt c) then c\<lparr>dl_RejectedAt := oe_Now env\<rparr> else c)
      in (None, s @ [c]))"

text \<open>The downward loop: \<open>i\<close> is one more than the loop's index.\<close>

fun newest_loop :: "dead_letter list \<Rightarrow> int \<Rightarrow> nat \<Rightarrow> dead_letter list \<Rightarrow> dead_letter list" where
  "newest_loop items limit 0 out = out"
| "newest_loop items limit (Suc i) out =
     (if int (length out) < limit then newest_loop items limit i (out @ [items ! i]) else out)"

definition DeadLetterStore_List :: "int \<Rightarrow> mem_dead_letters \<Rightarrow> dead_letter list result" where
  "DeadLetterStore_List limit s =
     (let limit = (if limit \<le> 0 \<or> limit > int (length s) then int (length s) else limit)
      in Inr (newest_loop s limit (length s) []))"

definition mem_dead_letter_store :: "mem_dead_letters dead_letter_store" where
  "mem_dead_letter_store = \<lparr>ds_Append = DeadLetterStore_Append, ds_List = DeadLetterStore_List\<rparr>"

record mem_all =
  ma_Events :: mem_events
  ma_Anchors :: mem_anchors
  ma_Exports :: mem_jobs
  ma_DeadLetters :: mem_dead_letters

definition NewAll :: mem_all where
  "NewAll = \<lparr>ma_Events = NewEventStore, ma_Anchors = [], ma_Exports = Map.empty, ma_DeadLetters = []\<rparr>"

section \<open>The heap refines a sorted list of rows\<close>

definition mem_rows :: "mem_events \<Rightarrow> event list" where
  "mem_rows s = map ((!) (mem_heap s)) (mem_ordered s)"

definition mem_inv :: "mem_events \<Rightarrow> bool" where
  "mem_inv s \<longleftrightarrow>
     distinct (mem_ordered s) \<and> set (mem_ordered s) = {..<length (mem_heap s)} \<and>
     (\<forall>i p. mem_index s i = Some p \<longleftrightarrow> p < length (mem_heap s) \<and> ID (mem_heap s ! p) = i) \<and>
     chain_sorted (mem_rows s)"

lemma row_less_key: "row_less a b \<longleftrightarrow> ev_key a < ev_key b"
  by (auto simp: row_less_def less_cursor_def)

lemma mem_index_row: "mem_inv s \<Longrightarrow> p \<in> set (mem_ordered s) \<Longrightarrow> mem_index s (ID (mem_heap s ! p)) = Some p"
  by (auto simp: mem_inv_def)

lemma mem_index_iff:
  "mem_inv s \<Longrightarrow> mem_index s i = Some p \<longleftrightarrow> p \<in> set (mem_ordered s) \<and> ID (mem_heap s ! p) = i"
  by (simp add: mem_inv_def)

lemma mem_index_None:
  assumes "mem_inv s"
  shows "mem_index s i = None \<longleftrightarrow> i \<notin> ID ` set (mem_rows s)"
proof -
  have "mem_index s i \<noteq> None \<longleftrightarrow> (\<exists>p \<in> set (mem_ordered s). ID (mem_heap s ! p) = i)"
    using mem_index_iff [OF assms, of i] by (metis not_None_eq)
  then show ?thesis by (auto simp: mem_rows_def)
qed

lemma mem_index_Some:
  "mem_inv s \<Longrightarrow> mem_index s i = Some p \<Longrightarrow>
     p \<in> set (mem_ordered s) \<and> ID (mem_heap s ! p) = i \<and> mem_heap s ! p \<in> set (mem_rows s)"
  by (simp add: mem_index_iff mem_rows_def)

lemma mem_rows_distinct:
  assumes "mem_inv s"
  shows "distinct (map ID (mem_rows s))"
proof -
  have "inj_on (\<lambda>p. ID (mem_heap s ! p)) (set (mem_ordered s))"
    using mem_index_row [OF assms] by (intro inj_onI) (metis option.inject)
  then show ?thesis
    using assms by (simp add: mem_rows_def mem_inv_def distinct_map comp_def)
qed

lemma NewEventStore_inv [simp]: "mem_inv NewEventStore" and
  NewEventStore_rows [simp]: "mem_rows NewEventStore = []"
  by (simp_all add: mem_inv_def mem_rows_def NewEventStore_def)

text \<open>A store holding given rows, for concrete inputs.\<close>

definition store_of :: "event list \<Rightarrow> mem_events" where
  "store_of rows = \<lparr>mem_heap = rows, mem_index = map_of (zip (map ID rows) [0..<length rows]),
     mem_ordered = [0..<length rows]\<rparr>"

lemma store_of_rows [simp]: "mem_rows (store_of rows) = rows"
  by (simp add: mem_rows_def store_of_def map_nth)

lemma store_of_inv:
  assumes "distinct (map ID rows)" and "chain_sorted rows"
  shows "mem_inv (store_of rows)"
proof -
  have "map_of (zip (map ID rows) [0..<length rows]) i = Some p \<longleftrightarrow> p < length rows \<and> ID (rows ! p) = i" for i p
    using assms(1) by (force simp: map_of_eq_Some_iff in_set_zip)
  then show ?thesis
    using assms(2) store_of_rows [of rows] by (auto simp: mem_inv_def store_of_def)
qed

subsection \<open>Insert\<close>

lemma mem_insert_rows:
  assumes inv: "mem_inv s" and fresh: "mem_index s (ID e) = None"
    and s': "EventStore_Insert e s = (r, s')"
  shows "mem_inv s' \<and> mem_rows s' = insort_key ev_key e (mem_rows s)"
proof -
  define p where "p = length (mem_heap s)"
  define heap where "heap = mem_heap s @ [e]"
  let ?f = "\<lambda>i. ev_key (heap ! i)"
  have ord: "set (mem_ordered s) = {..<p}" "distinct (mem_ordered s)"
    using inv by (auto simp: mem_inv_def p_def)
  have old: "map ((!) heap) (mem_ordered s) = mem_rows s"
    using ord by (auto simp: mem_rows_def heap_def p_def nth_append)
  have new: "heap ! p = e" by (simp add: heap_def p_def)
  have ids: "ID e \<notin> ID ` set (mem_rows s)" using fresh mem_index_None [OF inv] by simp
  then have keys: "ev_key e \<notin> ev_key ` set (mem_rows s)" by (auto simp: ev_key_def)
  have strict: "sorted_wrt (\<lambda>i j. ?f i < ?f j) (mem_ordered s)"
    using inv unfolding mem_inv_def old [symmetric] sorted_wrt_map by blast
  have ne: "\<forall>q \<in> set (mem_ordered s). ?f q \<noteq> ?f p"
    using keys unfolding new by (auto simp: image_iff simp flip: old)
  have srt: "SliceStable (\<lambda>i j. row_less (heap ! i) (heap ! j)) (mem_ordered s @ [p]) =
      insort_key ?f p (mem_ordered s)"
    by (simp add: SliceStable_key [where f = ?f] row_less_key
        sort_key_snoc [OF sorted_wrt_less_imp_sorted [OF strict] ne])
  have s'_eq: "s' = s\<lparr>mem_heap := heap, mem_index := (mem_index s)(ID e \<mapsto> p),
      mem_ordered := insort_key ?f p (mem_ordered s)\<rparr>"
    using s' fresh by (simp add: EventStore_Insert_def Let_def srt flip: p_def heap_def)
  have rows: "mem_rows s' = insort_key ev_key e (mem_rows s)"
    unfolding mem_rows_def [of s'] by (simp add: s'_eq map_insort_key new old)
  have "distinct (mem_ordered s')"
    using ord by (simp add: s'_eq distinct_insort)
  moreover have "set (mem_ordered s') = {..<length (mem_heap s')}"
    using ord(1) by (simp add: s'_eq set_insort_key heap_def lessThan_Suc flip: p_def)
  moreover have "mem_index s' i = Some q \<longleftrightarrow> q < length (mem_heap s') \<and> ID (mem_heap s' ! q) = i" for i q
  proof -
    have idx: "mem_index s i = Some q \<longleftrightarrow> q < p \<and> ID (mem_heap s ! q) = i" for i q
      using inv by (simp add: mem_inv_def p_def)
    have "ID (mem_heap s ! q) \<noteq> ID e" if "q < p"
      using idx [of "ID e" q] fresh that by simp
    moreover have "heap ! q = (if q < p then mem_heap s ! q else e)" if "q < Suc p"
      using that by (auto simp: heap_def p_def nth_append less_Suc_eq)
    moreover have "mem_heap s' = heap" "length heap = Suc p" "mem_index s' = (mem_index s)(ID e \<mapsto> p)"
      by (simp_all add: s'_eq heap_def p_def)
    ultimately show ?thesis using idx [of i q] by (auto simp: less_Suc_eq)
  qed
  moreover have "chain_sorted (mem_rows s')"
    unfolding rows using inv keys by (intro sorted_wrt_insort_key) (simp_all add: mem_inv_def)
  ultimately show ?thesis using rows by (simp add: mem_inv_def)
qed

subsection \<open>Flag updates\<close>

lemma mem_inv_heap_update:
  assumes "mem_inv s" and "length heap = length (mem_heap s)"
    and "\<And>q. q < length heap \<Longrightarrow> ev_key (heap ! q) = ev_key (mem_heap s ! q)"
  shows "mem_inv (s\<lparr>mem_heap := heap\<rparr>)"
proof -
  have ids: "ID (heap ! q) = ID (mem_heap s ! q)" if "q < length heap" for q
    using assms(3) [OF that] by (metis ev_key_sel(2))
  have "chain_sorted (map ((!) heap) (mem_ordered s)) \<longleftrightarrow> chain_sorted (mem_rows s)"
    unfolding mem_rows_def sorted_wrt_map using assms
    by (intro iffI; elim sorted_wrt_mono_rel [rotated]) (auto simp: mem_inv_def)
  then show ?thesis
    using assms(1,2) ids by (auto simp: mem_inv_def mem_rows_def)
qed

lemma mem_rows_heap_update:
  "mem_rows (s\<lparr>mem_heap := heap\<rparr>) = map ((!) heap) (mem_ordered s)"
  by (simp add: mem_rows_def)

lemma ev_key_flags [simp]:
  "ev_key (e\<lparr>Anchored := a\<rparr>) = ev_key e" "ev_key (e\<lparr>LegalHold := h\<rparr>) = ev_key e"
  by (simp_all add: ev_key_def)

lemma mem_hold_rows:
  assumes inv: "mem_inv s" and s': "EventStore_SetLegalHold i h s = (hr, s')"
  shows "mem_inv s' \<and> mem_rows s' = (if hr = None then map (hold_row i h) (mem_rows s) else mem_rows s)"
proof (cases "mem_index s i")
  case None
  then show ?thesis using inv s' by (auto simp: EventStore_SetLegalHold_def)
next
  case (Some p)
  note p = mem_index_Some [OF inv Some]
  then have s'_eq: "s' = s\<lparr>mem_heap := (mem_heap s)[p := (mem_heap s ! p)\<lparr>LegalHold := h\<rparr>]\<rparr>"
    and hr: "hr = None"
    using s' Some by (auto simp: EventStore_SetLegalHold_def)
  have "p < length (mem_heap s)" using inv p by (auto simp: mem_inv_def)
  then have "mem_inv s'"
    unfolding s'_eq using inv by (intro mem_inv_heap_update) (auto simp: nth_list_update)
  moreover have "ID (mem_heap s ! q) = i \<longleftrightarrow> q = p" if "q \<in> set (mem_ordered s)" for q
    using mem_index_row [OF inv that] Some p by (metis option.inject)
  then have "mem_rows s' = map (hold_row i h) (mem_rows s)"
    using inv p unfolding s'_eq mem_rows_heap_update
    by (auto simp: mem_rows_def hold_row_def nth_list_update mem_inv_def)
  ultimately show ?thesis using hr by simp
qed

lemma mark_guard: "TS e < t \<or> TS e = t \<and> ID e \<le> i \<longleftrightarrow> ev_key e \<le> Cursor t i"
  by (simp add: less_eq_cursor_def)

lemma mark_loop_spec:
  assumes "distinct ps" and "set ps \<subseteq> {..<length heap}"
  shows "mark_loop t i ps (heap, n) =
     (map (\<lambda>q. if q \<in> set ps then mark_upto (Cursor t i) (heap ! q) else heap ! q) [0..<length heap],
      n + int (length (filter (\<lambda>q. ev_key (heap ! q) \<le> Cursor t i \<and> \<not> Anchored (heap ! q)) ps)))"
  using assms
proof (induction ps arbitrary: heap n)
  case Nil
  show ?case by (simp add: map_nth)
next
  case (Cons p ps)
  have rest: "q = p \<or> q \<noteq> p" for q by blast
  show ?case
  proof (cases "ev_key (heap ! p) \<le> Cursor t i \<and> \<not> Anchored (heap ! p)")
    case True
    let ?heap = "heap[p := (heap ! p)\<lparr>Anchored := True\<rparr>]"
    have "mark_loop t i (p # ps) (heap, n) = mark_loop t i ps (?heap, n + 1)"
      using True by (simp add: Let_def mark_guard)
    also have "\<dots> = (map (\<lambda>q. if q \<in> set ps then mark_upto (Cursor t i) (?heap ! q) else ?heap ! q) [0..<length ?heap],
      n + 1 + int (length (filter (\<lambda>q. ev_key (?heap ! q) \<le> Cursor t i \<and> \<not> Anchored (?heap ! q)) ps)))"
      using Cons.prems by (intro Cons.IH) auto
    also have "filter (\<lambda>q. ev_key (?heap ! q) \<le> Cursor t i \<and> \<not> Anchored (?heap ! q)) ps =
      filter (\<lambda>q. ev_key (heap ! q) \<le> Cursor t i \<and> \<not> Anchored (heap ! q)) ps"
      using Cons.prems by (intro filter_cong) (auto simp: nth_list_update)
    finally show ?thesis
      using True Cons.prems by (auto simp: mark_upto_def nth_list_update)
  next
    case False
    then have "mark_loop t i (p # ps) (heap, n) = mark_loop t i ps (heap, n)"
      by (auto simp: Let_def mark_guard)
    moreover have "mark_upto (Cursor t i) (heap ! p) = heap ! p"
      using False by (cases "heap ! p") (auto simp: mark_upto_def)
    ultimately show ?thesis
      using False Cons.prems Cons.IH [of heap n] by auto
  qed
qed

lemma mem_mark_rows:
  assumes inv: "mem_inv s" and s': "EventStore_MarkAnchored t i s = (mr, s')"
  shows "mem_inv s' \<and> mem_rows s' = map (mark_upto (Cursor t i)) (mem_rows s) \<and>
     mr = Inr (int (length (filter (\<lambda>e. ev_key e \<le> Cursor t i \<and> \<not> Anchored e) (mem_rows s))))"
proof -
  let ?heap = "map (mark_upto (Cursor t i)) (mem_heap s)"
  have all: "set (mem_ordered s) = {..<length (mem_heap s)}" "distinct (mem_ordered s)"
    using inv by (auto simp: mem_inv_def)
  have "map (\<lambda>q. if q \<in> set (mem_ordered s) then mark_upto (Cursor t i) (mem_heap s ! q) else mem_heap s ! q)
      [0..<length (mem_heap s)] = ?heap"
    using all by (intro nth_equalityI) auto
  then have s'_eq: "s' = s\<lparr>mem_heap := ?heap\<rparr>" and
    mr: "mr = Inr (int (length (filter (\<lambda>q. ev_key (mem_heap s ! q) \<le> Cursor t i \<and>
        \<not> Anchored (mem_heap s ! q)) (mem_ordered s))))"
    using s' mark_loop_spec [OF all(2), of "mem_heap s" t i 0] all
    by (auto simp: EventStore_MarkAnchored_def)
  have "mem_inv s'"
    unfolding s'_eq using inv by (rule mem_inv_heap_update) (auto simp: mark_upto_def)
  moreover have "mem_rows s' = map (mark_upto (Cursor t i)) (mem_rows s)"
    using all unfolding s'_eq mem_rows_heap_update by (auto simp: mem_rows_def)
  ultimately show ?thesis
    using mr by (simp add: mem_rows_def filter_map comp_def)
qed

subsection \<open>Reads\<close>

lemma skip_row_iff: "skip_row f e \<longleftrightarrow> \<not> (selected f e \<and> after_cursor (f_Cursor f) e)"
  by (cases "f_Cursor f")
    (auto simp: skip_row_def selected_def in_window_def attrs_match_def after_cursor_def less_cursor_def)

lemma list_loop_take:
  assumes "length out < limit"
  shows "list_loop heap f limit ps out =
     out @ take (limit - length out) (filter (\<lambda>e. \<not> skip_row f e) (map ((!) heap) ps))"
  using assms
proof (induction ps arbitrary: out)
  case (Cons p ps)
  show ?case
  proof (cases "length (out @ [heap ! p]) \<ge> limit")
    case True
    with Cons.prems have one: "limit - length out = Suc 0" by simp
    show ?thesis
      using Cons.IH [OF Cons.prems] True by (simp add: one del: length_append)
  next
    case False
    then have "length (out @ [heap ! p]) < limit" by simp
    from Cons.IH [OF this] Cons.IH [OF Cons.prems] False show ?thesis
      by (simp add: take_Cons' del: length_append) (simp add: Suc_diff_le)
  qed
qed simp

lemma mem_list_page:
  assumes "EventStore_List f s = Inr res"
    and "sel = filter (\<lambda>e. selected f e \<and> after_cursor (f_Cursor f) e) (mem_rows s)"
  shows "lr_Events res = take (page_limit f) sel"
    and "lr_NextCursor res =
      (if page_limit f \<le> length sel then ev_key (last (take (page_limit f) sel)) else no_cursor)"
proof -
  let ?out = "list_loop (mem_heap s) f (page_limit f) (mem_ordered s) []"
  have out: "?out = take (page_limit f) sel"
    by (simp add: list_loop_take assms(2) mem_rows_def skip_row_iff)
  have res: "res = \<lparr>lr_Events = ?out, lr_NextCursor =
      (if length ?out \<ge> page_limit f \<and> length ?out > 0
       then Cursor (TS (?out ! (length ?out - 1))) (ID (?out ! (length ?out - 1))) else no_cursor)\<rparr>"
    using assms(1) unfolding EventStore_List_def Let_def page_limit_def by simp
  show "lr_Events res = take (page_limit f) sel" by (simp add: res out)
  show "lr_NextCursor res =
      (if page_limit f \<le> length sel then ev_key (last (take (page_limit f) sel)) else no_cursor)"
    using page_limit_pos [of f]
    by (auto simp: res out ev_key_def last_conv_nth simp del: page_limit_pos)
qed

lemma mem_chain_head:
  "EventStore_ChainHead s = Inr (if mem_rows s = [] then None else Some (last (mem_rows s)))"
  by (simp add: EventStore_ChainHead_def mem_rows_def last_map last_conv_nth)

lemma mem_get_row:
  assumes "mem_inv s"
  shows "e \<in> set (mem_rows s) \<Longrightarrow> EventStore_Get (ID e) s = Inr e"
    and "i \<notin> ID ` set (mem_rows s) \<Longrightarrow> EventStore_Get i s = Inl (StoreErrNotFound i)"
proof -
  assume "e \<in> set (mem_rows s)"
  then obtain p where "p \<in> set (mem_ordered s)" "e = mem_heap s ! p" by (auto simp: mem_rows_def)
  then show "EventStore_Get (ID e) s = Inr e"
    using mem_index_row [OF assms] by (simp add: EventStore_Get_def)
next
  assume "i \<notin> ID ` set (mem_rows s)"
  then show "EventStore_Get i s = Inl (StoreErrNotFound i)"
    using mem_index_None [OF assms, of i] by (simp add: EventStore_Get_def)
qed

lemmas mem_store_defs = mem_event_store_def event_store.simps

subsection \<open>The contract\<close>

interpretation mem: reliable_event_store mem_event_store mem_inv mem_rows
proof (unfold_locales, goal_cases)
  case (1 s)
  then show ?case by (simp add: mem_inv_def)
next
  case (2 s)
  then show ?case by (rule mem_rows_distinct)
next
  case (3 s e r s')
  show ?case
  proof (cases "mem_index s (ID e)")
    case None
    with mem_insert_rows [OF 3(1) None] 3 mem_index_None [OF 3(1), of "ID e"] show ?thesis
      by (auto simp: mem_store_defs EventStore_Insert_def Let_def)
  next
    case (Some p)
    with 3 mem_index_None [OF 3(1), of "ID e"] show ?thesis
      by (auto simp: mem_store_defs EventStore_Insert_def)
  qed
next
  case (4 s i e)
  then show ?case
    using mem_index_Some by (auto simp: mem_store_defs EventStore_Get_def split: option.splits)
next
  case (5 s hd_row)
  then show ?case by (simp add: mem_store_defs mem_chain_head)
next
  case (6 s f res sel)
  then have "EventStore_List f s = Inr res" by (simp add: mem_store_defs)
  from mem_list_page [OF this 6(3)] show ?case
    using page_limit_pos [of f] by (cases "sel = []") (auto simp del: page_limit_pos)
next
  case (7 s i h hr s')
  then show ?case using mem_hold_rows [of s i h hr s'] by (simp add: mem_store_defs)
next
  case (8 s t i mr s')
  then show ?case using mem_mark_rows [of s t i mr s'] by (simp add: mem_store_defs)
next
  case (9 s e)
  show ?case by (simp add: mem_store_defs EventStore_Insert_def Let_def split: option.split)
next
  case (10 s e)
  then show ?case by (simp add: mem_store_defs mem_get_row)
next
  case (11 s i)
  then show ?case by (simp add: mem_store_defs mem_get_row)
next
  case (12 s f)
  show ?case by (simp add: mem_store_defs EventStore_List_def Let_def)
next
  case (13 s)
  show ?case by (simp add: mem_store_defs mem_chain_head)
qed

section \<open>Properties\<close>

text \<open>
  C10: inserting into the in-memory store refines insertion into the sorted list of rows.
  The heap, the id map and the ordered slice stay consistent; the result says whether the id
  was new; a new row goes to its place in (ts, id) order, and a re-delivered id changes
  nothing.
\<close>

theorem memstore_Insert_refines:
  assumes "mem_inv s" and "EventStore_Insert e s = (r, s')"
  shows "mem_inv s' \<and> r = Inr (ID e \<notin> ID ` set (mem_rows s)) \<and>
    mem_rows s' =
      (if ID e \<in> ID ` set (mem_rows s) then mem_rows s else insort_key ev_key e (mem_rows s))"
  using mem.Insert_contract [OF assms(1), of e r s'] mem.Insert_total [OF assms(1), of e] assms(2)
  by (auto simp: mem_store_defs split: sum.splits)

lemma NewEventStore_Insert:
  "fst (EventStore_Insert e NewEventStore) = Inr True"
  "mem_inv (snd (EventStore_Insert e NewEventStore))"
  "mem_rows (snd (EventStore_Insert e NewEventStore)) = [e]"
  using mem_insert_rows [OF NewEventStore_inv _ prod.collapse [symmetric], of e]
  by (simp_all add: EventStore_Insert_def Let_def) (simp_all add: NewEventStore_def)

theorem memstore_Insert_refines_witness:
  "mem_rows (snd (EventStore_Insert (sample_row 7 ''b'')
     (snd (EventStore_Insert (sample_row 9 ''a'') NewEventStore)))) =
   [sample_row 7 ''b'', sample_row 9 ''a'']"
  using memstore_Insert_refines [OF NewEventStore_Insert(2) prod.collapse [symmetric],
      of "sample_row 7 ''b''" "sample_row 9 ''a''"]
  by (simp add: NewEventStore_Insert less_eq_cursor_def)

text \<open>
  The in-memory store is append-only. Whatever sequence of its mutators runs, no row
  disappears and none of its columns but the two flags changes; the \<open>Anchored\<close> flag is never
  reset.
\<close>

theorem memstore_append_only:
  assumes "store_reach mem_event_store s s'" and "mem_inv s" and "e \<in> set (mem_rows s)"
  shows "\<exists>e' \<in> set (mem_rows s').
    immutable_view e' = immutable_view e \<and> (Anchored e \<longrightarrow> Anchored e')"
  using mem.store_reach_append_only [OF assms] by (simp add: row_kept_def)

theorem memstore_append_only_witness:
  "\<exists>e' \<in> set (mem_rows (snd (EventStore_SetLegalHold ''a'' True
      (snd (EventStore_Insert (sample_row 9 ''a'') NewEventStore))))).
    immutable_view e' = immutable_view (sample_row 9 ''a'')"
proof -
  let ?s = "snd (EventStore_Insert (sample_row 9 ''a'') NewEventStore)"
  have "es_SetLegalHold mem_event_store ''a'' True ?s =
      (fst (EventStore_SetLegalHold ''a'' True ?s), snd (EventStore_SetLegalHold ''a'' True ?s))"
    by (simp add: mem_store_defs)
  then have "store_reach mem_event_store ?s (snd (EventStore_SetLegalHold ''a'' True ?s))"
    by (rule reach_SetLegalHold [OF reach_start])
  from memstore_append_only [OF this NewEventStore_Insert(2), of "sample_row 9 ''a''"]
  show ?thesis by (auto simp: NewEventStore_Insert)
qed

text \<open>
  A listing of the in-memory store is the next page of the selected rows: the first
  \<open>page_limit\<close> rows, in chain order, that the filter selects strictly after the cursor. The
  returned cursor is the key of the last row of a full page, and is empty otherwise.
\<close>

theorem memstore_List_page:
  "EventStore_List f s = Inr res \<longleftrightarrow>
    (let sel = filter (\<lambda>e. selected f e \<and> after_cursor (f_Cursor f) e) (mem_rows s) in
     res = \<lparr>lr_Events = take (page_limit f) sel,
       lr_NextCursor =
         (if page_limit f \<le> length sel then ev_key (last (take (page_limit f) sel)) else no_cursor)\<rparr>)"
proof -
  obtain r where r: "EventStore_List f s = Inr r" by (simp add: EventStore_List_def Let_def)
  from mem_list_page [OF r refl] show ?thesis by (auto simp: r Let_def)
qed

text \<open>
  C13: walking the in-memory store page by page, as the sweep and the export do, ends, and
  collects exactly the rows the filter selects, each once and in chain order, however many
  pages there are.
\<close>

theorem memstore_pagination_complete:
  assumes "mem_inv s" and "\<And>i. ctx i = None" and "\<forall>e \<in> set (mem_rows s). \<not> IsZero (TS e)"
    and "f_Cursor f = no_cursor"
  shows "collect_pages mem_event_store s ctx f 0 [] = Some (Inr (filter (selected f) (mem_rows s)))"
  by (rule mem.collect_pages_complete [OF assms(1) TrueI assms(2-4)])

theorem memstore_pagination_complete_witness:
  "collect_pages mem_event_store (snd (EventStore_Insert (sample_row 9 ''a'') NewEventStore))
     (\<lambda>_. None) (zero_filter\<lparr>f_Limit := 1\<rparr>) 0 [] = Some (Inr [sample_row 9 ''a''])"
  using memstore_pagination_complete [OF NewEventStore_Insert(2), of "\<lambda>_. None" "sample_row 9 ''a''"
      "zero_filter\<lparr>f_Limit := 1\<rparr>"]
  by (simp add: NewEventStore_Insert zero_filter_def selected_def in_window_def attrs_match_def)

text \<open>
  \<^verbatim>\<open>MarkAnchored\<close> sets the flag of exactly the rows up to the given key, through the
  shared objects, and returns how many of them were not anchored before.
\<close>

theorem memstore_MarkAnchored:
  assumes "mem_inv s" and "EventStore_MarkAnchored t i s = (r, s')"
  shows "mem_inv s' \<and>
    mem_rows s' = map (\<lambda>e. if ev_key e \<le> Cursor t i then e\<lparr>Anchored := True\<rparr> else e) (mem_rows s) \<and>
    r = Inr (int (length (filter (\<lambda>e. ev_key e \<le> Cursor t i \<and> \<not> Anchored e) (mem_rows s))))"
  using mem_mark_rows [OF assms] by (simp add: mark_upto_def cong: map_cong)

theorem memstore_MarkAnchored_witness:
  "fst (EventStore_MarkAnchored 9 ''a'' (snd (EventStore_Insert (sample_row 9 ''a'') NewEventStore))) = Inr 1"
  using memstore_MarkAnchored [OF NewEventStore_Insert(2) prod.collapse [symmetric],
      of 9 "''a''" "sample_row 9 ''a''"]
  by (simp add: NewEventStore_Insert)

text \<open>
  \<^verbatim>\<open>ListAnchors\<close> returns the anchors of the closed window, in the order of their anchoring
  time, anchors of the same time in the order they were inserted.
\<close>

theorem ListAnchors_sorted_window:
  "AnchorStore_ListAnchors from_ts to_ts s =
     Inr (sort_key an_AnchoredAt
       (filter (\<lambda>a. (IsZero from_ts \<or> from_ts \<le> an_AnchoredAt a) \<and>
          (IsZero to_ts \<or> an_AnchoredAt a \<le> to_ts)) s))"
proof -
  have "anchors_loop from_ts to_ts s out =
     out @ filter (\<lambda>a. (IsZero from_ts \<or> from_ts \<le> an_AnchoredAt a) \<and>
       (IsZero to_ts \<or> an_AnchoredAt a \<le> to_ts)) s" for out
    by (induction s arbitrary: out) auto
  then show ?thesis
    by (simp add: AnchorStore_ListAnchors_def SliceStable_key [where f = an_AnchoredAt])
qed

lemma newest_loop_rev:
  assumes "i \<le> length items"
  shows "newest_loop items limit i out = out @ take (nat (limit - int (length out))) (rev (take i items))"
  using assms
proof (induction i arbitrary: out)
  case (Suc i)
  then have rev_take: "rev (take (Suc i) items) = items ! i # rev (take i items)"
    by (simp add: take_Suc_conv_app_nth)
  show ?case
  proof (cases "int (length out) < limit")
    case True
    then have "nat (limit - int (length out)) = Suc (nat (limit - int (length (out @ [items ! i]))))"
      by simp
    then show ?thesis using True Suc by (simp only: rev_take take_Suc_Cons) simp
  next
    case False
    then show ?thesis by simp
  qed
qed simp

text \<open>
  The dead-letter store lists the newest rejections first, at most \<open>limit\<close> of them, or
  all when the limit is not positive.
\<close>

theorem dead_letters_newest_first:
  "DeadLetterStore_List limit s =
     Inr (if limit \<le> 0 then rev s else take (nat limit) (rev s))"
  by (auto simp: DeadLetterStore_List_def Let_def newest_loop_rev)

text \<open>
  An export job is created once and then only changed by \<^verbatim>\<open>UpdateJob\<close>, which fails on
  an unknown id, writes the six result columns of exactly that job, and leaves the request
  (query, format, retention, creation time) and every other job alone.
\<close>

theorem export_job_updates:
  "snd (ExportJobStore_UpdateJob i u s) =
     (case s i of None \<Rightarrow> s
      | Some j \<Rightarrow> s(i \<mapsto> j\<lparr>ej_Status := ju_Status u, ej_RowCount := ju_RowCount u,
          ej_PayloadRef := ju_PayloadRef u, ej_ChainRoot := ju_ChainRoot u,
          ej_AnchorID := ju_AnchorID u,
          ej_CompletedAt := (if IsZero (ju_CompletedAt u) then ej_CompletedAt j else ju_CompletedAt u)\<rparr>)) \<and>
   (fst (ExportJobStore_UpdateJob i u s) = None \<longleftrightarrow> s i \<noteq> None) \<and>
   fst (ExportJobStore_CreateJob env j s) = None \<and>
   snd (ExportJobStore_CreateJob env j s) (ej_ID j) =
     Some (case s (ej_ID j) of Some old \<Rightarrow> old
       | None \<Rightarrow> j\<lparr>ej_CreatedAt := (if IsZero (ej_CreatedAt j) then oe_Now env else ej_CreatedAt j)\<rparr>)"
  by (auto simp: ExportJobStore_UpdateJob_def ExportJobStore_CreateJob_def Let_def split: option.split)

end
