(* ===== verification/Chain.thy ===== *)
theory Chain
  imports Audit_Event Memstore
begin

text \<open>
  internal/chain/chain.go: the canonical encoding and hash of an event, verification of one
  link and of a chain, the anchor job, the sweep and the Merkle root.

  The hash state is the bytes written to it so far, so \<open>CanonicalMessage\<close> is what
  \<^verbatim>\<open>CanonicalHash\<close> feeds to SHA-256. A nil byte slice is told from an empty one only where
  the code does: the \<^verbatim>\<open>prev\<close> of \<^verbatim>\<open>VerifyEvent\<close>; a nil root is \<open>[]\<close>.
\<close>

definition ZeroHash :: bytes where
  "ZeroHash = replicate 32 0"

lemma length_ZeroHash [simp]: "length ZeroHash = 32"
  by (simp add: ZeroHash_def)

section \<open>The canonical hash\<close>

definition writeStr :: "bytes \<Rightarrow> string \<Rightarrow> bytes" where
  "writeStr h s = (let lenBuf = be32 (of_nat (length s)) in (h @ lenBuf) @ bytes_of_string s)"

definition writeBytes :: "bytes \<Rightarrow> bytes \<Rightarrow> bytes" where
  "writeBytes h b = (let lenBuf = be32 (of_nat (length b)) in (h @ lenBuf) @ b)"

definition writeTime :: "bytes \<Rightarrow> time \<Rightarrow> bytes" where
  "writeTime h ts = h @ be64 (UnixNano ts)"

definition CanonicalMessage ::
  "string \<Rightarrow> time \<Rightarrow> string \<Rightarrow> string \<Rightarrow> string \<Rightarrow> string \<Rightarrow> string \<Rightarrow> bytes \<Rightarrow> bytes \<Rightarrow> bytes" where
  "CanonicalMessage i ts sourceService actorID action targetType targetID payloadHash prevHash =
     (let h = [];
          h = writeStr h i;
          h = writeTime h ts;
          h = writeStr h sourceService;
          h = writeStr h actorID;
          h = writeStr h action;
          h = writeStr h targetType;
          h = writeStr h targetID;
          h = writeBytes h payloadHash;
          h = writeBytes h prevHash
      in h)"

definition CanonicalHash ::
  "string \<Rightarrow> time \<Rightarrow> string \<Rightarrow> string \<Rightarrow> string \<Rightarrow> string \<Rightarrow> string \<Rightarrow> bytes \<Rightarrow> bytes \<Rightarrow> bytes" where
  "CanonicalHash i ts sourceService actorID action targetType targetID payloadHash prevHash =
     sha256 (CanonicalMessage i ts sourceService actorID action targetType targetID payloadHash prevHash)"

definition EventHash :: "event \<Rightarrow> bytes" where
  "EventHash e = CanonicalHash (ID e) (TS e) (SourceService e) (ActorID e) (Action e)
     (TargetType e) (TargetID e) (PayloadHash e) (PrevHash e)"

definition EventHashFromEnvelope :: "envelope \<Rightarrow> bytes \<Rightarrow> bytes result" where
  "EventHashFromEnvelope ev prevHash =
     (case DecodeHashToBytes (env_PayloadHash ev) of
        Inl err \<Rightarrow> Inl (ErrWrap ''chain: payload_hash: '' err)
      | Inr payloadHash \<Rightarrow> Inr (CanonicalHash (env_ID ev) (env_TS ev) (env_SourceService ev)
          (env_ActorID ev) (env_Action ev) (env_TargetType ev) (env_TargetID ev) payloadHash prevHash))"

definition HashHex :: "bytes \<Rightarrow> string" where
  "HashHex b = (if length b \<noteq> 32 then '''' else HashPrefix @ hex_EncodeToString b)"

definition ParseHash :: "string \<Rightarrow> bytes result" where
  "ParseHash s = DecodeHashToBytes s"

fun bytes_differ_from :: "bytes \<Rightarrow> bytes \<Rightarrow> bool" where
  "bytes_differ_from (x # a) (y # b) = (if x \<noteq> y then True else bytes_differ_from a b)"
| "bytes_differ_from _ _ = False"

definition bytesEqual :: "bytes \<Rightarrow> bytes \<Rightarrow> bool" where
  "bytesEqual a b = (if length a \<noteq> length b then False else \<not> bytes_differ_from a b)"

lemma bytesEqual_iff [simp]: "bytesEqual a b \<longleftrightarrow> a = b"
proof -
  have "length a = length b \<Longrightarrow> bytes_differ_from a b \<longleftrightarrow> a \<noteq> b"
    by (induction a b rule: list_induct2) auto
  then show ?thesis by (auto simp: bytesEqual_def)
qed

section \<open>Verification\<close>

datatype verify_status = StatusOK | StatusBroken | StatusGap

fun status_text :: "verify_status \<Rightarrow> string" where
  "status_text StatusOK = ''ok''"
| "status_text StatusBroken = ''broken''"
| "status_text StatusGap = ''gap''"

record verify_result =
  vr_Event :: "event option"
  vr_PrevHash :: "bytes option"
  vr_ThisHash :: bytes
  vr_Computed :: bytes
  vr_Status :: verify_status
  vr_Reason :: string

definition VerifyEvent :: "event \<Rightarrow> bytes option \<Rightarrow> verify_result" where
  "VerifyEvent e prev =
     (let computed = EventHash e;
          res = \<lparr>vr_Event = Some e, vr_PrevHash = prev, vr_ThisHash = ThisHash e,
                 vr_Computed = computed, vr_Status = StatusOK, vr_Reason = ''''\<rparr>
      in if \<not> bytesEqual computed (ThisHash e) then
           res\<lparr>vr_Status := StatusBroken,
               vr_Reason := ''stored this_hash does not match recomputed hash''\<rparr>
         else if (case prev of None \<Rightarrow> False | Some p \<Rightarrow> \<not> bytesEqual p (PrevHash e)) then
           res\<lparr>vr_Status := StatusGap, vr_Reason := ''prev_hash linkage broken''\<rparr>
         else res\<lparr>vr_Status := StatusOK\<rparr>)"

definition ok_result :: verify_result where
  "ok_result = \<lparr>vr_Event = None, vr_PrevHash = None, vr_ThisHash = [], vr_Computed = [],
     vr_Status = StatusOK, vr_Reason = ''''\<rparr>"

text \<open>The loop of \<^verbatim>\<open>VerifyChain\<close>: the index and the running \<^verbatim>\<open>prev\<close>; \<open>Inr\<close> is its exit.\<close>

fun verify_loop :: "nat \<Rightarrow> bytes \<Rightarrow> event list \<Rightarrow> verify_result + bytes" where
  "verify_loop i prev [] = Inr prev"
| "verify_loop i prev (e # es) =
     (let expectedPrev = (if i = 0 then None else Some prev);
          res = VerifyEvent e expectedPrev
      in if vr_Status res \<noteq> StatusOK then Inl res else verify_loop (Suc i) (ThisHash e) es)"

definition VerifyChain :: "event list \<Rightarrow> verify_result \<times> bytes" where
  "VerifyChain events =
     (case verify_loop 0 ZeroHash events of
        Inl res \<Rightarrow> (res, [])
      | Inr prev \<Rightarrow> if length events = 0 then (ok_result, ZeroHash) else (ok_result, prev))"

section \<open>The anchor job\<close>

record ('s, 'a) anchor_job =
  aj_Events :: "'s event_store"
  aj_Anchors :: "'a anchor_store"
  aj_Signer :: "bytes \<Rightarrow> (bytes \<times> string) result"
  aj_NotaryURL :: string
  aj_EventCount :: "int option"

text \<open>
  \<^verbatim>\<open>EventCount\<close> is a function field that may be nil; its error is ignored, so it is the
  count it returns, if it is set. The stores are returned with the result, since a failure
  late in the job leaves what was written before it.
\<close>

definition AnchorJob_Run ::
  "('s, 'a) anchor_job \<Rightarrow> op_env \<Rightarrow> 's \<Rightarrow> 'a \<Rightarrow> anchor result \<times> 's \<times> 'a" where
  "AnchorJob_Run a env s t =
     (case es_ChainHead (aj_Events a) s of
        Inl err \<Rightarrow> (Inl (ErrWrap ''chain: anchor: chain head: '' err), s, t)
      | Inr None \<Rightarrow> (Inl ErrEmptyChain, s, t)
      | Inr (Some head) \<Rightarrow>
         let root = ThisHash head in
         if length root \<noteq> 32 then
           (Inl (ErrMsg (''chain: anchor: bad root hash '' @ hex_EncodeToString root)), s, t)
         else
           let count = (case aj_EventCount a of Some n \<Rightarrow> n | None \<Rightarrow> 1) in
           case aj_Signer a root of
             Inl err \<Rightarrow> (Inl (ErrWrap ''chain: anchor: sign: '' err), s, t)
           | Inr (sig, keyID) \<Rightarrow>
              let anchor = \<lparr>an_ID = '''', an_AnchoredAt = 0, an_RootHash = root,
                    an_LastEventID = ID head, an_LastEventTS = TS head, an_Signature = sig,
                    an_KMSKeyID = keyID, an_NotaryURL = aj_NotaryURL a, an_EventCount = count\<rparr>
              in case as_InsertAnchor (aj_Anchors a) env anchor t of
                (Inl err, t') \<Rightarrow> (Inl (ErrWrap ''chain: anchor: insert: '' err), s, t')
              | (Inr i, t') \<Rightarrow>
                 (case es_MarkAnchored (aj_Events a) (TS head) (ID head) s of
                    (Inl err, s') \<Rightarrow> (Inl (ErrWrap ''chain: anchor: mark anchored: '' err), s', t')
                  | (Inr _, s') \<Rightarrow> (Inr (anchor\<lparr>an_ID := i\<rparr>), s', t')))"

section \<open>The sweep\<close>

record report =
  rp_From :: time
  rp_To :: time
  rp_EventCount :: int
  rp_Status :: verify_status
  rp_FirstBroken :: string
  rp_Position :: int
  rp_Reason :: string
  rp_RootHash :: string
  rp_AnchorCount :: int
  rp_CheckedAnchors :: int
  rp_AnchorMismatches :: int
  rp_Signature :: string
  rp_SignedAt :: time
  rp_KeyID :: string

text \<open>The search for the broken event: \<^verbatim>\<open>Position\<close> stays 0 when no id matches.\<close>

fun position_of :: "string \<Rightarrow> int \<Rightarrow> event list \<Rightarrow> int" where
  "position_of i n [] = 0"
| "position_of i n (e # es) = (if ID e = i then n + 1 else position_of i (n + 1) es)"

definition anchor_mismatch :: "'s event_store \<Rightarrow> 's \<Rightarrow> anchor \<Rightarrow> bool" where
  "anchor_mismatch ops s a =
     (case es_Get ops (an_LastEventID a) s of
        Inl err \<Rightarrow> True
      | Inr head \<Rightarrow> length (an_RootHash a) = 32 \<and> \<not> bytesEqual (an_RootHash a) (ThisHash head))"

fun check_anchors :: "'s event_store \<Rightarrow> 's \<Rightarrow> anchor list \<Rightarrow> int \<Rightarrow> int" where
  "check_anchors ops s [] n = n"
| "check_anchors ops s (a # as) n =
     check_anchors ops s as (if anchor_mismatch ops s a then n + 1 else n)"

text \<open>The part of \<^verbatim>\<open>Sweep\<close> after the collection loop.\<close>

definition sweep_report ::
  "'s event_store \<Rightarrow> 's \<Rightarrow> ('a anchor_store \<times> 'a) option \<Rightarrow> time \<Rightarrow> time \<Rightarrow>
   (bytes \<Rightarrow> (bytes \<times> string) result) option \<Rightarrow> time \<Rightarrow> event list \<Rightarrow> report" where
  "sweep_report ops s anchors from_ts to_ts signer now all =
     (let r = \<lparr>rp_From = from_ts, rp_To = to_ts, rp_EventCount = int (length all),
            rp_Status = StatusOK, rp_FirstBroken = '''', rp_Position = 0, rp_Reason = '''',
            rp_RootHash = '''', rp_AnchorCount = 0, rp_CheckedAnchors = 0,
            rp_AnchorMismatches = 0, rp_Signature = '''', rp_SignedAt = 0, rp_KeyID = ''''\<rparr>;
          (vres, root) = VerifyChain all;
          r = (if vr_Status vres \<noteq> StatusOK then
                 let r = r\<lparr>rp_Status := vr_Status vres, rp_Reason := vr_Reason vres\<rparr> in
                 (case vr_Event vres of None \<Rightarrow> r
                  | Some e \<Rightarrow> r\<lparr>rp_FirstBroken := ID e, rp_Position := position_of (ID e) 0 all\<rparr>)
               else r);
          r = (if length root = 32 then r\<lparr>rp_RootHash := HashHex root\<rparr> else r);
          r = (case anchors of None \<Rightarrow> r
               | Some (aops, t) \<Rightarrow>
                  (case as_ListAnchors aops from_ts to_ts t of
                     Inl err \<Rightarrow> r
                   | Inr anchs \<Rightarrow> r\<lparr>rp_AnchorCount := int (length anchs),
                       rp_CheckedAnchors := int (length anchs),
                       rp_AnchorMismatches := check_anchors ops s anchs 0\<rparr>));
          r = (case signer of None \<Rightarrow> r
               | Some sign \<Rightarrow>
                  if length root = 32 then
                    (case sign root of
                       Inl err \<Rightarrow> r
                     | Inr (sig, keyID) \<Rightarrow> r\<lparr>rp_Signature := ''sig:'' @ hex_EncodeToString sig,
                         rp_KeyID := keyID, rp_SignedAt := now\<rparr>)
                  else r)
      in r)"

definition Sweep ::
  "'s event_store \<Rightarrow> 's \<Rightarrow> ('a anchor_store \<times> 'a) option \<Rightarrow> time \<Rightarrow> time \<Rightarrow>
   (bytes \<Rightarrow> (bytes \<times> string) result) option \<Rightarrow> (nat \<Rightarrow> go_error option) \<Rightarrow> time \<Rightarrow>
   report result option" where
  "Sweep ops s anchors from_ts to_ts signer ctx now =
     (case collect_pages ops s ctx
        (zero_filter\<lparr>f_From := from_ts, f_To := to_ts, f_Limit := 1000\<rparr>) 0 [] of
        None \<Rightarrow> None
      | Some (Inl (CtxDone err)) \<Rightarrow> Some (Inl err)
      | Some (Inl (ListFailed err)) \<Rightarrow> Some (Inl (ErrWrap ''chain: sweep: list: '' err))
      | Some (Inr all) \<Rightarrow> Some (Inr (sweep_report ops s anchors from_ts to_ts signer now all)))"

section \<open>The Merkle root\<close>

text \<open>One pass over a level: pairs are hashed, an odd last hash is promoted.\<close>

fun merkle_level :: "bytes list \<Rightarrow> bytes list" where
  "merkle_level [] = []"
| "merkle_level [x] = [x]"
| "merkle_level (x # y # xs) = sha256 (x @ y) # merkle_level xs"

lemma length_merkle_level [simp]: "length (merkle_level xs) = (length xs + 1) div 2"
  by (induction xs rule: merkle_level.induct) auto

function merkle_loop :: "bytes list \<Rightarrow> bytes" where
  "merkle_loop current = (if length current > 1 then merkle_loop (merkle_level current) else current ! 0)"
  by pat_completeness auto
termination
  by (relation "measure length") auto

declare merkle_loop.simps [simp del]

definition MerkleRoot :: "bytes list \<Rightarrow> bytes" where
  "MerkleRoot hashes =
     (if length hashes = 0 then ZeroHash
      else if length hashes = 1 then hashes ! 0
      else merkle_loop hashes)"

section \<open>The encoding is injective\<close>

text \<open>
  The columns the hash covers, the time as the 64 bits that are written. Two encodable rows
  (every field shorter than \<open>2 ^ 32\<close> bytes, so that the length prefix is exact) have the
  same message only if these columns agree.
\<close>

definition covered :: "event \<Rightarrow>
    string \<times> 64 word \<times> string \<times> string \<times> string \<times> string \<times> string \<times> bytes \<times> bytes" where
  "covered e = (ID e, UnixNano (TS e), SourceService e, ActorID e, Action e, TargetType e,
     TargetID e, PayloadHash e, PrevHash e)"

definition EventMessage :: "event \<Rightarrow> bytes" where
  "EventMessage e = CanonicalMessage (ID e) (TS e) (SourceService e) (ActorID e) (Action e)
     (TargetType e) (TargetID e) (PayloadHash e) (PrevHash e)"

abbreviation fits :: "'x list \<Rightarrow> bool" where
  "fits x \<equiv> length x < 4294967296"

definition encodable :: "event \<Rightarrow> bool" where
  "encodable e \<longleftrightarrow> fits (ID e) \<and> fits (SourceService e) \<and> fits (ActorID e) \<and> fits (Action e) \<and>
     fits (TargetType e) \<and> fits (TargetID e) \<and> fits (PayloadHash e) \<and> fits (PrevHash e)"

lemma EventHash_message [chain_simps]: "EventHash e = sha256 (EventMessage e)"
  by (simp add: EventHash_def CanonicalHash_def EventMessage_def)

lemma length_EventHash [simp]: "length (EventHash e) = 32"
  by (simp add: EventHash_message)

lemma of_nat_word32_eq:
  "m < 4294967296 \<Longrightarrow> n < 4294967296 \<Longrightarrow> (of_nat m :: 32 word) = of_nat n \<longleftrightarrow> m = n"
  by (simp add: word_of_nat_eq_iff take_bit_nat_eq_self)

lemma prefixed_bytes_inject:
  assumes "fits a" and "fits b"
  shows "be32 (of_nat (length a)) @ a @ r = be32 (of_nat (length b)) @ b @ r' \<longleftrightarrow> a = b \<and> r = r'"
proof
  assume eq: "be32 (of_nat (length a)) @ a @ r = be32 (of_nat (length b)) @ b @ r'"
  have split: "be32 (of_nat (length a)) = be32 (of_nat (length b)) \<and> a @ r = b @ r'"
    by (rule append_eq_append_conv [THEN iffD1, OF _ eq]) simp
  then have rest: "a @ r = b @ r'" and "be32 (of_nat (length a)) = be32 (of_nat (length b))"
    by blast+
  then have "length a = length b" using assms by (simp add: of_nat_word32_eq)
  with rest show "a = b \<and> r = r'" by simp
qed simp

lemma prefixed_string_inject:
  assumes "fits s" and "fits t"
  shows "be32 (of_nat (length s)) @ bytes_of_string s @ r =
      be32 (of_nat (length t)) @ bytes_of_string t @ r' \<longleftrightarrow> s = t \<and> r = r'"
  using prefixed_bytes_inject [of "bytes_of_string s" "bytes_of_string t" r r'] assms by simp

lemma be64_prefix_inject: "be64 v @ r = be64 w @ r' \<longleftrightarrow> v = w \<and> r = r'"
  by (metis append_eq_append_conv be64_inject length_be64)

lemma EventMessage_append:
  "EventMessage e =
     be32 (of_nat (length (ID e))) @ bytes_of_string (ID e) @
     be64 (UnixNano (TS e)) @
     be32 (of_nat (length (SourceService e))) @ bytes_of_string (SourceService e) @
     be32 (of_nat (length (ActorID e))) @ bytes_of_string (ActorID e) @
     be32 (of_nat (length (Action e))) @ bytes_of_string (Action e) @
     be32 (of_nat (length (TargetType e))) @ bytes_of_string (TargetType e) @
     be32 (of_nat (length (TargetID e))) @ bytes_of_string (TargetID e) @
     be32 (of_nat (length (PayloadHash e))) @ PayloadHash e @
     be32 (of_nat (length (PrevHash e))) @ PrevHash e @ []"
  by (simp add: EventMessage_def CanonicalMessage_def writeStr_def writeTime_def writeBytes_def Let_def)

lemma EventMessage_covered_iff:
  assumes "encodable e" and "encodable e'"
  shows "EventMessage e = EventMessage e' \<longleftrightarrow> covered e = covered e'"
  using assms unfolding EventMessage_append encodable_def covered_def
  by (simp only: prefixed_string_inject prefixed_bytes_inject be64_prefix_inject prod.inject simp_thms)

section \<open>Accepted chains\<close>

text \<open>\<open>linked\<close> is what an accepted chain satisfies: own hashes right, links right.\<close>

definition linked :: "event list \<Rightarrow> bool" where
  "linked es \<longleftrightarrow> (\<forall>i < length es. ThisHash (es ! i) = EventHash (es ! i) \<and>
     (0 < i \<longrightarrow> PrevHash (es ! i) = ThisHash (es ! (i - 1))))"

lemma linked_Nil [simp]: "linked []"
  by (simp add: linked_def)

lemma linked_snoc:
  "linked (es @ [e]) \<longleftrightarrow> linked es \<and> ThisHash e = EventHash e \<and>
     (es \<noteq> [] \<longrightarrow> PrevHash e = ThisHash (last es))"
proof -
  have last: "es \<noteq> [] \<Longrightarrow> last es = es ! (length es - 1)" by (simp add: last_conv_nth)
  show ?thesis
    by (auto simp: linked_def nth_append less_Suc_eq last)
qed

lemma linked_drop: "linked es \<Longrightarrow> linked (drop k es)"
  by (auto simp: linked_def add.commute)

lemma linked_Suc: "linked es \<Longrightarrow> Suc i < length es \<Longrightarrow> PrevHash (es ! Suc i) = ThisHash (es ! i)"
  unfolding linked_def by (metis diff_Suc_1 zero_less_Suc)

lemma VerifyEvent_status:
  "vr_Status (VerifyEvent e prev) =
     (if EventHash e \<noteq> ThisHash e then StatusBroken
      else if prev \<noteq> None \<and> the prev \<noteq> PrevHash e then StatusGap else StatusOK)"
  "vr_Event (VerifyEvent e prev) = Some e"
  by (auto simp: VerifyEvent_def Let_def split: option.split)

lemma VerifyEvent_reason:
  "vr_Reason (VerifyEvent e prev) =
     (if EventHash e \<noteq> ThisHash e then ''stored this_hash does not match recomputed hash''
      else if prev \<noteq> None \<and> the prev \<noteq> PrevHash e then ''prev_hash linkage broken'' else '''')"
  by (auto simp: VerifyEvent_def Let_def split: option.split)

text \<open>The break at a position: a wrong own hash, or a wrong link to the row before.\<close>

definition broken_at :: "event list \<Rightarrow> nat \<Rightarrow> bool" where
  "broken_at es i \<longleftrightarrow> EventHash (es ! i) \<noteq> ThisHash (es ! i) \<or>
     0 < i \<and> ThisHash (es ! (i - 1)) \<noteq> PrevHash (es ! i)"

lemma not_broken_at:
  "\<not> broken_at es i \<longleftrightarrow> EventHash (es ! i) = ThisHash (es ! i) \<and>
     (i = 0 \<or> PrevHash (es ! i) = ThisHash (es ! (i - 1)))"
  by (auto simp: broken_at_def)

lemma broken_at_append: "i < length es \<Longrightarrow> broken_at (es @ es') i = broken_at es i"
  by (auto simp: broken_at_def nth_append)

lemma verify_loop_spec:
  assumes "\<And>j. j < n \<Longrightarrow> \<not> broken_at es j" and "n \<le> length es"
    and "0 < n \<Longrightarrow> prev = ThisHash (es ! (n - 1))"
  shows "case verify_loop n prev (drop n es) of
     Inr root \<Rightarrow> (\<forall>i < length es. \<not> broken_at es i) \<and> (es \<noteq> [] \<longrightarrow> root = ThisHash (last es))
   | Inl res \<Rightarrow> (\<exists>i < length es. broken_at es i \<and> (\<forall>j < i. \<not> broken_at es j) \<and>
       res = VerifyEvent (es ! i) (if i = 0 then None else Some (ThisHash (es ! (i - 1)))) \<and>
       vr_Status res \<noteq> StatusOK)"
  using assms
proof (induction "length es - n" arbitrary: n prev)
  case 0
  then show ?case by (auto simp: last_conv_nth)
next
  case (Suc k)
  then have n: "n < length es" by simp
  let ?res = "VerifyEvent (es ! n) (if n = 0 then None else Some prev)"
  have drop: "drop n es = es ! n # drop (Suc n) es" using n by (simp add: Cons_nth_drop_Suc)
  have stat: "vr_Status ?res \<noteq> StatusOK \<longleftrightarrow> broken_at es n"
    using Suc.prems(3) by (auto simp: VerifyEvent_status broken_at_def)
  show ?case
  proof (cases "broken_at es n")
    case True
    then have "verify_loop n prev (drop n es) = Inl ?res" using stat by (simp add: drop Let_def)
    moreover have "?res = VerifyEvent (es ! n) (if n = 0 then None else Some (ThisHash (es ! (n - 1))))"
      using Suc.prems(3) by simp
    ultimately show ?thesis using True stat n Suc.prems(1) by auto
  next
    case False
    then have "verify_loop n prev (drop n es) = verify_loop (Suc n) (ThisHash (es ! n)) (drop (Suc n) es)"
      using stat by (simp add: drop Let_def)
    moreover have "j < Suc n \<Longrightarrow> \<not> broken_at es j" for j
      using False Suc.prems(1) by (auto simp: less_Suc_eq)
    ultimately show ?thesis
      using Suc.hyps(1) [of "Suc n" "ThisHash (es ! n)"] Suc.hyps(2) n by simp
  qed
qed

lemma broken_linked: "linked es \<longleftrightarrow> (\<forall>i < length es. \<not> broken_at es i)"
  by (auto simp: linked_def broken_at_def)

lemma VerifyChain_linked:
  assumes "linked es"
  shows "VerifyChain es = (ok_result, if es = [] then ZeroHash else ThisHash (last es))"
proof (cases "es = []")
  case False
  with verify_loop_spec [of 0 es ZeroHash] assms show ?thesis
    by (auto simp: VerifyChain_def broken_linked split: sum.splits)
qed (simp add: VerifyChain_def)

lemma VerifyChain_broken:
  assumes "\<not> linked es"
  obtains i where "i < length es" "broken_at es i" "\<forall>j < i. \<not> broken_at es j"
    "VerifyChain es =
      (VerifyEvent (es ! i) (if i = 0 then None else Some (ThisHash (es ! (i - 1)))), [])"
    "vr_Status (fst (VerifyChain es)) \<noteq> StatusOK"
  using verify_loop_spec [of 0 es ZeroHash] assms that
  by (auto simp: VerifyChain_def broken_linked split: sum.splits)

lemma VerifyChain_at:
  assumes "i < length es" and "broken_at es i" and "\<forall>j < i. \<not> broken_at es j"
  shows "VerifyChain es =
    (VerifyEvent (es ! i) (if i = 0 then None else Some (ThisHash (es ! (i - 1)))), [])"
proof -
  have "\<not> linked es" using assms(1,2) broken_linked by blast
  then obtain k where k: "k < length es" "broken_at es k" "\<forall>j < k. \<not> broken_at es j"
    "VerifyChain es =
      (VerifyEvent (es ! k) (if k = 0 then None else Some (ThisHash (es ! (k - 1)))), [])"
    by (rule VerifyChain_broken)
  with assms have "k = i" by (metis linorder_neqE_nat)
  with k(4) show ?thesis by blast
qed

lemma ok_result_status [simp]: "vr_Status ok_result = StatusOK"
  by (simp add: ok_result_def)

lemma VerifyChain_ok_iff: "vr_Status (fst (VerifyChain es)) = StatusOK \<longleftrightarrow> linked es"
  by (metis VerifyChain_broken VerifyChain_linked fst_conv ok_result_status)

text \<open>When every row has its own hash right, the only possible break is a gap.\<close>

lemma VerifyChain_gap:
  assumes "\<not> linked es" and "\<forall>e \<in> set es. ThisHash e = EventHash e"
  shows "vr_Status (fst (VerifyChain es)) = StatusGap"
proof -
  obtain i where i: "i < length es"
    "VerifyChain es = (VerifyEvent (es ! i) (if i = 0 then None else Some (ThisHash (es ! (i - 1)))), [])"
    "vr_Status (fst (VerifyChain es)) \<noteq> StatusOK"
    by (rule VerifyChain_broken [OF assms(1)])
  then show ?thesis using assms(2) nth_mem [OF i(1)] by (auto simp: VerifyEvent_status split: if_splits)
qed

lemma linked_own: "linked es \<Longrightarrow> e \<in> set es \<Longrightarrow> ThisHash e = EventHash e"
  by (auto simp: linked_def in_set_conv_nth)

text \<open>
  Two accepted chains with the same last hash: walking back from the end, either the covered
  columns agree row by row, or two different messages have been found with one digest.
\<close>

definition collision :: "event \<Rightarrow> event \<Rightarrow> bool" where
  "collision e e' \<longleftrightarrow> EventMessage e \<noteq> EventMessage e' \<and> sha256 (EventMessage e) = sha256 (EventMessage e')"

lemma linked_same_root:
  assumes "linked es" and "linked es'" and "length es \<le> length es'"
    and "es \<noteq> []" and "ThisHash (last es) = ThisHash (last es')"
    and "\<forall>e \<in> set es \<union> set es'. encodable e"
  shows "(\<exists>i < length es. collision (es ! i) (es' ! (length es' - length es + i))) \<or>
     (\<forall>i < length es. let e = es ! i; e' = es' ! (length es' - length es + i) in
        covered e = covered e' \<and> ThisHash e = ThisHash e')"
  using assms
proof (induction es arbitrary: es' rule: rev_induct)
  case (snoc x xs)
  then obtain ys y where es': "es' = ys @ [y]" by (metis length_0_conv le_zero_eq rev_exhaust)
  have x: "ThisHash x = sha256 (EventMessage x)" and y: "ThisHash y = sha256 (EventMessage y)"
    using snoc.prems by (simp_all add: es' linked_snoc EventHash_message)
  have same: "ThisHash x = ThisHash y" using snoc.prems by (simp add: es')
  let ?d = "length ys - length xs"
  have le: "length xs \<le> length ys" using snoc.prems by (simp add: es')
  show ?case
  proof (cases "EventMessage x = EventMessage y")
    case False
    then have "collision x y" using x y same by (simp add: collision_def)
    then show ?thesis using le
      by (intro disjI1 exI [of _ "length xs"]) (simp add: es' nth_append)
  next
    case True
    then have cov: "covered x = covered y"
      using EventMessage_covered_iff [of x y] snoc.prems by (simp add: es')
    show ?thesis
    proof (cases "xs = []")
      case True
      then show ?thesis using cov same by (simp add: es' nth_append)
    next
      case False
      then have "ys \<noteq> []" using le by auto
      then have "ThisHash (last xs) = ThisHash (last ys)"
        using snoc.prems False cov by (simp add: es' linked_snoc covered_def)
      then have IH: "(\<exists>i < length xs. collision (xs ! i) (ys ! (?d + i))) \<or>
          (\<forall>i < length xs. let e = xs ! i; e' = ys ! (?d + i) in
             covered e = covered e' \<and> ThisHash e = ThisHash e')"
        using snoc.IH [of ys] snoc.prems False le by (simp add: es' linked_snoc)
      have "i < length xs \<Longrightarrow> ?d + i < length ys" for i using le by simp
      then show ?thesis
        using IH cov same le by (auto simp: es' nth_append less_Suc_eq Let_def)
    qed
  qed
qed simp

section \<open>The sweep and the anchor job over a reliable store\<close>

text \<open>What the sweep's filter selects: the window alone.\<close>

definition window_rows :: "time \<Rightarrow> time \<Rightarrow> event list \<Rightarrow> event list" where
  "window_rows from_ts to_ts es =
     filter (\<lambda>e. (IsZero from_ts \<or> from_ts \<le> TS e) \<and> (IsZero to_ts \<or> TS e < to_ts)) es"

lemma selected_window:
  "filter (selected (zero_filter\<lparr>f_From := from_ts, f_To := to_ts, f_Limit := n\<rparr>)) es =
     window_rows from_ts to_ts es"
  unfolding window_rows_def
  by (rule filter_cong) (auto simp: selected_def in_window_def attrs_match_def zero_filter_def)

lemma f_Cursor_zero: "f_Cursor zero_filter = no_cursor"
  by (simp add: zero_filter_def)

lemma distinct_window_rows: "distinct (map ID es) \<Longrightarrow> distinct (map ID (window_rows f t es))"
  by (simp add: window_rows_def distinct_map_filter)

lemma window_rows_all [simp]: "window_rows 0 0 es = es"
  by (simp add: window_rows_def)

lemma position_of_nth:
  "distinct (map ID es) \<Longrightarrow> i < length es \<Longrightarrow> position_of (ID (es ! i)) n es = n + int i + 1"
proof (induction es arbitrary: i n)
  case (Cons e es)
  show ?case
  proof (cases i)
    case 0
    then show ?thesis by simp
  next
    case (Suc j)
    then have "ID e \<noteq> ID (es ! j)" using Cons.prems by (auto dest: nth_mem)
    then show ?thesis using Suc Cons.IH [of j "n + 1"] Cons.prems by simp
  qed
qed simp

lemma check_anchors_count:
  "check_anchors ops s as n = n + int (length (filter (anchor_mismatch ops s) as))"
  by (induction as arbitrary: n) auto

lemma sweep_report_fields:
  "rp_EventCount (sweep_report ops s an f t sg now all) = int (length all)"
  "rp_Status (sweep_report ops s an f t sg now all) = vr_Status (fst (VerifyChain all))"
  "rp_RootHash (sweep_report ops s an f t sg now all) =
     (if length (snd (VerifyChain all)) = 32 then HashHex (snd (VerifyChain all)) else '''')"
  "rp_Position (sweep_report ops s an f t sg now all) =
     (if vr_Status (fst (VerifyChain all)) = StatusOK then 0
      else case vr_Event (fst (VerifyChain all)) of None \<Rightarrow> 0 | Some e \<Rightarrow> position_of (ID e) 0 all)"
  "rp_FirstBroken (sweep_report ops s an f t sg now all) =
     (if vr_Status (fst (VerifyChain all)) = StatusOK then ''''
      else case vr_Event (fst (VerifyChain all)) of None \<Rightarrow> '''' | Some e \<Rightarrow> ID e)"
  "rp_AnchorMismatches (sweep_report ops s an f t sg now all) =
     (case an of None \<Rightarrow> 0 | Some (aops, st) \<Rightarrow>
        (case as_ListAnchors aops f t st of Inl _ \<Rightarrow> 0
         | Inr as \<Rightarrow> int (length (filter (anchor_mismatch ops s) as))))"
  by (auto simp: sweep_report_def Let_def check_anchors_count
      split: prod.split option.split sum.split if_splits)

context event_listing
begin

lemma Sweep_collects:
  assumes "inv s" and "fits (zero_filter\<lparr>f_From := f, f_To := t, f_Limit := 1000\<rparr>)"
    and "\<And>i. ctx i = None" and "\<forall>e \<in> set (rows s). \<not> IsZero (TS e)"
  shows "Sweep ops s anchors f t signer ctx now =
     Some (Inr (sweep_report ops s anchors f t signer now (window_rows f t (rows s))))"
proof -
  have "collect_pages ops s ctx (zero_filter\<lparr>f_From := f, f_To := t, f_Limit := 1000\<rparr>) 0 [] =
      Some (Inr (window_rows f t (rows s)))"
    using collect_pages_complete [OF assms] by (simp add: selected_window f_Cursor_zero)
  then show ?thesis by (simp add: Sweep_def)
qed

text \<open>With any context the sweep ends, with a report or with the context's error.\<close>

lemma Sweep_ends:
  assumes "inv s" and "fits (zero_filter\<lparr>f_From := f, f_To := t, f_Limit := 1000\<rparr>)"
    and "\<forall>e \<in> set (rows s). \<not> IsZero (TS e)"
  shows "\<exists>r. Sweep ops s anchors f t signer ctx now = Some r"
  using collect_pages_returns [OF assms, of ctx 0 "[]"] by (auto simp: Sweep_def split: sum.split collect_stop.split)

end
section \<open>The anchor job on the in-memory stores\<close>

definition mem_anchor_job ::
  "(bytes \<Rightarrow> (bytes \<times> string) result) \<Rightarrow> string \<Rightarrow> int option \<Rightarrow> (mem_events, mem_anchors) anchor_job" where
  "mem_anchor_job signer url count =
     \<lparr>aj_Events = mem_event_store, aj_Anchors = mem_anchor_store, aj_Signer = signer,
      aj_NotaryURL = url, aj_EventCount = count\<rparr>"

lemma last_row_greatest:
  assumes "chain_sorted es" and "e \<in> set es"
  shows "ev_key e \<le> ev_key (last es)"
proof -
  have "es = butlast es @ [last es]" using assms(2) by (cases es) auto
  then have "chain_sorted (butlast es @ [last es])" "e \<in> set (butlast es @ [last es])"
    using assms by metis+
  then show ?thesis by (auto simp: sorted_wrt_append)
qed

lemma mark_upto_last:
  assumes "mem_inv s"
  shows "map (mark_upto (ev_key (last (mem_rows s)))) (mem_rows s) =
    map (\<lambda>e. e\<lparr>Anchored := True\<rparr>) (mem_rows s)"
  using last_row_greatest [of "mem_rows s"] assms by (simp add: mark_upto_def mem_inv_def)

lemma mem_anchor_run_cases:
  assumes "mem_inv s" and "AnchorJob_Run (mem_anchor_job sg url cnt) env s t = (r, s', t')"
  obtains (empty) "mem_rows s = []" "r = Inl ErrEmptyChain" "s' = s" "t' = t"
  | (failed) err where "mem_rows s \<noteq> []" "r = Inl err" "err \<noteq> ErrEmptyChain" "s' = s" "t' = t"
  | (anchored) hd_row sig key where "mem_rows s \<noteq> []" "hd_row = last (mem_rows s)"
      "length (ThisHash hd_row) = 32" "sg (ThisHash hd_row) = Inr (sig, key)"
      "r = Inr \<lparr>an_ID = oe_UUID env, an_AnchoredAt = 0, an_RootHash = ThisHash hd_row,
         an_LastEventID = ID hd_row, an_LastEventTS = TS hd_row, an_Signature = sig,
         an_KMSKeyID = key, an_NotaryURL = url,
         an_EventCount = (case cnt of Some n \<Rightarrow> n | None \<Rightarrow> 1)\<rparr>"
      "t' = t @ [(projr r)\<lparr>an_AnchoredAt := oe_Now env\<rparr>]"
      "s' = snd (EventStore_MarkAnchored (TS hd_row) (ID hd_row) s)"
proof (cases "mem_rows s = []")
  case True
  then show thesis
    using assms(2) by (intro empty) (simp_all add: AnchorJob_Run_def mem_anchor_job_def mem_store_defs mem_chain_head)
next
  case False
  note run = assms(2) [unfolded AnchorJob_Run_def mem_anchor_job_def]
  let ?h = "last (mem_rows s)"
  show thesis
  proof (cases "length (ThisHash ?h) = 32")
    case False
    then show thesis
      using \<open>mem_rows s \<noteq> []\<close> run
      by (intro failed) (auto simp: mem_store_defs mem_chain_head Let_def)
  next
    case len: True
    show thesis
    proof (cases "sg (ThisHash ?h)")
      case (Inl e)
      then show thesis
        using \<open>mem_rows s \<noteq> []\<close> run len
        by (intro failed) (auto simp: mem_store_defs mem_chain_head Let_def)
    next
      case (Inr sk)
      then obtain sig key where "sg (ThisHash ?h) = Inr (sig, key)" by (cases sk) auto
      then show thesis
        using \<open>mem_rows s \<noteq> []\<close> run len
        by (intro anchored [of ?h sig key])
          (auto simp: mem_store_defs mem_chain_head mem_anchor_store_def AnchorStore_InsertAnchor_def
            EventStore_MarkAnchored_def Let_def split: prod.splits)
    qed
  qed
qed

text \<open>Over any stores, a run changes the events by one marking at most.\<close>

text \<open>An anchor that a run returns carries what the signer made of the 32-byte root.\<close>

lemma AnchorJob_Run_signed:
  assumes "AnchorJob_Run job env s t = (Inr a, s', t')"
  shows "length (an_RootHash a) = 32" and "aj_Signer job (an_RootHash a) = Inr (an_Signature a, an_KMSKeyID a)"
  using assms by (auto simp: AnchorJob_Run_def Let_def split: sum.splits option.splits if_splits prod.splits)

lemma AnchorJob_Run_events:
  assumes "AnchorJob_Run a env s t = (r, s', t')"
  shows "s' = s \<or> (\<exists>ts i mr. es_MarkAnchored (aj_Events a) ts i s = (mr, s'))"
proof (cases "es_ChainHead (aj_Events a) s")
  case (Inr hd_row)
  show ?thesis
  proof (cases hd_row)
    case (Some e)
    then show ?thesis
      using assms Inr by (auto simp: AnchorJob_Run_def Let_def split: if_splits sum.splits prod.splits)
  qed (use assms Inr in \<open>simp add: AnchorJob_Run_def\<close>)
qed (use assms in \<open>simp add: AnchorJob_Run_def\<close>)

text \<open>A store of one row and a signer, for concrete runs of the job.\<close>

abbreviation one_row_store :: mem_events where
  "one_row_store \<equiv> snd (EventStore_Insert (sample_row 9 ''a'') NewEventStore)"

abbreviation echo_signer :: "bytes \<Rightarrow> (bytes \<times> string) result" where
  "echo_signer b \<equiv> Inr (b, ''k'')"

lemma one_row_anchor_run:
  obtains s' t' where "AnchorJob_Run (mem_anchor_job echo_signer ''u'' None)
      \<lparr>oe_Now = 5, oe_UUID = ''x''\<rparr> one_row_store [] =
    (Inr \<lparr>an_ID = ''x'', an_AnchoredAt = 0, an_RootHash = replicate 32 2, an_LastEventID = ''a'',
       an_LastEventTS = 9, an_Signature = replicate 32 2, an_KMSKeyID = ''k'', an_NotaryURL = ''u'',
       an_EventCount = 1\<rparr>, s', t')"
proof -
  obtain r s' t' where run: "AnchorJob_Run (mem_anchor_job echo_signer ''u'' None)
      \<lparr>oe_Now = 5, oe_UUID = ''x''\<rparr> one_row_store [] = (r, s', t')"
    by (metis prod_cases3)
  with NewEventStore_Insert(2) [of "sample_row 9 ''a''"]
  have "r = Inr \<lparr>an_ID = ''x'', an_AnchoredAt = 0, an_RootHash = replicate 32 2, an_LastEventID = ''a'',
       an_LastEventTS = 9, an_Signature = replicate 32 2, an_KMSKeyID = ''k'', an_NotaryURL = ''u'',
       an_EventCount = 1\<rparr>"
    by (auto simp: AnchorJob_Run_def mem_anchor_job_def mem_store_defs mem_chain_head
        NewEventStore_Insert mem_anchor_store_def AnchorStore_InsertAnchor_def
        EventStore_MarkAnchored_def Let_def sample_row_def split: prod.splits)
  with run that show thesis by simp
qed

lemma one_row_anchored:
  assumes "sg (replicate 32 2) = Inr x"
  shows "\<exists>a s' t'. AnchorJob_Run (mem_anchor_job sg url cnt) env one_row_store t = (Inr a, s', t')"
proof -
  obtain r s' t' where run: "AnchorJob_Run (mem_anchor_job sg url cnt) env one_row_store t = (r, s', t')"
    by (metis prod_cases3)
  with NewEventStore_Insert(2) [of "sample_row 9 ''a''"] assms have "is_ok r"
    by (auto simp: AnchorJob_Run_def mem_anchor_job_def mem_store_defs mem_chain_head
        NewEventStore_Insert mem_anchor_store_def AnchorStore_InsertAnchor_def
        EventStore_MarkAnchored_def Let_def sample_row_def split: prod.splits)
  with run show ?thesis by (cases r) auto
qed

section \<open>Collisions in a Merkle tree\<close>

text \<open>The messages \<^verbatim>\<open>MerkleRoot\<close> hashes, in the order it hashes them.\<close>

fun merkle_pairs :: "bytes list \<Rightarrow> bytes list" where
  "merkle_pairs (x # y # xs) = (x @ y) # merkle_pairs xs"
| "merkle_pairs _ = []"

function merkle_messages :: "bytes list \<Rightarrow> bytes list" where
  "merkle_messages current =
     (if length current > 1 then merkle_pairs current @ merkle_messages (merkle_level current) else [])"
  by pat_completeness auto
termination
  by (relation "measure length") auto

declare merkle_messages.simps [simp del]

definition message_collision :: "bytes list \<Rightarrow> bytes list \<Rightarrow> bool" where
  "message_collision ms ms' \<longleftrightarrow>
     (\<exists>k < length ms. k < length ms' \<and> ms ! k \<noteq> ms' ! k \<and> sha256 (ms ! k) = sha256 (ms' ! k))"

lemma message_collision_Cons:
  "message_collision (m # ms) (m' # ms') \<longleftrightarrow>
     m \<noteq> m' \<and> sha256 m = sha256 m' \<or> message_collision ms ms'"
  by (auto simp: message_collision_def less_Suc_eq_0_disj nth_Cons' Ex_less_Suc2)

lemma length_merkle_pairs: "length (merkle_pairs xs) = length xs div 2"
  by (induction xs rule: merkle_pairs.induct) auto

lemma message_collision_append:
  assumes "length ms = length ms'"
  shows "message_collision (ms @ ns) (ms' @ ns') \<longleftrightarrow> message_collision ms ms' \<or> message_collision ns ns'"
  using assms by (induction ms ms' rule: list_induct2)
    (auto simp: message_collision_Cons, auto simp: message_collision_def)

abbreviation digests :: "bytes list \<Rightarrow> bool" where
  "digests xs \<equiv> \<forall>x \<in> set xs. length x = 32"

lemma digests_merkle_level: "digests xs \<Longrightarrow> digests (merkle_level xs)"
  by (induction xs rule: merkle_level.induct) auto

lemma merkle_level_binding:
  assumes "length xs = length ys" and "digests xs" and "digests ys"
    and "merkle_level xs = merkle_level ys"
  shows "xs = ys \<or> message_collision (merkle_pairs xs) (merkle_pairs ys)"
  using assms
proof (induction xs arbitrary: ys rule: merkle_level.induct)
  case (2 x)
  then show ?case by (cases ys rule: merkle_level.cases) auto
next
  case (3 x y xs)
  then obtain x' y' ys' where ys: "ys = x' # y' # ys'" by (cases ys rule: merkle_level.cases) auto
  have "x @ y = x' @ y' \<Longrightarrow> x = x' \<and> y = y'" using 3 by (simp add: ys)
  then show ?case using 3 by (auto simp: ys message_collision_Cons)
qed simp

lemma merkle_loop_binding:
  assumes "length xs = length ys" and "xs \<noteq> []" and "digests xs" and "digests ys"
    and "merkle_loop xs = merkle_loop ys"
  shows "xs = ys \<or> message_collision (merkle_messages xs) (merkle_messages ys)"
  using assms
proof (induction xs arbitrary: ys rule: merkle_loop.induct)
  case (1 xs)
  show ?case
  proof (cases "length xs > 1")
    case False
    then obtain x y where "xs = [x]" "ys = [y]"
      using 1 by (metis length_0_conv length_Suc_conv less_one linorder_neqE_nat One_nat_def)
    then show ?thesis using 1 by (simp add: merkle_loop.simps [of "[x]"] merkle_loop.simps [of "[y]"])
  next
    case True
    have len: "length (merkle_level xs) = length (merkle_level ys)" using 1 by simp
    have ne: "merkle_level xs \<noteq> []" using True length_merkle_level [of xs] by fastforce
    have eq: "merkle_loop (merkle_level xs) = merkle_loop (merkle_level ys)"
      using 1 True merkle_loop.simps [of xs] merkle_loop.simps [of ys] by simp
    have "merkle_level xs = merkle_level ys \<or>
        message_collision (merkle_messages (merkle_level xs)) (merkle_messages (merkle_level ys))"
      using 1 True len ne eq digests_merkle_level by blast
    then show ?thesis
      using merkle_level_binding [OF 1(2,4,5)] True 1(2)
      by (auto simp: merkle_messages.simps [of xs] merkle_messages.simps [of ys]
          message_collision_append length_merkle_pairs)
  qed
qed


section \<open>Properties\<close>

lemma UnixNano_eq_iff: "UnixNano t = UnixNano t' \<longleftrightarrow> t mod 2 ^ 64 = t' mod 2 ^ 64"
  by (simp add: UnixNano_def word_of_int_eq_iff take_bit_eq_mod mod_diff_cong)

text \<open>
  C3: the canonical encoding is injective. Two rows whose fields are shorter than
  \<open>2 ^ 32\<close> bytes feed the same bytes to SHA-256 only if all nine covered columns agree, the
  time up to a multiple of \<open>2 ^ 64\<close> nanoseconds; no two different splits of the same text
  between neighbouring fields can be confused.
\<close>

theorem canonical_encoding_injective:
  assumes "encodable e" and "encodable e'"
  shows "EventMessage e = EventMessage e' \<longleftrightarrow>
    ID e = ID e' \<and> TS e mod 2 ^ 64 = TS e' mod 2 ^ 64 \<and> SourceService e = SourceService e' \<and>
    ActorID e = ActorID e' \<and> Action e = Action e' \<and> TargetType e = TargetType e' \<and>
    TargetID e = TargetID e' \<and> PayloadHash e = PayloadHash e' \<and> PrevHash e = PrevHash e'"
  using EventMessage_covered_iff [OF assms] by (simp add: covered_def UnixNano_eq_iff)

lemma encodable_sample [simp]: "encodable (sample_row t i\<lparr>PrevHash := p, ThisHash := h\<rparr>) \<longleftrightarrow> fits i \<and> fits p"
  by (simp add: encodable_def sample_row_def)

theorem canonical_encoding_injective_witness:
  "EventMessage (sample_row 1 ''ab''\<lparr>PrevHash := [], ThisHash := []\<rparr>) \<noteq>
   EventMessage (sample_row 1 ''a''\<lparr>PrevHash := [], ThisHash := []\<rparr>)"
  using canonical_encoding_injective [of "sample_row 1 ''ab''\<lparr>PrevHash := [], ThisHash := []\<rparr>"
      "sample_row 1 ''a''\<lparr>PrevHash := [], ThisHash := []\<rparr>"]
  by (simp add: sample_row_def encodable_def)

text \<open>
  The time is hashed as a 64-bit nanosecond count, so the hash does not see a change of
  the time column by a multiple of \<open>2 ^ 64\<close> nanoseconds (about 584 years): a row so changed
  verifies as the original does.
\<close>

theorem ts_shift_undetected:
  "EventHash (e\<lparr>TS := TS e + k * 2 ^ 64\<rparr>) = EventHash e \<and>
   vr_Status (VerifyEvent (e\<lparr>TS := TS e + k * 2 ^ 64\<rparr>) prev) = vr_Status (VerifyEvent e prev)"
proof -
  have "UnixNano (TS e + k * 2 ^ 64) = UnixNano (TS e)" by (simp only: UnixNano_eq_iff mod_mult_self1)
  then have "EventHash (e\<lparr>TS := TS e + k * 2 ^ 64\<rparr>) = EventHash e"
    by (simp add: EventHash_message EventMessage_def CanonicalMessage_def writeTime_def)
  then show ?thesis by (simp add: VerifyEvent_status)
qed

text \<open>
  C4: \<^verbatim>\<open>VerifyChain\<close> decides the chain and reports the first break. The status is ok exactly
  when every row's own hash is right and every row but the first records its predecessor's
  hash; then the root is the last row's hash, or the zero hash for no rows. Otherwise the
  reported row is the first one with a wrong own hash or a wrong link: it is reported as
  broken when its own hash is wrong and as a gap when only its link is, each with its
  reason, and no root is returned.
\<close>

theorem VerifyChain_first_break:
  "(vr_Status (fst (VerifyChain es)) = StatusOK \<longleftrightarrow>
     (\<forall>i < length es. EventHash (es ! i) = ThisHash (es ! i) \<and>
        (i = 0 \<or> PrevHash (es ! i) = ThisHash (es ! (i - 1))))) \<and>
   (if vr_Status (fst (VerifyChain es)) = StatusOK
    then snd (VerifyChain es) = (if es = [] then ZeroHash else ThisHash (last es))
    else snd (VerifyChain es) = [] \<and>
      (\<exists>i < length es. vr_Event (fst (VerifyChain es)) = Some (es ! i) \<and>
         (\<forall>j < i. EventHash (es ! j) = ThisHash (es ! j) \<and>
            (j = 0 \<or> PrevHash (es ! j) = ThisHash (es ! (j - 1)))) \<and>
         (if EventHash (es ! i) \<noteq> ThisHash (es ! i)
          then vr_Status (fst (VerifyChain es)) = StatusBroken \<and>
            vr_Reason (fst (VerifyChain es)) = ''stored this_hash does not match recomputed hash''
          else 0 < i \<and> PrevHash (es ! i) \<noteq> ThisHash (es ! (i - 1)) \<and>
            vr_Status (fst (VerifyChain es)) = StatusGap \<and>
            vr_Reason (fst (VerifyChain es)) = ''prev_hash linkage broken'')))"
proof (cases "linked es")
  case True
  then have "EventHash (es ! i) = ThisHash (es ! i) \<and>
      (i = 0 \<or> PrevHash (es ! i) = ThisHash (es ! (i - 1)))" if "i < length es" for i
    using that by (auto simp: broken_linked not_broken_at)
  then show ?thesis using VerifyChain_linked [OF True] by simp
next
  case False
  then obtain i where i: "i < length es" "broken_at es i" "\<forall>j < i. \<not> broken_at es j"
    "VerifyChain es =
      (VerifyEvent (es ! i) (if i = 0 then None else Some (ThisHash (es ! (i - 1)))), [])"
    "vr_Status (fst (VerifyChain es)) \<noteq> StatusOK"
    by (rule VerifyChain_broken)
  have "(vr_Status (fst (VerifyChain es)) = StatusOK) =
      (\<forall>i < length es. EventHash (es ! i) = ThisHash (es ! i) \<and>
        (i = 0 \<or> PrevHash (es ! i) = ThisHash (es ! (i - 1))))"
    using i(1,2,5) not_broken_at by blast
  moreover have "if EventHash (es ! i) \<noteq> ThisHash (es ! i)
    then vr_Status (fst (VerifyChain es)) = StatusBroken \<and>
      vr_Reason (fst (VerifyChain es)) = ''stored this_hash does not match recomputed hash''
    else 0 < i \<and> PrevHash (es ! i) \<noteq> ThisHash (es ! (i - 1)) \<and>
      vr_Status (fst (VerifyChain es)) = StatusGap \<and>
      vr_Reason (fst (VerifyChain es)) = ''prev_hash linkage broken''"
    using i(2,4) by (auto simp: VerifyEvent_status VerifyEvent_reason broken_at_def)
  moreover have "vr_Event (fst (VerifyChain es)) = Some (es ! i)" "snd (VerifyChain es) = []"
    using i(4) by (simp_all add: VerifyEvent_status)
  moreover have "\<forall>j < i. EventHash (es ! j) = ThisHash (es ! j) \<and>
      (j = 0 \<or> PrevHash (es ! j) = ThisHash (es ! (j - 1)))"
    using i(3) by (simp add: not_broken_at)
  ultimately show ?thesis
    using i(1) unfolding if_not_P [OF i(5)] by blast
qed

theorem VerifyChain_first_break_witness:
  "vr_Status (fst (VerifyChain [sample_row 1 ''a''\<lparr>ThisHash := []\<rparr>])) = StatusBroken"
  using VerifyChain_first_break [of "[sample_row 1 ''a''\<lparr>ThisHash := []\<rparr>]"]
  by (auto simp: EventHash_message split: if_splits)

text \<open>
  C1: tamper evidence. Of two non-empty histories of rows whose fields are shorter than
  \<open>2 ^ 32\<close> bytes that both verify with the same root, the shorter one agrees, row by row,
  with the end of the longer one in the columns the hash covers (id, time modulo \<open>2 ^ 64\<close>
  nanoseconds, source service, actor, action, target, payload hash, previous hash) and in the
  own hash; otherwise two different canonical messages with the same SHA-256 digest stand at
  one position of the two histories. The columns \<^verbatim>\<open>payload_ref\<close>, \<^verbatim>\<open>anchored\<close>,
  \<^verbatim>\<open>legal_hold\<close> and \<^verbatim>\<open>redacted\<close> are not hashed, and nothing is said of them.
\<close>

theorem tamper_evidence:
  assumes "VerifyChain es = (r, root)" and "vr_Status r = StatusOK"
    and "VerifyChain es' = (r', root)" and "vr_Status r' = StatusOK"
    and "es \<noteq> []" and "length es \<le> length es'" and "\<forall>e \<in> set es \<union> set es'. encodable e"
  shows "(\<exists>i < length es. let e = es ! i; e' = es' ! (length es' - length es + i) in
      EventMessage e \<noteq> EventMessage e' \<and> sha256 (EventMessage e) = sha256 (EventMessage e')) \<or>
    (\<forall>i < length es. let e = es ! i; e' = es' ! (length es' - length es + i) in
      covered e = covered e' \<and> ThisHash e = ThisHash e')"
proof -
  have l: "linked es" "linked es'"
    using assms(1-4) VerifyChain_ok_iff [of es] VerifyChain_ok_iff [of es'] by simp_all
  have "es' \<noteq> []" using assms(5,6) by auto
  then have "ThisHash (last es) = ThisHash (last es')"
    using assms(1,3,5) VerifyChain_linked [OF l(1)] VerifyChain_linked [OF l(2)] by simp
  from linked_same_root [OF l assms(6,5) this assms(7)] show ?thesis
    by (simp add: collision_def Let_def)
qed

text \<open>A row with a given link and its own hash right, for concrete chains.\<close>

definition sealed_row :: "time \<Rightarrow> string \<Rightarrow> bytes \<Rightarrow> event" where
  "sealed_row t i p = (let e = sample_row t i\<lparr>PrevHash := p\<rparr> in e\<lparr>ThisHash := EventHash e\<rparr>)"

lemma EventHash_ThisHash [simp]: "EventHash (e\<lparr>ThisHash := h\<rparr>) = EventHash e"
  by (simp add: EventHash_def)

lemma sealed_row_sel [simp]:
  "ThisHash (sealed_row t i p) = EventHash (sealed_row t i p)" "PrevHash (sealed_row t i p) = p"
  "length (ThisHash (sealed_row t i p)) = 32" "TS (sealed_row t i p) = t" "ID (sealed_row t i p) = i"
  "ev_key (sealed_row t i p) = Cursor t i"
  by (simp_all add: sealed_row_def Let_def sample_row_def ev_key_def EventHash_def CanonicalHash_def)

lemma encodable_sealed [simp]: "encodable (sealed_row t i p) \<longleftrightarrow> fits i \<and> fits p"
  by (simp add: encodable_def sealed_row_def sample_row_def Let_def)

definition two_rows :: "event list" where
  "two_rows = [sealed_row 1 ''a'' ZeroHash, sealed_row 2 ''b'' (ThisHash (sealed_row 1 ''a'' ZeroHash))]"

lemma linked_two_rows [simp]: "linked two_rows" "linked (tl two_rows)"
  by (auto simp: two_rows_def linked_def less_Suc_eq)

theorem tamper_evidence_witness:
  "covered (last two_rows) = covered (two_rows ! 1)"
proof -
  have a: "VerifyChain (tl two_rows) = (ok_result, ThisHash (last two_rows))"
    using VerifyChain_linked [OF linked_two_rows(2)] by (simp add: two_rows_def)
  have b: "VerifyChain two_rows = (ok_result, ThisHash (last two_rows))"
    using VerifyChain_linked [OF linked_two_rows(1)] by (simp add: two_rows_def)
  have "\<forall>e \<in> set (tl two_rows) \<union> set two_rows. encodable e"
    by (simp add: two_rows_def del: sealed_row_sel(1))
  from tamper_evidence [OF a _ b _ _ _ this] show ?thesis
    by (simp add: two_rows_def)
qed

lemma single_change:
  assumes "linked es" and "i < length es" and "\<not> collision (es ! i) e'"
    and "EventMessage e' \<noteq> EventMessage (es ! i)"
  shows "\<forall>j < i. \<not> broken_at (es[i := e']) j"
    and "broken_at (es[i := e']) i \<longleftrightarrow>
      EventHash e' \<noteq> ThisHash e' \<or> 0 < i \<and> PrevHash e' \<noteq> PrevHash (es ! i)"
    and "EventHash e' = ThisHash e' \<Longrightarrow> ThisHash e' \<noteq> ThisHash (es ! i)"
    and "EventHash e' = ThisHash e' \<Longrightarrow> Suc i < length es \<Longrightarrow> broken_at (es[i := e']) (Suc i)"
    and "Suc i < length es \<Longrightarrow> EventHash (es ! Suc i) = ThisHash (es ! Suc i)"
proof -
  have own: "EventHash (es ! j) = ThisHash (es ! j)"
    and link: "0 < j \<Longrightarrow> PrevHash (es ! j) = ThisHash (es ! (j - 1))" if "j < length es" for j
    using assms(1) that by (simp_all add: linked_def)
  have "broken_at (es[i := e']) j = broken_at es j" if "j < i" for j
    using that by (auto simp: broken_at_def)
  then show "\<forall>j < i. \<not> broken_at (es[i := e']) j"
    using assms(1,2) by (simp add: broken_linked)
  show "broken_at (es[i := e']) i \<longleftrightarrow>
      EventHash e' \<noteq> ThisHash e' \<or> 0 < i \<and> PrevHash e' \<noteq> PrevHash (es ! i)"
    using link [OF assms(2)] assms(2) by (auto simp: broken_at_def)
  have ne: "ThisHash (es ! i) \<noteq> EventHash e'"
    using assms(3,4) own [OF assms(2)] by (auto simp: collision_def EventHash_message)
  then show ne': "EventHash e' = ThisHash e' \<Longrightarrow> ThisHash e' \<noteq> ThisHash (es ! i)" by simp
  show "EventHash e' = ThisHash e' \<Longrightarrow> Suc i < length es \<Longrightarrow> broken_at (es[i := e']) (Suc i)"
    using ne' link [of "Suc i"] assms(2) by (simp add: broken_at_def)
  show "Suc i < length es \<Longrightarrow> EventHash (es ! Suc i) = ThisHash (es ! Suc i)" by (rule own)
qed

text \<open>
  C2: replacing one row of a verifying history by a row that differs from it in a hashed
  column (both with fields shorter than \<open>2 ^ 32\<close> bytes) is caught, and where is decided by
  what the new row stores: a row whose own hash was not recomputed is reported as broken; a
  re-sealed row with another link is reported as a gap (unless it is the oldest, whose link
  nothing checks); a re-sealed row with its link kept makes the next row a gap; and a
  re-sealed newest row changes the root. Otherwise the two rows' canonical messages collide
  under SHA-256.
\<close>

theorem single_row_tamper_detected:
  assumes "vr_Status (fst (VerifyChain es)) = StatusOK" and "i < length es"
    and "covered e' \<noteq> covered (es ! i)" and "encodable e'" and "encodable (es ! i)"
    and "VerifyChain (es[i := e']) = (r, root)"
  shows "collision (es ! i) e' \<or>
    (if EventHash e' \<noteq> ThisHash e' then vr_Status r = StatusBroken \<and> vr_Event r = Some e'
     else if 0 < i \<and> PrevHash e' \<noteq> PrevHash (es ! i)
     then vr_Status r = StatusGap \<and> vr_Event r = Some e'
     else if Suc i < length es then vr_Status r = StatusGap \<and> vr_Event r = Some (es ! Suc i)
     else vr_Status r = StatusOK \<and> root \<noteq> snd (VerifyChain es))"
proof (cases "collision (es ! i) e'")
  case False
  have l: "linked es" using assms(1) by (simp add: VerifyChain_ok_iff)
  have "EventMessage e' \<noteq> EventMessage (es ! i)"
    using EventMessage_covered_iff [OF assms(4,5)] assms(3) by simp
  note ch = single_change [OF l assms(2) False this]
  note at = VerifyChain_at [of _ "es[i := e']", unfolded assms(6)]
  consider (here) "EventHash e' \<noteq> ThisHash e' \<or> 0 < i \<and> PrevHash e' \<noteq> PrevHash (es ! i)"
    | (later) "EventHash e' = ThisHash e'" "\<not> (0 < i \<and> PrevHash e' \<noteq> PrevHash (es ! i))" "Suc i < length es"
    | (newest) "EventHash e' = ThisHash e'" "\<not> (0 < i \<and> PrevHash e' \<noteq> PrevHash (es ! i))" "Suc i = length es"
    using assms(2) by linarith
  then show ?thesis
  proof cases
    case here
    then have "r = VerifyEvent e' (if i = 0 then None else Some (ThisHash (es ! (i - 1))))"
      using at [of i] ch(1,2) assms(2) by simp
    moreover have "0 < i \<Longrightarrow> ThisHash (es ! (i - 1)) = PrevHash (es ! i)"
      using l assms(2) by (simp add: linked_def)
    ultimately show ?thesis using here by (auto simp: VerifyEvent_status)
  next
    case later
    then have "\<forall>j < Suc i. \<not> broken_at (es[i := e']) j" using ch(1,2) by (simp add: less_Suc_eq)
    then have "r = VerifyEvent (es ! Suc i) (Some (ThisHash e'))"
      using at [of "Suc i"] ch(4) later(1,3) assms(2) by simp
    then show ?thesis
      using later ch(3,5) linked_Suc [OF l later(3)] by (auto simp: VerifyEvent_status)
  next
    case newest
    then have "\<not> broken_at (es[i := e']) j" if "j < length es" for j
      using ch(1,2) that by (cases "j = i") auto
    then have "linked (es[i := e'])" by (simp add: broken_linked)
    moreover have "es \<noteq> []" "last es = es ! i" "last (es[i := e']) = e'"
      using newest(3) assms(2) by (cases es rule: rev_cases, simp_all add: list_update_append)+
    ultimately show ?thesis
      using VerifyChain_linked [of "es[i := e']"] VerifyChain_linked [OF l] assms(6) newest ch(3) by auto
  qed
qed simp

theorem single_row_tamper_detected_witness:
  "collision (two_rows ! 0) (sealed_row 1 ''x'' ZeroHash) \<or>
   vr_Status (fst (VerifyChain (two_rows[0 := sealed_row 1 ''x'' ZeroHash]))) = StatusGap \<and>
   vr_Event (fst (VerifyChain (two_rows[0 := sealed_row 1 ''x'' ZeroHash]))) = Some (two_rows ! 1)"
proof -
  have "vr_Status (fst (VerifyChain two_rows)) = StatusOK" by (simp add: VerifyChain_ok_iff)
  moreover have "covered (sealed_row 1 ''x'' ZeroHash) \<noteq> covered (two_rows ! 0)"
    by (simp add: covered_def two_rows_def)
  ultimately show ?thesis
    using single_row_tamper_detected [of two_rows 0 "sealed_row 1 ''x'' ZeroHash",
        OF _ _ _ _ _ prod.collapse [symmetric]]
    by (simp add: two_rows_def del: list_update.simps)
qed

text \<open>
  Cutting off the beginning of the history is not detected. The first row's link is not
  checked, so what is left of a verified history after deleting any number of its oldest
  rows verifies with the same result and the same root.
\<close>

theorem front_truncation_undetected:
  assumes "vr_Status (fst (VerifyChain es)) = StatusOK" and "k < length es"
  shows "VerifyChain (drop k es) = VerifyChain es"
proof -
  have l: "linked es" using assms(1) by (simp add: VerifyChain_ok_iff)
  then have "linked (drop k es)" by (rule linked_drop)
  from VerifyChain_linked [OF l] VerifyChain_linked [OF this] show ?thesis
    using assms(2) by auto
qed

theorem front_truncation_undetected_witness: "VerifyChain (drop 1 two_rows) = VerifyChain two_rows"
proof -
  have "vr_Status (fst (VerifyChain two_rows)) = StatusOK" by (simp add: VerifyChain_ok_iff)
  from front_truncation_undetected [OF this, of 1] show ?thesis by (simp add: two_rows_def)
qed



text \<open>
  C14: an anchor run over the in-memory stores is all or nothing. When it fails neither store
  changes, and it fails with the empty-chain error exactly when there are no rows. When it
  succeeds, the anchor carries the hash and the key of the last row in chain order and the
  signature of that hash, it is appended to the anchors with the current time, and every row
  is marked as anchored, nothing else of it changed.
\<close>

theorem AnchorJob_all_or_nothing:
  assumes "mem_inv s"
    and "AnchorJob_Run (mem_anchor_job sg url cnt) env s t = (r, s', t')"
  shows "case r of
      Inl err \<Rightarrow> s' = s \<and> t' = t \<and> (err = ErrEmptyChain \<longleftrightarrow> mem_rows s = [])
    | Inr a \<Rightarrow> mem_rows s \<noteq> [] \<and> an_RootHash a = ThisHash (last (mem_rows s)) \<and>
        an_LastEventID a = ID (last (mem_rows s)) \<and> an_LastEventTS a = TS (last (mem_rows s)) \<and>
        sg (an_RootHash a) = Inr (an_Signature a, an_KMSKeyID a) \<and>
        t' = t @ [a\<lparr>an_AnchoredAt := oe_Now env\<rparr>] \<and> mem_inv s' \<and>
        mem_rows s' = map (\<lambda>e. e\<lparr>Anchored := True\<rparr>) (mem_rows s)"
  using assms
proof (cases rule: mem_anchor_run_cases)
  case (anchored hd_row sig key)
  have "mem_inv s' \<and> mem_rows s' = map (mark_upto (ev_key hd_row)) (mem_rows s)"
    using mem_mark_rows [OF assms(1) prod.collapse [symmetric]] unfolding anchored(7)
    by (simp add: ev_key_def)
  then show ?thesis
    using anchored mark_upto_last [OF assms(1)] by simp
qed auto

theorem AnchorJob_all_or_nothing_witness:
  "mem_rows (fst (snd (AnchorJob_Run (mem_anchor_job echo_signer ''u'' None)
     \<lparr>oe_Now = 5, oe_UUID = ''x''\<rparr> one_row_store []))) = [(sample_row 9 ''a'')\<lparr>Anchored := True\<rparr>]"
proof -
  obtain s' t' a where run: "AnchorJob_Run (mem_anchor_job echo_signer ''u'' None)
      \<lparr>oe_Now = 5, oe_UUID = ''x''\<rparr> one_row_store [] = (Inr a, s', t')"
    using one_row_anchor_run by metis
  from AnchorJob_all_or_nothing [OF NewEventStore_Insert(2) run] run show ?thesis
    by (simp add: NewEventStore_Insert)
qed

text \<open>
  C15: an anchor stays valid. Whatever inserts, holds and markings follow a successful anchor
  run, the check of the sweep still finds the anchored row with the anchored hash, so an
  anchor mismatch means that the store was changed by other means.
\<close>

theorem anchor_stays_valid:
  assumes "mem_inv s"
    and "AnchorJob_Run (mem_anchor_job sg url cnt) env s t = (Inr a, s', t')"
    and "store_reach mem_event_store s' s''"
  shows "\<not> anchor_mismatch mem_event_store s'' a"
  using assms(1,2)
proof (cases rule: mem_anchor_run_cases)
  case (anchored hd_row sig key)
  have marked: "mem_inv s' \<and> mem_rows s' = map (mark_upto (ev_key hd_row)) (mem_rows s)"
    using mem_mark_rows [OF assms(1) prod.collapse [symmetric]] unfolding anchored(7)
    by (simp add: ev_key_def)
  have "hd_row \<in> set (mem_rows s)" using anchored(1,2) by simp
  then have "mark_upto (ev_key hd_row) hd_row \<in> set (mem_rows s')" using marked by simp
  from mem.store_reach_append_only [OF assms(3) _ this] marked
  obtain e where e: "e \<in> set (mem_rows s'')" "immutable_view e = immutable_view hd_row"
    by (auto simp: row_kept_def mark_upto_def split: if_splits)
  then have same: "ID e = ID hd_row" "ThisHash e = ThisHash hd_row"
    by (auto simp: immutable_view_def dest: arg_cong [of _ _ ID] arg_cong [of _ _ ThisHash])
  have "mem_inv s''" using mem.store_reach_inv [OF assms(3)] marked by blast
  then have "es_Get mem_event_store (ID e) s'' = Inr e" using mem.Get_total e(1) by blast
  then show ?thesis using anchored(5) same by (simp add: anchor_mismatch_def)
qed simp_all

theorem anchor_stays_valid_witness:
  "\<exists>a s' t'. AnchorJob_Run (mem_anchor_job echo_signer ''u'' None)
      \<lparr>oe_Now = 5, oe_UUID = ''x''\<rparr> one_row_store [] = (Inr a, s', t') \<and>
     \<not> anchor_mismatch mem_event_store (snd (EventStore_Insert (sample_row 11 ''b'') s')) a"
proof -
  obtain s' t' a where run: "AnchorJob_Run (mem_anchor_job echo_signer ''u'' None)
      \<lparr>oe_Now = 5, oe_UUID = ''x''\<rparr> one_row_store [] = (Inr a, s', t')"
    using one_row_anchor_run by metis
  have "store_reach mem_event_store s' (snd (EventStore_Insert (sample_row 11 ''b'') s'))"
    by (rule reach_Insert [OF reach_start, where r = "fst (EventStore_Insert (sample_row 11 ''b'') s')"])
      (simp add: mem_store_defs)
  from anchor_stays_valid [OF NewEventStore_Insert(2) run this] run show ?thesis by blast
qed

text \<open>
  C17: the Merkle root binds its leaves. Two lists of equally many 32-byte digests with the
  same root are equal, or two different messages with the same SHA-256 digest occur at the
  same place of the two computations.
\<close>

theorem MerkleRoot_binding:
  assumes "MerkleRoot xs = MerkleRoot ys" and "length xs = length ys"
    and "\<forall>x \<in> set xs \<union> set ys. length x = 32"
  shows "xs = ys \<or> (\<exists>k < length (merkle_messages xs). k < length (merkle_messages ys) \<and>
      merkle_messages xs ! k \<noteq> merkle_messages ys ! k \<and>
      sha256 (merkle_messages xs ! k) = sha256 (merkle_messages ys ! k))"
proof (cases "length xs \<le> 1")
  case True
  then show ?thesis using assms(1,2)
    by (cases xs; cases ys) (auto simp: MerkleRoot_def)
next
  case False
  then have "merkle_loop xs = merkle_loop ys" "xs \<noteq> []"
    using assms(1,2) by (auto simp: MerkleRoot_def split: if_splits)
  with merkle_loop_binding [of xs ys] assms show ?thesis
    by (simp add: message_collision_def)
qed

theorem MerkleRoot_binding_witness:
  "let xs = [replicate 32 1, replicate 32 2] in
   MerkleRoot xs = MerkleRoot xs \<and> (xs = xs \<or> message_collision (merkle_messages xs) (merkle_messages xs))"
proof -
  have "\<forall>x \<in> set [replicate 32 1, replicate 32 (2::byte)] \<union> set [replicate 32 1, replicate 32 2]. length x = 32"
    by auto
  from MerkleRoot_binding [OF refl refl this] show ?thesis
    unfolding Let_def message_collision_def by blast
qed

end
