(* ===== verification/S3_Fake.thy ===== *)
theory S3_Fake
  imports Json
begin

text \<open>
  internal/s3/s3.go: the object-storage interface and its in-memory implementation \<^verbatim>\<open>Fake\<close>,
  which enforces Object Lock: a retained object is neither overwritten nor deleted.

  \<^verbatim>\<open>Client\<close> is a record of operations over a state, like the stores. The reader passed to
  \<^verbatim>\<open>Put\<close> is a reader over bytes at every call, so it is the bytes. \<open>now\<close> is what
  \<^verbatim>\<open>time.Now\<close> returns. The map \<^verbatim>\<open>objects\<close> is the list of its entries in key order.
\<close>

record s3_object =
  ob_Key :: string
  ob_Bucket :: string
  ob_Size :: int
  ob_StorageClass :: string
  ob_RetentionDays :: int
  ob_LegalHold :: bool
  ob_CreatedAt :: time

record put_options =
  po_Key :: string
  po_ContentType :: string
  po_StorageClass :: string
  po_RetentionDays :: int
  po_LegalHold :: bool

record 's s3_client =
  sc_Put :: "time \<Rightarrow> string \<Rightarrow> put_options \<Rightarrow> bytes \<Rightarrow> 's \<Rightarrow> string result \<times> 's"
  sc_Get :: "string \<Rightarrow> string \<Rightarrow> 's \<Rightarrow> bytes result"
  sc_PresignGet :: "string \<Rightarrow> string \<Rightarrow> duration \<Rightarrow> 's \<Rightarrow> string result"
  sc_Head :: "string \<Rightarrow> string \<Rightarrow> 's \<Rightarrow> s3_object result"
  sc_Delete :: "time \<Rightarrow> string \<Rightarrow> string \<Rightarrow> 's \<Rightarrow> go_error option \<times> 's"

record fake_object =
  fo_bucket :: string
  fo_key :: string
  fo_body :: bytes
  fo_storageClass :: string
  fo_retentionDays :: int
  fo_legalHold :: bool
  fo_createdAt :: time

type_synonym fake = "(string \<times> fake_object) list"

definition NewFake :: fake where
  "NewFake = []"

definition isRetained :: "time \<Rightarrow> fake_object \<Rightarrow> bool" where
  "isRetained now ob =
     (if fo_legalHold ob then True
      else if fo_retentionDays ob \<le> 0 then False
      else now < fo_createdAt ob + duration_days (fo_retentionDays ob))"

definition object_name :: "string \<Rightarrow> string \<Rightarrow> string" where
  "object_name bucket key = bucket @ ''/'' @ key"

definition Fake_Put :: "time \<Rightarrow> string \<Rightarrow> put_options \<Rightarrow> bytes \<Rightarrow> fake \<Rightarrow> string result \<times> fake" where
  "Fake_Put now bucket opts body f =
     (let key = po_Key opts;
          put = (Inr key, map_put (object_name bucket key)
            \<lparr>fo_bucket = bucket, fo_key = key, fo_body = body,
             fo_storageClass = (if po_StorageClass opts = '''' then ''STANDARD'' else po_StorageClass opts),
             fo_retentionDays = po_RetentionDays opts, fo_legalHold = po_LegalHold opts,
             fo_createdAt = now\<rparr> f) in
      case map_of f (object_name bucket key) of
        Some ob \<Rightarrow> if isRetained now ob then (Inl (ErrRetentionActive key), f) else put
      | None \<Rightarrow> put)"

definition Fake_Get :: "string \<Rightarrow> string \<Rightarrow> fake \<Rightarrow> bytes result" where
  "Fake_Get bucket key f =
     (case map_of f (object_name bucket key) of
        None \<Rightarrow> Inl (S3ErrNotFound key) | Some ob \<Rightarrow> Inr (fo_body ob))"

definition Fake_PresignGet :: "string \<Rightarrow> string \<Rightarrow> duration \<Rightarrow> fake \<Rightarrow> string result" where
  "Fake_PresignGet bucket key ttl f =
     (case map_of f (object_name bucket key) of
        None \<Rightarrow> Inl (S3ErrNotFound key)
      | Some _ \<Rightarrow> Inr (''https://'' @ bucket @ ''.s3.example.com/'' @ key @ ''?ttl='' @ Duration_String ttl))"

definition Fake_Head :: "string \<Rightarrow> string \<Rightarrow> fake \<Rightarrow> s3_object result" where
  "Fake_Head bucket key f =
     (case map_of f (object_name bucket key) of
        None \<Rightarrow> Inl (S3ErrNotFound key)
      | Some ob \<Rightarrow> Inr \<lparr>ob_Key = fo_key ob, ob_Bucket = fo_bucket ob, ob_Size = int (length (fo_body ob)),
          ob_StorageClass = fo_storageClass ob, ob_RetentionDays = fo_retentionDays ob,
          ob_LegalHold = fo_legalHold ob, ob_CreatedAt = fo_createdAt ob\<rparr>)"

definition Fake_Delete :: "time \<Rightarrow> string \<Rightarrow> string \<Rightarrow> fake \<Rightarrow> go_error option \<times> fake" where
  "Fake_Delete now bucket key f =
     (case map_of f (object_name bucket key) of
        None \<Rightarrow> (Some (S3ErrNotFound key), f)
      | Some ob \<Rightarrow>
          if isRetained now ob then (Some (ErrRetentionActive key), f)
          else (None, filter (\<lambda>(k, _). k \<noteq> object_name bucket key) f))"

fun transition_loop :: "time \<Rightarrow> string \<Rightarrow> string \<Rightarrow> fake \<Rightarrow> int \<Rightarrow> fake \<times> int" where
  "transition_loop cutoff fromClass toClass [] n = ([], n)"
| "transition_loop cutoff fromClass toClass ((k, ob) # f) n =
     (if fo_storageClass ob \<noteq> fromClass \<or> fo_createdAt ob > cutoff then
        (case transition_loop cutoff fromClass toClass f n of (f', m) \<Rightarrow> ((k, ob) # f', m))
      else
        (case transition_loop cutoff fromClass toClass f (n + 1) of (f', m) \<Rightarrow>
           ((k, ob\<lparr>fo_storageClass := toClass\<rparr>) # f', m)))"

definition ApplyTransition :: "time \<Rightarrow> int \<Rightarrow> string \<Rightarrow> string \<Rightarrow> fake \<Rightarrow> int \<times> fake" where
  "ApplyTransition now ageDays fromClass toClass f =
     (case transition_loop (now + duration_days (- ageDays)) fromClass toClass f 0 of (f', n) \<Rightarrow> (n, f'))"

definition fake_client :: "fake s3_client" where
  "fake_client = \<lparr>sc_Put = Fake_Put, sc_Get = Fake_Get, sc_PresignGet = Fake_PresignGet,
     sc_Head = Fake_Head, sc_Delete = Fake_Delete\<rparr>"

section \<open>The Object Lock contract\<close>

text \<open>
  What the pipelines rely on, for any implementation of the client: reading after a write,
  no effect on other objects, and that an object that \<open>locked\<close> holds of at a time keeps its
  content under the operations of that time. \<open>ages\<close> is what the store does by itself, its
  lifecycle rules: it changes no content.
\<close>

locale object_store =
  fixes client :: "'s s3_client" and ages :: "'s \<Rightarrow> 's \<Rightarrow> bool" and inv :: "'s \<Rightarrow> bool"
    and content :: "'s \<Rightarrow> string \<Rightarrow> 'o option" and body_of :: "'o \<Rightarrow> bytes"
    and locked :: "time \<Rightarrow> 'o \<Rightarrow> bool"
  assumes locked_earlier: "locked t ob \<Longrightarrow> t' \<le> t \<Longrightarrow> locked t' ob"
    and Put_inv: "inv s \<Longrightarrow> sc_Put client t bucket opts body s = (r, s') \<Longrightarrow> inv s'"
    and Delete_inv: "inv s \<Longrightarrow> sc_Delete client t bucket key s = (d, s') \<Longrightarrow> inv s'"
    and ages_inv: "inv s \<Longrightarrow> ages s s' \<Longrightarrow> inv s'"
    and ages_kept: "inv s \<Longrightarrow> ages s s' \<Longrightarrow> content s' = content s"
    and Put_ok: "inv s \<Longrightarrow> sc_Put client t bucket opts body s = (Inr k, s') \<Longrightarrow>
      k = po_Key opts \<and> map_option body_of (content s' (object_name bucket k)) = Some body"
    and Put_kept: "inv s \<Longrightarrow> sc_Put client t bucket opts body s = (r, s') \<Longrightarrow>
      content s n = Some ob \<Longrightarrow> locked t ob \<or> n \<noteq> object_name bucket (po_Key opts) \<Longrightarrow> content s' n = Some ob"
    and Delete_kept: "inv s \<Longrightarrow> sc_Delete client t bucket key s = (d, s') \<Longrightarrow>
      content s n = Some ob \<Longrightarrow> locked t ob \<or> n \<noteq> object_name bucket key \<Longrightarrow> content s' n = Some ob"
    and Get_content: "inv s \<Longrightarrow> sc_Get client bucket key s = Inr b \<longleftrightarrow>
      map_option body_of (content s (object_name bucket key)) = Some b"

text \<open>The states reached by writes and deletions up to a time, and by ageing.\<close>

inductive object_reach :: "'s s3_client \<Rightarrow> ('s \<Rightarrow> 's \<Rightarrow> bool) \<Rightarrow> time \<Rightarrow> 's \<Rightarrow> 's \<Rightarrow> bool"
  for client and ages and limit where
  object_start: "object_reach client ages limit s s"
| object_Put: "object_reach client ages limit s s' \<Longrightarrow> t \<le> limit \<Longrightarrow>
    sc_Put client t bucket opts body s' = (r, s'') \<Longrightarrow> object_reach client ages limit s s''"
| object_Delete: "object_reach client ages limit s s' \<Longrightarrow> t \<le> limit \<Longrightarrow>
    sc_Delete client t bucket key s' = (d, s'') \<Longrightarrow> object_reach client ages limit s s''"
| object_ages: "object_reach client ages limit s s' \<Longrightarrow> ages s' s'' \<Longrightarrow> object_reach client ages limit s s''"

context object_store
begin

lemma reach_inv: "object_reach client ages limit s s' \<Longrightarrow> inv s \<Longrightarrow> inv s'"
  by (induction rule: object_reach.induct) (auto dest: Put_inv Delete_inv ages_inv)

lemma worm:
  assumes "object_reach client ages limit s s'" and "inv s"
    and "content s n = Some ob" and "locked limit ob"
  shows "content s' n = Some ob"
  using assms
proof (induction rule: object_reach.induct)
  case (object_Put s s' t bucket opts body r s'')
  then have "content s' n = Some ob" "locked t ob" "inv s'"
    using locked_earlier reach_inv by blast+
  then show ?case using Put_kept object_Put.hyps(3) by blast
next
  case (object_Delete s s' t bucket key d s'')
  then have "content s' n = Some ob" "locked t ob" "inv s'"
    using locked_earlier reach_inv by blast+
  then show ?case using Delete_kept object_Delete.hyps(3) by blast
next
  case (object_ages s s' s'')
  then show ?case using ages_kept reach_inv by metis
qed

lemma worm_Get:
  assumes "object_reach client ages limit s s'" and "inv s"
    and "content s (object_name bucket key) = Some ob" and "locked limit ob"
  shows "sc_Get client bucket key s' = Inr (body_of ob)"
  using worm [OF assms] Get_content [OF reach_inv [OF assms(1,2)]] by simp

end

section \<open>The fake keeps the contract\<close>

lemma map_of_remove: "map_of (filter (\<lambda>(k, _). k \<noteq> n) f) = (map_of f)(n := None)"
  by (induction f) (auto simp: fun_eq_iff)

lemma isRetained_earlier: "isRetained t ob \<Longrightarrow> t' \<le> t \<Longrightarrow> isRetained t' ob"
  by (auto simp: isRetained_def split: if_splits)

lemma canonical_map_filter: "canonical_map f \<Longrightarrow> canonical_map (filter P f)"
proof -
  have "subseq (map fst (filter P f)) (map fst f)" by (intro subseq_map subseq_filter_left)
  then show "canonical_map f \<Longrightarrow> canonical_map (filter P f)"
    unfolding canonical_map_def by (induction rule: list_emb.induct) (auto dest: list_emb_set)
qed

lemmas fake_defs = fake_client_def s3_client.simps Fake_Put_def Fake_Get_def Fake_Delete_def Let_def

text \<open>
  The lifecycle transition moves exactly the objects of the given class that are old
  enough, changes nothing else of them, and returns how many it moved.
\<close>

lemma ApplyTransition_moves:
  "ApplyTransition now ageDays fromClass toClass f =
    (let old = (\<lambda>ob. fo_storageClass ob = fromClass \<and> fo_createdAt ob \<le> now + duration_days (- ageDays)) in
     (int (length (filter (\<lambda>(k, ob). old ob) f)),
      map (\<lambda>(k, ob). (k, if old ob then ob\<lparr>fo_storageClass := toClass\<rparr> else ob)) f))"
proof -
  define cutoff where "cutoff = now + duration_days (- ageDays)"
  define old :: "fake_object \<Rightarrow> bool" where "old = (\<lambda>ob. fo_storageClass ob = fromClass \<and> fo_createdAt ob \<le> cutoff)"
  have "transition_loop cutoff fromClass toClass f n =
      (map (\<lambda>(k, ob). (k, if old ob then ob\<lparr>fo_storageClass := toClass\<rparr> else ob)) f,
       n + int (length (filter (\<lambda>(k, ob). old ob) f)))" for n
    by (induction f arbitrary: n)
      (auto simp: old_def not_less split: prod.splits)
  then show ?thesis by (simp add: ApplyTransition_def cutoff_def old_def Let_def)
qed

lemma canonical_map_fst: "map fst f' = map fst f \<Longrightarrow> canonical_map f' \<longleftrightarrow> canonical_map f"
  by (simp add: canonical_map_def)

text \<open>One run of the lifecycle rule, and what of an object it leaves: all but the storage class.\<close>

definition transitions :: "fake \<Rightarrow> fake \<Rightarrow> bool" where
  "transitions f f' \<longleftrightarrow>
     (\<exists>now ageDays fromClass toClass. f' = snd (ApplyTransition now ageDays fromClass toClass f))"

definition object_content :: "fake \<Rightarrow> string \<Rightarrow> fake_object option" where
  "object_content f n = map_option (\<lambda>ob. ob\<lparr>fo_storageClass := ''''\<rparr>) (map_of f n)"

lemma isRetained_class [simp]: "isRetained t (ob\<lparr>fo_storageClass := c\<rparr>) = isRetained t ob"
  by (simp add: isRetained_def)

lemma object_content_eq:
  "object_content f n = Some ob \<longleftrightarrow> (\<exists>o'. map_of f n = Some o' \<and> ob = o'\<lparr>fo_storageClass := ''''\<rparr>)"
  by (auto simp: object_content_def)

lemma map_of_class:
  "map_option (\<lambda>ob. ob\<lparr>fo_storageClass := c\<rparr>)
     (map_of (map (\<lambda>(k, ob). (k, if old ob then ob\<lparr>fo_storageClass := d\<rparr> else ob)) f) n) =
   map_option (\<lambda>ob. ob\<lparr>fo_storageClass := c\<rparr>) (map_of f n)"
  by (induction f) auto

lemma transitions_fst: "transitions f f' \<Longrightarrow> map fst f' = map fst f"
  by (auto simp: transitions_def ApplyTransition_moves Let_def)

lemma transitions_content: "transitions f f' \<Longrightarrow> object_content f' n = object_content f n"
  by (auto simp: transitions_def ApplyTransition_moves Let_def object_content_def map_of_class)

interpretation fk: object_store fake_client transitions canonical_map object_content fo_body isRetained
proof (unfold_locales, goal_cases)
  case (1 t ob t')
  then show ?case by (rule isRetained_earlier)
next
  case (2 s t bucket opts body r s')
  then show ?case by (auto simp: fake_defs canonical_map_put split: option.splits if_splits)
next
  case (3 s t bucket key d s')
  then show ?case by (auto simp: fake_defs canonical_map_filter split: option.splits if_splits)
next
  case (4 s s')
  then show ?case using transitions_fst canonical_map_fst by blast
next
  case (5 s s')
  then show ?case using transitions_content by blast
next
  case (6 s t bucket opts body k s')
  then show ?case
    by (auto simp: fake_defs map_of_map_put object_content_def split: option.splits if_splits)
next
  case (7 s t bucket opts body r s' n ob)
  then show ?case
    by (auto simp: fake_defs map_of_map_put object_content_eq split: option.splits if_splits)
next
  case (8 s t bucket key d s' n ob)
  then show ?case
    by (auto simp: fake_defs map_of_remove object_content_eq split: option.splits if_splits)
next
  case (9 s bucket key b)
  then show ?case by (auto simp: fake_defs object_content_def split: option.splits)
qed

section \<open>Properties\<close>

text \<open>
  C18: Object Lock holds in the fake store. After any sequence of writes (to the object's own
  key too) and deletions up to a time at which an object is retained, with lifecycle
  transitions at any point between them, the object is still there with everything but its
  storage class unchanged: it is read back with the same bytes, and a write to it or a
  deletion of it up to that time is refused and leaves the store as it is.
\<close>

theorem object_lock_holds:
  assumes "canonical_map f" and "map_of f (object_name bucket key) = Some ob"
    and "isRetained limit ob" and "object_reach fake_client transitions limit f f'"
  shows "(\<exists>c. map_of f' (object_name bucket key) = Some (ob\<lparr>fo_storageClass := c\<rparr>)) \<and>
    Fake_Get bucket key f' = Inr (fo_body ob) \<and>
    (t \<le> limit \<longrightarrow> Fake_Delete t bucket key f' = (Some (ErrRetentionActive key), f') \<and>
       Fake_Put t bucket (opts\<lparr>po_Key := key\<rparr>) body f' = (Inl (ErrRetentionActive key), f'))"
proof -
  have "object_content f (object_name bucket key) = Some (ob\<lparr>fo_storageClass := ''''\<rparr>)"
    using assms(2) by (simp add: object_content_def)
  then have "object_content f' (object_name bucket key) = Some (ob\<lparr>fo_storageClass := ''''\<rparr>)"
    using fk.worm [OF assms(4,1)] assms(3) by simp
  then obtain o' where o': "map_of f' (object_name bucket key) = Some o'"
    "ob\<lparr>fo_storageClass := ''''\<rparr> = o'\<lparr>fo_storageClass := ''''\<rparr>"
    unfolding object_content_eq by blast
  have eq: "o' = ob\<lparr>fo_storageClass := fo_storageClass o'\<rparr>" using o'(2) by (cases ob; cases o') simp
  have "fo_body o' = fo_body ob" "t \<le> limit \<Longrightarrow> isRetained t o'"
    using isRetained_earlier [OF assms(3)] by (subst eq, simp)+
  with o'(1) eq show ?thesis
    by (auto simp: Fake_Get_def Fake_Delete_def Fake_Put_def Let_def)
qed

text \<open>An object written on a given day with a one-day lock, for concrete inputs.\<close>

abbreviation one_day_lock :: put_options where
  "one_day_lock \<equiv> \<lparr>po_Key = ''k'', po_ContentType = '''', po_StorageClass = '''', po_RetentionDays = 1,
     po_LegalHold = False\<rparr>"

theorem object_lock_holds_witness:
  "Fake_Get ''b'' ''k'' (snd (ApplyTransition 9 0 ''STANDARD'' ''GLACIER''
     (snd (Fake_Put 9 ''b'' one_day_lock [2] (snd (Fake_Put 5 ''b'' one_day_lock [1] NewFake)))))) =
   Inr [1]"
proof -
  let ?f = "snd (Fake_Put 5 ''b'' one_day_lock [1] NewFake)"
  let ?g = "snd (Fake_Put 9 ''b'' one_day_lock [2] ?f)"
  have "object_reach fake_client transitions 9 ?f ?g"
    by (rule object_Put [OF object_start order_refl, where r = "fst (Fake_Put 9 ''b'' one_day_lock [2] ?f)"])
      (simp add: fake_client_def)
  moreover have "transitions ?g (snd (ApplyTransition 9 0 ''STANDARD'' ''GLACIER'' ?g))"
    unfolding transitions_def by blast
  ultimately have reach: "object_reach fake_client transitions 9 ?f
      (snd (ApplyTransition 9 0 ''STANDARD'' ''GLACIER'' ?g))"
    by (rule object_ages)
  have "canonical_map ?f" by (simp add: Fake_Put_def NewFake_def canonical_map_def Let_def)
  then show ?thesis
    using object_lock_holds [OF _ _ _ reach]
    by (simp add: Fake_Put_def [of 5] NewFake_def Let_def isRetained_def duration_days_small)
qed

text \<open>
  C39: the retention test is the documented one as long as the period fits a \<^verbatim>\<open>time.Duration\<close>:
  for at most 106751 days an object is retained under a legal hold, or until that many days
  have passed since it was written. From 106752 days to 213503 days the product wraps
  around and an object without a hold is not retained at all.
\<close>

theorem retention_window:
  "(fo_retentionDays ob \<le> 106751 \<longrightarrow>
     (isRetained now ob \<longleftrightarrow> fo_legalHold ob \<or>
        0 < fo_retentionDays ob \<and> now < fo_createdAt ob + fo_retentionDays ob * 86400000000000)) \<and>
   (106752 \<le> fo_retentionDays ob \<and> fo_retentionDays ob \<le> 213503 \<and> \<not> fo_legalHold ob \<and>
      fo_createdAt ob \<le> now \<longrightarrow> \<not> isRetained now ob)"
proof -
  have "duration_days d < 0" if "106752 \<le> d" "d \<le> 213503" for d
  proof -
    have "wrap64 (d * 24) = d * 24" using that by (intro wrap64_small) auto
    moreover have "wrap64 (d * 24 * 3600000000000) = d * 24 * 3600000000000 - 18446744073709551616"
      using that by (intro wrap64_wrapped) auto
    ultimately show ?thesis using that by (simp add: duration_days_def)
  qed
  from this [of "fo_retentionDays ob"] show ?thesis
    by (auto simp: isRetained_def duration_days_small not_le)
qed

theorem retention_window_witness:
  "isRetained 7 \<lparr>fo_bucket = '''', fo_key = '''', fo_body = [], fo_storageClass = '''',
     fo_retentionDays = 2555, fo_legalHold = False, fo_createdAt = 5\<rparr> \<and>
   \<not> isRetained 7 \<lparr>fo_bucket = '''', fo_key = '''', fo_body = [], fo_storageClass = '''',
     fo_retentionDays = 110000, fo_legalHold = False, fo_createdAt = 5\<rparr>"
  using retention_window [of "\<lparr>fo_bucket = '''', fo_key = '''', fo_body = [], fo_storageClass = '''',
       fo_retentionDays = 2555, fo_legalHold = False, fo_createdAt = 5\<rparr>" 7]
    retention_window [of "\<lparr>fo_bucket = '''', fo_key = '''', fo_body = [], fo_storageClass = '''',
       fo_retentionDays = 110000, fo_legalHold = False, fo_createdAt = 5\<rparr>" 7]
  by simp

end
