(* ===== verification/Redaction.thy ===== *)
theory Redaction
  imports Sha256 Json
begin

text \<open>
  internal/redaction/redaction.go: the redaction policy, its parser, its application to a
  payload, and the reloader.

  The payload is decoded into a map of \<^verbatim>\<open>any\<close> and encoded again as in \<open>Json\<close>; \<open>fl\<close> is the
  number conversion explained there and \<open>uni\<close> is \<^verbatim>\<open>strings.ToLower\<close> outside ASCII. The loop
  of \<^verbatim>\<open>Apply\<close> visits the keys in Go's random order; each step reads and writes only its own
  key, so the model maps over the entries. The error branches of \<^verbatim>\<open>applyTransform\<close> and of the
  final \<^verbatim>\<open>json.Marshal\<close> cannot be reached: encoding a decoded value does not fail.
\<close>

section \<open>Policies\<close>

type_synonym transform = string

definition TransformNone :: transform where "TransformNone = ''none''"
definition TransformHash :: transform where "TransformHash = ''hash''"
definition TransformMask :: transform where "TransformMask = ''mask''"
definition TransformDrop :: transform where "TransformDrop = ''drop''"

record rule =
  r_Service :: string
  r_Action :: string
  r_Fields :: "string \<rightharpoonup> transform"

type_synonym policy = "rule list"

fun matches :: "policy \<Rightarrow> string \<Rightarrow> string \<Rightarrow> rule list" where
  "matches [] service action = []"
| "matches (r # rs) service action =
     (if r_Service r \<noteq> ''*'' \<and> r_Service r \<noteq> service then matches rs service action
      else if r_Action r \<noteq> ''*'' \<and> r_Action r \<noteq> action then matches rs service action
      else r # matches rs service action)"

section \<open>Transforms\<close>

definition asString :: "json \<Rightarrow> string" where
  "asString v = (case v of JStr s \<Rightarrow> s | _ \<Rightarrow> Marshal v)"

text \<open>\<^verbatim>\<open>string(s[0])\<close> converts a byte to the text of the rune with that number.\<close>

definition maskString :: "string \<Rightarrow> string" where
  "maskString s =
     (if length s \<le> 2 then ''*''
      else encode_rune (code (s ! 0)) @ replicate (length s - 2) (CHR ''*'') @
        encode_rune (code (s ! (length s - 1))))"

definition IsDrop :: "transform \<Rightarrow> bool" where
  "IsDrop t \<longleftrightarrow> t = TransformDrop"

definition applyTransform :: "transform \<Rightarrow> json \<Rightarrow> json \<times> bool" where
  "applyTransform t v =
     (if t = TransformNone then (v, False)
      else if t = TransformHash then
        (JStr (''sha256:'' @ hex_EncodeToString (sha256 (bytes_of_string (Marshal v)))), True)
      else if t = TransformMask then
        (let s = asString v in if s = '''' then (v, False) else (JStr (maskString s), True))
      else if t = TransformDrop then (JNull, True)
      else (v, False))"

section \<open>Application\<close>

text \<open>The inner loop: the first matching rule that names the field decides.\<close>

fun field_transform :: "rule list \<Rightarrow> string \<Rightarrow> transform option" where
  "field_transform [] lower = None"
| "field_transform (r # rs) lower =
     (case r_Fields r lower of None \<Rightarrow> field_transform rs lower | Some t \<Rightarrow> Some t)"

text \<open>One key: its new entry (none when it is dropped), and whether it changed.\<close>

definition redact_entry ::
  "(string \<Rightarrow> string) \<Rightarrow> rule list \<Rightarrow> string \<times> json \<Rightarrow> (string \<times> json) list \<times> bool" where
  "redact_entry uni rules e =
     (case e of (k, v) \<Rightarrow>
       (case field_transform rules (ToLower uni k) of
          None \<Rightarrow> ([(k, v)], False)
        | Some t \<Rightarrow>
            if t = TransformDrop then ([], True)
            else case applyTransform t v of (newVal, fieldChanged) \<Rightarrow>
              if fieldChanged then ([(k, newVal)], True) else ([(k, v)], False)))"

definition redact_map ::
  "(string \<Rightarrow> string) \<Rightarrow> rule list \<Rightarrow> (string \<times> json) list \<Rightarrow> (string \<times> json) list \<times> bool" where
  "redact_map uni rules m =
     (concat (map (\<lambda>e. fst (redact_entry uni rules e)) m),
      list_ex (\<lambda>e. snd (redact_entry uni rules e)) m)"

text \<open>The receiver may be a nil policy.\<close>

definition Policy_Apply ::
  "(string \<Rightarrow> string option) \<Rightarrow> (string \<Rightarrow> string) \<Rightarrow> policy option \<Rightarrow> string \<Rightarrow> string \<Rightarrow> bytes \<Rightarrow>
   (bytes \<times> bool) result" where
  "Policy_Apply fl uni p service action body =
     (case p of None \<Rightarrow> Inr (body, False)
      | Some rules \<Rightarrow>
         if length rules = 0 \<or> length body = 0 then Inr (body, False)
         else
           let ms = matches rules service action in
           if length ms = 0 then Inr (body, False)
           else case Unmarshal_map fl body of
             None \<Rightarrow> Inl (ErrWrap ''redaction: decode payload: ''
                      (ErrJson ''map[string]interface {}'' (string_of_bytes body)))
           | Some obj \<Rightarrow>
               (case redact_map uni ms obj of (obj', changed) \<Rightarrow>
                 if \<not> changed then Inr (body, False)
                 else Inr (bytes_of_string (Marshal (JObj obj')), True)))"

section \<open>The parser\<close>

definition unquote :: "string \<Rightarrow> string" where
  "unquote s =
     (if length s \<ge> 2 \<and>
        (s ! 0 = dquote \<and> s ! (length s - 1) = dquote \<or>
         s ! 0 = CHR 0x27 \<and> s ! (length s - 1) = CHR 0x27)
      then take (length s - 2) (drop 1 s) else s)"

text \<open>One line: the rules completed so far and the rule being read.\<close>

definition parse_line :: "string \<Rightarrow> rule list \<times> rule option \<Rightarrow> rule list \<times> rule option" where
  "parse_line raw st =
     (case st of (rules, current) \<Rightarrow>
       let line = TrimSpace raw in
       if line = '''' \<or> prefix ''#'' line then (rules, current)
       else if prefix ''rules:'' line then (rules, current)
       else if prefix ''- service:'' line then
         ((case current of None \<Rightarrow> rules | Some c \<Rightarrow> rules @ [c]),
          Some \<lparr>r_Service = unquote (TrimSpace (TrimPrefix line ''- service:'')),
                r_Action = '''', r_Fields = Map.empty\<rparr>)
       else case current of None \<Rightarrow> (rules, None)
       | Some c \<Rightarrow>
           if prefix ''action:'' line then
             (rules, Some (c\<lparr>r_Action := unquote (TrimSpace (TrimPrefix line ''action:''))\<rparr>))
           else if prefix ''fields:'' line then (rules, Some c)
           else if CHR '':'' \<in> set line then
             (case split_first (CHR '':'') line of (a, b) \<Rightarrow>
               let field = TrimSpace a; t = TrimSpace b in
               (case r_Fields c field of
                  None \<Rightarrow> (rules, Some (c\<lparr>r_Fields := (r_Fields c)(field \<mapsto> t)\<rparr>))
                | Some _ \<Rightarrow> (rules, Some c)))
           else (rules, Some c))"

definition Parse :: "string \<Rightarrow> policy result" where
  "Parse text =
     (case fold parse_line (split_at_char newline text) ([], None) of
        (rules, None) \<Rightarrow> Inr rules
      | (rules, Some c) \<Rightarrow> Inr (rules @ [c]))"

section \<open>Loading and reloading\<close>

text \<open>What opening and reading a file gives.\<close>

datatype file_read = NotExist | OpenFailed go_error | ReadFailed go_error | Contents string

definition LoadReader :: "go_error + string \<Rightarrow> policy result" where
  "LoadReader r = (case r of Inl err \<Rightarrow> Inl err | Inr data \<Rightarrow> Parse data)"

definition LoadFile :: "(string \<Rightarrow> file_read) \<Rightarrow> string \<Rightarrow> policy result" where
  "LoadFile fs path =
     (if path = '''' then Inr []
      else case fs path of
        NotExist \<Rightarrow> Inr []
      | OpenFailed err \<Rightarrow> Inl (PolicyLoadError path err)
      | ReadFailed err \<Rightarrow> LoadReader (Inl err)
      | Contents data \<Rightarrow> LoadReader (Inr data))"

record reloader =
  rl_policy :: policy
  rl_path :: string

definition NewReloader :: "(string \<Rightarrow> file_read) \<Rightarrow> string \<Rightarrow> reloader result" where
  "NewReloader fs path =
     (case LoadFile fs path of Inl err \<Rightarrow> Inl err
      | Inr p \<Rightarrow> Inr \<lparr>rl_policy = p, rl_path = path\<rparr>)"

definition Reload :: "(string \<Rightarrow> file_read) \<Rightarrow> reloader \<Rightarrow> go_error option \<times> reloader" where
  "Reload fs r =
     (case LoadFile fs (rl_path r) of Inl err \<Rightarrow> (Some err, r)
      | Inr p \<Rightarrow> (None, r\<lparr>rl_policy := p\<rparr>))"

definition Reloader_Policy :: "reloader \<Rightarrow> policy" where
  "Reloader_Policy r = rl_policy r"

definition Reloader_Apply ::
  "(string \<Rightarrow> string option) \<Rightarrow> (string \<Rightarrow> string) \<Rightarrow> reloader \<Rightarrow> string \<Rightarrow> string \<Rightarrow> bytes \<Rightarrow>
   (bytes \<times> bool) result" where
  "Reloader_Apply fl uni r service action body = Policy_Apply fl uni (Some (rl_policy r)) service action body"

section \<open>Lemmas\<close>

lemma matches_filter:
  "matches rs s a = filter (\<lambda>r. (r_Service r = ''*'' \<or> r_Service r = s) \<and> (r_Action r = ''*'' \<or> r_Action r = a)) rs"
  by (induction rs) auto

text \<open>The transform a policy gives to a key of an event's payload.\<close>

definition transform_of ::
  "(string \<Rightarrow> string) \<Rightarrow> policy \<Rightarrow> string \<Rightarrow> string \<Rightarrow> string \<Rightarrow> transform option" where
  "transform_of uni p service action k = field_transform (matches p service action) (ToLower uni k)"

lemma redact_entry_drop:
  "field_transform rs (ToLower uni k) = Some TransformDrop \<Longrightarrow> redact_entry uni rs (k, v) = ([], True)"
  by (simp add: redact_entry_def)

lemma redact_map_same_kept:
  assumes "map fst m1 = map fst m2"
    and "\<And>i. i < length m1 \<Longrightarrow> field_transform rs (ToLower uni (fst (m1 ! i))) \<noteq> Some TransformDrop \<Longrightarrow> m1 ! i = m2 ! i"
  shows "redact_map uni rs m1 = redact_map uni rs m2"
proof -
  have len: "length m1 = length m2" using assms(1) by (metis length_map)
  have fst_eq: "fst (m1 ! i) = fst (m2 ! i)" if "i < length m1" for i
    using assms(1) that len by (metis nth_map)
  have "redact_entry uni rs (m1 ! i) = redact_entry uni rs (m2 ! i)" if i: "i < length m1" for i
  proof (cases "field_transform rs (ToLower uni (fst (m1 ! i))) = Some TransformDrop")
    case True
    then show ?thesis
      using fst_eq [OF i] redact_entry_drop by (metis prod.collapse)
  next
    case False
    then show ?thesis using assms(2) [OF i] by simp
  qed
  then have eq: "map (redact_entry uni rs) m1 = map (redact_entry uni rs) m2"
    using len by (intro nth_equalityI) auto
  have "redact_map uni rs m = (concat (map fst (map (redact_entry uni rs) m)),
      list_ex snd (map (redact_entry uni rs) m))" for m
    by (simp add: redact_map_def comp_def list_ex_iff)
  then show ?thesis by (simp only: eq)
qed

lemma redact_map_changed:
  assumes "(k, v) \<in> set m" and "field_transform rs (ToLower uni k) = Some TransformDrop"
  shows "snd (redact_map uni rs m)"
  using assms redact_entry_drop [OF assms(2), of v] by (force simp: redact_map_def list_ex_iff)

lemma redact_entry_key:
  "redact_entry uni rs (k, v) =
     (case field_transform rs (ToLower uni k) of None \<Rightarrow> ([(k, v)], False)
      | Some t \<Rightarrow> if t = TransformDrop then ([], True)
          else ([(k, fst (applyTransform t v))], snd (applyTransform t v)))"
proof -
  have "\<not> snd (applyTransform t v) \<Longrightarrow> fst (applyTransform t v) = v" for t
    by (auto simp: applyTransform_def Let_def split: if_splits)
  then show ?thesis
    by (auto simp: redact_entry_def split: option.splits prod.splits) (metis fst_conv snd_conv)
qed

text \<open>
  What a policy asks for one key, stated on its own: the first rule of the list that is for
  the service and the action and names the field decides. The value is removed, replaced or
  kept; a masked text keeps its first and last byte (as runes) and its length in between.
\<close>

datatype redaction = Keep | Remove | Replace json

definition masked :: "string \<Rightarrow> string" where
  "masked s =
     (if length s < 3 then ''*''
      else encode_rune (of_char (hd s)) @ map (\<lambda>_. CHR ''*'') (butlast (tl s)) @ encode_rune (of_char (last s)))"

definition redaction_of :: "transform \<Rightarrow> json \<Rightarrow> redaction" where
  "redaction_of t v =
     (let s = (case v of JStr x \<Rightarrow> x | _ \<Rightarrow> Marshal v) in
      if t = ''drop'' then Remove
      else if t = ''hash'' then Replace (JStr (''sha256:'' @ hex_EncodeToString (sha256 (bytes_of_string (Marshal v)))))
      else if t = ''mask'' \<and> s \<noteq> '''' then Replace (JStr (masked s))
      else Keep)"

definition redaction_for ::
  "(string \<Rightarrow> string) \<Rightarrow> policy \<Rightarrow> string \<Rightarrow> string \<Rightarrow> string \<Rightarrow> json \<Rightarrow> redaction" where
  "redaction_for uni p service action k v =
     (case find (\<lambda>r. r_Service r \<in> {''*'', service} \<and> r_Action r \<in> {''*'', action} \<and>
          ToLower uni k \<in> dom (r_Fields r)) p of
        None \<Rightarrow> Keep
      | Some r \<Rightarrow> redaction_of (the (r_Fields r (ToLower uni k))) v)"

lemma maskString_masked: "maskString s = masked s"
proof (cases "length s < 3")
  case False
  then have "s \<noteq> []" by auto
  with False show ?thesis
    by (simp add: maskString_def masked_def hd_conv_nth last_conv_nth map_replicate_const)
qed (simp add: maskString_def masked_def)

lemma field_transform_find:
  "field_transform (matches p service action) f =
     Option.bind (find (\<lambda>r. r_Service r \<in> {''*'', service} \<and> r_Action r \<in> {''*'', action} \<and>
       f \<in> dom (r_Fields r)) p) (\<lambda>r. r_Fields r f)"
  by (induction p) (auto split: option.splits)

lemma applyTransform_redaction:
  "(if t = TransformDrop then ([], True)
    else ([(k, fst (applyTransform t v))], snd (applyTransform t v))) =
   (case redaction_of t v of Keep \<Rightarrow> ([(k, v)], False) | Remove \<Rightarrow> ([], True) | Replace w \<Rightarrow> ([(k, w)], True))"
  by (simp add: redaction_of_def applyTransform_def TransformNone_def TransformHash_def TransformMask_def
      TransformDrop_def Let_def asString_def maskString_masked)

lemma redact_entry_redaction:
  "redact_entry uni (matches p service action) (k, v) =
     (case redaction_for uni p service action k v of
        Keep \<Rightarrow> ([(k, v)], False) | Remove \<Rightarrow> ([], True) | Replace w \<Rightarrow> ([(k, w)], True))"
proof (cases "find (\<lambda>r. r_Service r \<in> {''*'', service} \<and> r_Action r \<in> {''*'', action} \<and>
    ToLower uni k \<in> dom (r_Fields r)) p")
  case None
  then have "field_transform (matches p service action) (ToLower uni k) = None"
    and "redaction_for uni p service action k v = Keep"
    unfolding field_transform_find redaction_for_def by simp_all
  then show ?thesis by (simp add: redact_entry_key)
next
  case (Some r)
  then obtain t where t: "r_Fields r (ToLower uni k) = Some t"
    unfolding find_Some_iff by blast
  then have "field_transform (matches p service action) (ToLower uni k) = Some t"
    and "redaction_for uni p service action k v = redaction_of t v"
    using Some unfolding field_transform_find redaction_for_def by simp_all
  then show ?thesis by (simp add: redact_entry_key applyTransform_redaction)
qed

text \<open>The redacted map, looked up.\<close>

definition redacted_value :: "redaction \<Rightarrow> json \<Rightarrow> json option" where
  "redacted_value r v = (case r of Keep \<Rightarrow> Some v | Remove \<Rightarrow> None | Replace w \<Rightarrow> Some w)"

lemma redact_keys: "k \<notin> fst ` set m \<Longrightarrow> map_of (fst (redact_map uni rs m)) k = None"
  by (induction m) (auto simp: redact_map_def redact_entry_key map_add_Some_iff split: option.splits)

lemma map_of_redact_map:
  assumes "distinct (map fst m)"
  shows "map_of (fst (redact_map uni (matches p service action) m)) k =
    (case map_of m k of None \<Rightarrow> None
     | Some v \<Rightarrow> redacted_value (redaction_for uni p service action k v) v)"
  using assms
proof (induction m)
  case (Cons e m)
  obtain k' v where e: "e = (k', v)" by (cases e)
  have "map_of m k' = None" using Cons.prems by (simp add: e map_of_eq_None_iff)
  moreover have "k' \<notin> fst ` set m" using Cons.prems by (simp add: e)
  ultimately show ?case using Cons redact_keys [of k' m uni "matches p service action"]
    by (auto simp: e redact_map_def redact_entry_redaction redacted_value_def map_add_def
        split: option.splits redaction.splits)
qed (simp add: redact_map_def)

lemma redact_map_changes:
  assumes "distinct (map fst m)"
  shows "snd (redact_map uni (matches p service action) m) \<longleftrightarrow>
    (\<exists>k v. map_of m k = Some v \<and> redaction_for uni p service action k v \<noteq> Keep)"
proof -
  have "snd (redact_entry uni (matches p service action) (k, v)) \<longleftrightarrow>
      redaction_for uni p service action k v \<noteq> Keep" for k v
    by (simp add: redact_entry_redaction split: redaction.split)
  then show ?thesis using assms by (auto simp: redact_map_def list_ex_iff)
qed

lemma json_any_map_canonical: "json_any_map fl ms m = Some m' \<Longrightarrow> canonical_map m \<Longrightarrow> canonical_map m'"
  by (induction ms arbitrary: m) (auto simp: canonical_map_put split: option.splits)

lemma Unmarshal_map_canonical: "Unmarshal_map fl b = Some m \<Longrightarrow> canonical_map m"
  by (auto simp: Unmarshal_map_def canonical_map_def [of "[]"] split: option.splits json.splits
      dest: json_any_map_canonical)

lemma canonical_distinct: "canonical_map m \<Longrightarrow> distinct (map fst m)"
  by (simp add: canonical_map_def strict_sorted_iff)

section \<open>Concrete policies and payloads\<close>

definition sample_body :: "string \<Rightarrow> bytes" where
  "sample_body v = bytes_of_string (''{'' @ [dquote, CHR ''k'', dquote] @ '':'' @ v @ ''}'')"

definition sample_policy :: "string \<Rightarrow> transform \<Rightarrow> policy" where
  "sample_policy field t = [\<lparr>r_Service = ''*'', r_Action = ''*'', r_Fields = [field \<mapsto> t]\<rparr>]"

lemma sample_body_nonempty [simp]: "sample_body v \<noteq> []"
  by (simp add: sample_body_def bytes_of_string_def)

lemma sample_Unmarshal:
  "Unmarshal_map Some (sample_body ''true'') = Some [(''k'', JBool True)]"
  "Unmarshal_map Some (sample_body ''null'') = Some [(''k'', JNull)]"
  by code_simp+

lemma transform_of_sample [simp]:
  "transform_of uni (sample_policy f t) s a k = (if ToLower uni k = f then Some t else None)"
  by (simp add: transform_of_def sample_policy_def)

lemma sample_lower [simp]: "ToLower uni ''k'' = ''k''"
  by (simp add: ToLower_def is_ascii_def ascii_lower_def byte_in_def)

section \<open>Properties\<close>



text \<open>
  A dropped value does not reach the object store. Two payloads with the same keys that
  differ only in the values of keys the policy drops, and have such a key, are redacted to
  the same bytes.
\<close>

theorem drop_noninterference:
  assumes "Unmarshal_map fl b1 = Some m1" and "Unmarshal_map fl b2 = Some m2"
    and "map fst m1 = map fst m2"
    and "\<forall>i < length m1. transform_of uni p s a (fst (m1 ! i)) \<noteq> Some TransformDrop \<longrightarrow> m1 ! i = m2 ! i"
    and "(k, v) \<in> set m1" and "transform_of uni p s a k = Some TransformDrop"
  shows "Policy_Apply fl uni (Some p) s a b1 = Policy_Apply fl uni (Some p) s a b2"
proof -
  have same: "redact_map uni (matches p s a) m1 = redact_map uni (matches p s a) m2"
    using assms(3,4) by (intro redact_map_same_kept) (auto simp: transform_of_def)
  have changed: "snd (redact_map uni (matches p s a) m1)"
    using redact_map_changed [OF assms(5)] assms(6) by (simp add: transform_of_def)
  have "matches p s a \<noteq> []" using assms(6) by (auto simp: transform_of_def)
  then have "p \<noteq> []" by auto
  have "b1 \<noteq> []" "b2 \<noteq> []" using assms(1,2)
    by (auto simp: Unmarshal_map_def json_parse_def parse_value.simps skip_ws_def string_of_bytes_def)
  then show ?thesis
    using same changed assms(1,2) \<open>p \<noteq> []\<close> \<open>matches p s a \<noteq> []\<close>
    by (auto simp: Policy_Apply_def Let_def split: prod.splits)
qed

theorem drop_noninterference_witness:
  "Policy_Apply Some id (Some (sample_policy ''k'' TransformDrop)) ''s'' ''a'' (sample_body ''true'') =
   Policy_Apply Some id (Some (sample_policy ''k'' TransformDrop)) ''s'' ''a'' (sample_body ''null'')"
  using drop_noninterference [OF sample_Unmarshal(1,2), of id "sample_policy ''k'' TransformDrop" "''s''" "''a''" "''k''" "JBool True"]
  by simp

text \<open>
  A policy field with an upper-case letter never applies to an ASCII key: the payload's
  keys are lowered before the lookup, the policy's fields are not, so such a policy stores
  the payload as it is.
\<close>

theorem upper_case_field_never_applies:
  assumes "Unmarshal_map fl body = Some m" and "\<forall>k \<in> fst ` set m. is_ascii k"
    and "\<forall>r \<in> set p. \<forall>f. r_Fields r f \<noteq> None \<longrightarrow> (\<exists>c \<in> set f. byte_in 65 90 c)"
  shows "Policy_Apply fl uni (Some p) service action body = Inr (body, False)"
proof -
  have low: "\<not> byte_in 65 90 c" if "c \<in> set (map ascii_lower k)" for c k
  proof -
    obtain d where d: "c = ascii_lower d" using \<open>c \<in> set (map ascii_lower k)\<close> by auto
    have "(of_char (char_of (of_char d + 32 :: nat)) :: nat) = of_char d + 32" if "byte_in 65 90 d"
      using that by (simp add: byte_in_def)
    then show ?thesis by (auto simp: d ascii_lower_def byte_in_def)
  qed
  have "field_transform rs (map ascii_lower k) = None" if "set rs \<subseteq> set p" for rs k
    using that by (induction rs) (auto split: option.splits dest!: assms(3) [rule_format] low)
  then have none: "field_transform (matches p service action) (ToLower uni k) = None"
    if "k \<in> fst ` set m" for k
    using that assms(2) by (auto simp: ToLower_def matches_filter)
  have "\<not> snd (redact_map uni (matches p service action) m)"
    using none by (force simp: redact_map_def list_ex_iff redact_entry_key)
  then show ?thesis using assms(1) by (auto simp: Policy_Apply_def Let_def split: prod.splits)
qed

theorem upper_case_field_never_applies_witness:
  "Policy_Apply Some id (Some (sample_policy ''K'' TransformDrop)) ''s'' ''a'' (sample_body ''true'') =
     Inr (sample_body ''true'', False)"
  by (rule upper_case_field_never_applies [OF sample_Unmarshal(1)])
    (auto simp: is_ascii_def sample_policy_def byte_in_def)

text \<open>
  Reloading is atomic. A reload that fails keeps the policy in force and returns the
  error; one that succeeds installs exactly what the file parses to, the empty policy if the
  file is gone; the path never changes.
\<close>

theorem Reload_swaps_or_keeps:
  "Reload fs r = (err, r') \<longleftrightarrow>
     rl_path r' = rl_path r \<and>
     (case LoadFile fs (rl_path r) of
        Inl e \<Rightarrow> err = Some e \<and> rl_policy r' = rl_policy r
      | Inr p \<Rightarrow> err = None \<and> rl_policy r' = p)"
  by (cases r; cases r') (auto simp: Reload_def split: sum.splits)

end
