(* ===== verification/Metrics.thy ===== *)
theory Metrics
  imports Prelude
begin

text \<open>
  internal/metrics/metrics.go: the Prometheus collectors as state, one count for each
  collector and label values. Of the two latency histograms the number of observations is
  kept, not the observed seconds.
\<close>

datatype metric =
    EventsIngested string
  | IngestDuplicates string
  | IngestRejections string string
  | IngestLatency string
  | QueryLatency string
  | ChainAnchors string
  | ChainVerifyOutcomes string
  | ExportsCreated string
  | ExportsCompleted string string
  | DeadLettered string

type_synonym metrics = "metric \<Rightarrow> nat"

definition no_metrics :: metrics where
  "no_metrics = (\<lambda>_. 0)"

text \<open>\<^verbatim>\<open>WithLabelValues(...).Inc()\<close> and \<^verbatim>\<open>Observe(...)\<close>\<close>

definition Inc :: "metric \<Rightarrow> metrics \<Rightarrow> metrics" where
  "Inc m ms = ms(m := ms m + 1)"

lemma Inc_apply: "Inc m ms x = (if x = m then ms x + 1 else ms x)"
  by (simp add: Inc_def)

section \<open>Registration\<close>

definition collectors :: "string list" where
  "collectors = map ((@) ''audit_event_log_'')
     [''events_ingested_total'', ''ingest_duplicates_total'', ''ingest_rejections_total'', ''ingest_duration_seconds'',
      ''query_duration_seconds'', ''chain_anchors_total'', ''chain_verify_outcomes_total'', ''exports_created_total'',
      ''exports_completed_total'', ''dead_lettered_total'']"

text \<open>
  \<^verbatim>\<open>Register\<close>: the state is \<^verbatim>\<open>registerOnce\<close> and the registries. \<open>must\<close> is \<^verbatim>\<open>MustRegister\<close> of the
  Prometheus library on one of them, \<open>None\<close> a panic; a nil registerer is the default one, \<open>dflt\<close>.
\<close>

definition Register ::
  "(string list \<Rightarrow> 'r \<Rightarrow> 'r option) \<Rightarrow> 'k \<Rightarrow> 'k option \<Rightarrow> bool \<times> ('k \<Rightarrow> 'r) \<Rightarrow> (bool \<times> ('k \<Rightarrow> 'r)) option" where
  "Register must dflt reg st =
     (case st of (once, rs) \<Rightarrow>
       if once then Some st
       else let k = (case reg of None \<Rightarrow> dflt | Some k \<Rightarrow> k) in
         (case must collectors (rs k) of None \<Rightarrow> None | Some r \<Rightarrow> Some (True, rs(k := r))))"

text \<open>\<^verbatim>\<open>init\<close> of the package, which runs before anything can call \<^verbatim>\<open>Register\<close>.\<close>

definition metrics_init ::
  "(string list \<Rightarrow> 'r \<Rightarrow> 'r option) \<Rightarrow> 'k \<Rightarrow> bool \<times> ('k \<Rightarrow> 'r) \<Rightarrow> (bool \<times> ('k \<Rightarrow> 'r)) option" where
  "metrics_init must dflt st = Register must dflt (Some dflt) st"

text \<open>
  The collectors are registered once, on the default registry: every later \<^verbatim>\<open>Register\<close>, on
  whatever registry, changes nothing, and none of them can panic.
\<close>

lemma registered_once:
  assumes "metrics_init must dflt (False, rs) = Some st"
  shows "must collectors (rs dflt) = Some (snd st dflt)" and "k \<noteq> dflt \<Longrightarrow> snd st k = rs k"
    and "Register must dflt reg st = Some st"
  using assms by (auto simp: metrics_init_def Register_def split: option.splits)

text \<open>The three outcomes of a consumed message.\<close>

fun is_outcome :: "metric \<Rightarrow> bool" where
  "is_outcome (EventsIngested _) = True"
| "is_outcome (IngestDuplicates _) = True"
| "is_outcome (IngestRejections _ _) = True"
| "is_outcome _ = False"

end
