(* ===== verification/Ingest.thy ===== *)
theory Ingest
  imports Chain S3_Fake Redaction Metrics
begin

text \<open>
  internal/ingest/ingest.go: the ingest pipeline. \<open>IngestMessage\<close> takes the world (the event
  store, the payload store, the dead-letter sink and the metrics) to the next one. It is
  written over the interfaces, as in the code; a nil dependency is \<open>None\<close>.

  The steps of the pipeline are separate calls on the store, so another writer could run
  between them; the model of one consumer, which handles one message after the other, is a
  single transition.
\<close>

section \<open>Dependencies\<close>

record 'p payload_store =
  ps_Put :: "time \<Rightarrow> string \<Rightarrow> put_options \<Rightarrow> bytes \<Rightarrow> 'p \<Rightarrow> bytes result \<times> 'p"

definition PutAdapter :: "'p s3_client \<Rightarrow> 'p payload_store" where
  "PutAdapter client = \<lparr>ps_Put = (\<lambda>now bucket opts body p.
     (case sc_Put client now bucket opts body p of
        (Inl err, p') \<Rightarrow> (Inl err, p')
      | (Inr key, p') \<Rightarrow> (Inr (bytes_of_string key), p')))\<rparr>"

type_synonym redactor = "string \<Rightarrow> string \<Rightarrow> bytes \<Rightarrow> (bytes \<times> bool) result"

type_synonym 'd dead_letter_sink = "op_env \<Rightarrow> dead_letter \<Rightarrow> 'd \<Rightarrow> go_error option \<times> 'd"

record ('s, 'p, 'd) ingest_deps =
  id_Events :: "'s event_store"
  id_Payloads :: "'p payload_store option"
  id_PayloadBucket :: string
  id_StorageClass :: string
  id_RetentionDays :: int
  id_LegalHoldDefault :: bool
  id_Redactor :: "redactor option"
  id_DeadLetters :: "'d dead_letter_sink option"
  id_Topic :: string

record ('s, 'p, 'd) world =
  w_Events :: 's
  w_Payloads :: 'p
  w_DeadLetters :: 'd
  w_Metrics :: metrics

record ingest_message =
  im_Topic :: string
  im_Partition :: int
  im_Offset :: int
  im_Key :: bytes
  im_Value :: bytes

record ingest_result =
  ir_Inserted :: bool
  ir_EventID :: string
  ir_Event :: "event option"
  ir_Reason :: string

abbreviation no_result :: ingest_result where
  "no_result \<equiv> \<lparr>ir_Inserted = False, ir_EventID = '''', ir_Event = None, ir_Reason = ''''\<rparr>"

section \<open>Dead letters and counters\<close>

definition count :: "metric \<Rightarrow> ('s, 'p, 'd) world \<Rightarrow> ('s, 'p, 'd) world" where
  "count m w = w\<lparr>w_Metrics := Inc m (w_Metrics w)\<rparr>"

definition deadLetter ::
  "('s, 'p, 'd) ingest_deps \<Rightarrow> op_env \<Rightarrow> ingest_message \<Rightarrow> bytes \<Rightarrow> string \<Rightarrow>
   ('s, 'p, 'd) world \<Rightarrow> ('s, 'p, 'd) world" where
  "deadLetter deps env msg raw reason w =
     (let w = count (DeadLettered (id_Topic deps)) w in
      case id_DeadLetters deps of
        None \<Rightarrow> w
      | Some sink \<Rightarrow>
          w\<lparr>w_DeadLetters := snd (sink env
            \<lparr>dl_ID = '''', dl_Topic = id_Topic deps, dl_Partition = im_Partition msg,
             dl_Offset = im_Offset msg, dl_Key = string_of_bytes (im_Key msg), dl_Payload = raw,
             dl_Reason = reason, dl_RejectedAt = 0\<rparr> (w_DeadLetters w))\<rparr>)"

section \<open>The checks before the chain is extended\<close>

text \<open>
  The first half of \<^verbatim>\<open>IngestMessage\<close>, which reads no store: the payload hash, the redaction
  and the hash's text. A rejection gives the reason's label and text; an acceptance gives the
  envelope with the hash set, the body to store, whether it was redacted and the hash bytes.
\<close>

definition check_payload_hash :: "envelope \<Rightarrow> (envelope \<times> bytes) option" where
  "check_payload_hash ev =
     (if length (env_Payload ev) > 0 then
        let payloadBody = env_Payload ev; computed = HashPayload payloadBody in
        if env_PayloadHash ev \<noteq> '''' \<and> NormalizeHash (env_PayloadHash ev) \<noteq> computed then None
        else Some (ev\<lparr>env_PayloadHash := computed\<rparr>, payloadBody)
      else Some (ev, []))"

definition redact_payload :: "redactor option \<Rightarrow> envelope \<Rightarrow> bytes \<Rightarrow> (bytes \<times> bool) result" where
  "redact_payload redact ev payloadBody =
     (case redact of
        None \<Rightarrow> Inr (payloadBody, False)
      | Some apply_policy \<Rightarrow>
          if length payloadBody > 0 then
            (case apply_policy (env_SourceService ev) (env_Action ev) payloadBody of
               Inl err \<Rightarrow> Inl err
             | Inr (out, changed) \<Rightarrow> if changed then Inr (out, True) else Inr (payloadBody, False))
          else Inr (payloadBody, False))"

definition check_envelope ::
  "err_texts \<Rightarrow> redactor option \<Rightarrow> envelope \<Rightarrow> (string \<times> string) + (envelope \<times> bytes \<times> bool \<times> bytes)" where
  "check_envelope q redact ev =
     (case check_payload_hash ev of
        None \<Rightarrow> Inl (''payload_hash'', ''payload_hash mismatch'')
      | Some (ev, payloadBody) \<Rightarrow>
         (case redact_payload redact ev payloadBody of
            Inl err \<Rightarrow> Inl (''redaction'', ''redaction: '' @ err_text q err)
          | Inr (payloadBody, redacted) \<Rightarrow>
             (case DecodeHashToBytes (env_PayloadHash ev) of
                Inl err \<Rightarrow> Inl (''payload_hash_format'', ''payload_hash format: '' @ err_text q err)
              | Inr payloadHash \<Rightarrow> Inr (ev, payloadBody, redacted, payloadHash))))"

section \<open>The row\<close>

definition prev_hash_for :: "event option \<Rightarrow> bytes" where
  "prev_hash_for head =
     (case head of Some h \<Rightarrow> if length (ThisHash h) = 32 then ThisHash h else ZeroHash | None \<Rightarrow> ZeroHash)"

definition new_row :: "envelope \<Rightarrow> bytes \<Rightarrow> string \<Rightarrow> bytes \<Rightarrow> bool \<Rightarrow> bool \<Rightarrow> event" where
  "new_row ev payloadHash payloadRef prevHash hold redacted =
     \<lparr>ID = env_ID ev, TS = env_TS ev, SourceService = env_SourceService ev, ActorID = env_ActorID ev,
      Action = env_Action ev, TargetType = env_TargetType ev, TargetID = env_TargetID ev,
      PayloadHash = payloadHash, PayloadRef = payloadRef, PrevHash = prevHash,
      ThisHash = CanonicalHash (env_ID ev) (env_TS ev) (env_SourceService ev) (env_ActorID ev)
        (env_Action ev) (env_TargetType ev) (env_TargetID ev) payloadHash prevHash,
      Anchored = False, LegalHold = hold, Redacted = redacted\<rparr>"

text \<open>
  The write of the payload: the reference to record, or the error. Nothing is written when
  there is no store, no bucket or no body.
\<close>

definition put_payload ::
  "('s, 'p, 'd) ingest_deps \<Rightarrow> op_env \<Rightarrow> string \<Rightarrow> bytes \<Rightarrow> 'p \<Rightarrow> string result \<times> 'p" where
  "put_payload deps env key payloadBody p =
     (case id_Payloads deps of
        None \<Rightarrow> (Inr '''', p)
      | Some ps \<Rightarrow>
          if id_PayloadBucket deps \<noteq> '''' \<and> length payloadBody > 0 then
            (case ps_Put ps (oe_Now env) (id_PayloadBucket deps)
                \<lparr>po_Key = key, po_ContentType = ''application/json'', po_StorageClass = id_StorageClass deps,
                 po_RetentionDays = id_RetentionDays deps, po_LegalHold = id_LegalHoldDefault deps\<rparr>
                payloadBody p of
               (Inl err, p') \<Rightarrow> (Inl err, p')
             | (Inr keyBytes, p') \<Rightarrow> (Inr (string_of_bytes keyBytes), p'))
          else (Inr '''', p))"

text \<open>The second half of \<^verbatim>\<open>IngestMessage\<close>: chain head, payload, insert.\<close>

definition index_event ::
  "err_texts \<Rightarrow> ('s, 'p, 'd) ingest_deps \<Rightarrow> op_env \<Rightarrow> envelope \<Rightarrow> bytes \<Rightarrow> bool \<Rightarrow> bytes \<Rightarrow>
   ('s, 'p, 'd) world \<Rightarrow> ingest_result \<times> ('s, 'p, 'd) world" where
  "index_event q deps env ev payloadBody redacted payloadHash w =
     (let svc = env_SourceService ev in
      case es_ChainHead (id_Events deps) (w_Events w) of
        Inl err \<Rightarrow> (no_result\<lparr>ir_Reason := ''chain head: '' @ err_text q err, ir_EventID := env_ID ev\<rparr>,
                     count (IngestRejections svc ''chain_head'') w)
      | Inr head \<Rightarrow>
         let prevHash = prev_hash_for head in
         (case put_payload deps env (env_ID ev) payloadBody (w_Payloads w) of
            (Inl err, p') \<Rightarrow> (no_result\<lparr>ir_Reason := ''s3 put: '' @ err_text q err, ir_EventID := env_ID ev\<rparr>,
                               count (IngestRejections svc ''s3_put'') (w\<lparr>w_Payloads := p'\<rparr>))
          | (Inr payloadRef, p') \<Rightarrow>
             let w = w\<lparr>w_Payloads := p'\<rparr>;
                 row = new_row ev payloadHash payloadRef prevHash (id_LegalHoldDefault deps) redacted in
             (case es_Insert (id_Events deps) row (w_Events w) of
                (Inl err, s') \<Rightarrow> (no_result\<lparr>ir_Reason := ''insert: '' @ err_text q err, ir_EventID := env_ID ev\<rparr>,
                                   count (IngestRejections svc ''insert'') (w\<lparr>w_Events := s'\<rparr>))
              | (Inr False, s') \<Rightarrow> (no_result\<lparr>ir_EventID := env_ID ev\<rparr>,
                                     count (IngestDuplicates svc) (w\<lparr>w_Events := s'\<rparr>))
              | (Inr True, s') \<Rightarrow> (no_result\<lparr>ir_Inserted := True, ir_EventID := env_ID ev, ir_Event := Some row\<rparr>,
                                    count (EventsIngested svc) (w\<lparr>w_Events := s'\<rparr>)))))"

text \<open>
  The whole handler. The deferred latency observation runs on every return after the decode.
\<close>

definition IngestMessage ::
  "err_texts \<Rightarrow> ('s, 'p, 'd) ingest_deps \<Rightarrow> op_env \<Rightarrow> ingest_message \<Rightarrow>
   ('s, 'p, 'd) world \<Rightarrow> ingest_result \<times> ('s, 'p, 'd) world" where
  "IngestMessage q deps env msg w =
     (case DecodeAndValidate (im_Value msg) of
        Inl err \<Rightarrow>
          let reason = ''decode: '' @ err_text q err in
          (no_result\<lparr>ir_Reason := reason\<rparr>,
           deadLetter deps env msg (im_Value msg) reason (count (IngestRejections ''unknown'' ''decode'') w))
      | Inr ev \<Rightarrow>
         (case (case check_envelope q (id_Redactor deps) ev of
            Inl (label, reason) \<Rightarrow>
              (no_result\<lparr>ir_Reason := reason, ir_EventID := env_ID ev\<rparr>,
               deadLetter deps env msg (im_Value msg) reason
                 (count (IngestRejections (env_SourceService ev) label) w))
          | Inr (ev, payloadBody, redacted, payloadHash) \<Rightarrow>
              index_event q deps env ev payloadBody redacted payloadHash w) of
          (res, w) \<Rightarrow> (res, count (IngestLatency (env_SourceService ev)) w)))"

definition Ingest ::
  "err_texts \<Rightarrow> ('s, 'p, 'd) ingest_deps \<Rightarrow> op_env \<Rightarrow> bytes \<Rightarrow>
   ('s, 'p, 'd) world \<Rightarrow> ingest_result \<times> ('s, 'p, 'd) world" where
  "Ingest q deps env v w = IngestMessage q deps env
     \<lparr>im_Topic = '''', im_Partition = 0, im_Offset = 0, im_Key = [], im_Value = v\<rparr> w"

section \<open>Accepted and rejected messages\<close>

text \<open>What passes the checks, and what the checks guarantee of it.\<close>

definition accepted ::
  "err_texts \<Rightarrow> ('s, 'p, 'd) ingest_deps \<Rightarrow> ingest_message \<Rightarrow> (envelope \<times> bytes \<times> bool \<times> bytes) option" where
  "accepted q deps msg =
     (case DecodeAndValidate (im_Value msg) of Inl _ \<Rightarrow> None
      | Inr ev \<Rightarrow> (case check_envelope q (id_Redactor deps) ev of Inl _ \<Rightarrow> None | Inr x \<Rightarrow> Some x))"

lemma check_envelope_Inr:
  assumes "check_envelope q redact ev = Inr (ev', body, redacted, ph)"
  shows "env_ID ev' = env_ID ev" "env_TS ev' = env_TS ev" "env_SourceService ev' = env_SourceService ev"
    "length ph = 32" "DecodeHashToBytes (env_PayloadHash ev') = Inr ph"
    "ev' = ev\<lparr>env_PayloadHash := env_PayloadHash ev'\<rparr>"
    "env_Payload ev \<noteq> [] \<Longrightarrow> ph = sha256 (env_Payload ev)"
    "\<not> redacted \<Longrightarrow> body = env_Payload ev"
  using assms
  by (auto simp: check_envelope_def check_payload_hash_def redact_payload_def Let_def
      dest: DecodeHashToBytes_length split: option.splits sum.splits prod.splits if_splits)

lemma IngestMessage_accepted:
  assumes "accepted q deps msg = Some (ev, body, redacted, ph)"
  shows "IngestMessage q deps env msg w =
    (case index_event q deps env ev body redacted ph w of
       (res, w') \<Rightarrow> (res, count (IngestLatency (env_SourceService ev)) w'))"
  using assms check_envelope_Inr(3)
  by (fastforce simp: accepted_def IngestMessage_def split: sum.splits prod.splits)

lemma IngestMessage_rejected:
  assumes "accepted q deps msg = None"
  obtains reason label svc res w' where
    "IngestMessage q deps env msg w = (res, w')" "\<not> ir_Inserted res" "ir_Reason res = reason" "reason \<noteq> ''''"
    "w' = deadLetter deps env msg (im_Value msg) reason (count (IngestRejections svc label) w) \<or>
     w' = count (IngestLatency svc)
       (deadLetter deps env msg (im_Value msg) reason (count (IngestRejections svc label) w))"
proof (cases "DecodeAndValidate (im_Value msg)")
  case (Inl err)
  then show thesis by (intro that) (auto simp: IngestMessage_def Let_def)
next
  case (Inr ev)
  then obtain label reason where c: "check_envelope q (id_Redactor deps) ev = Inl (label, reason)"
    using assms by (auto simp: accepted_def split: sum.splits)
  then have "reason \<noteq> ''''"
    by (auto simp: check_envelope_def split: option.splits sum.splits prod.splits)
  with c Inr show thesis by (intro that) (auto simp: IngestMessage_def)
qed

lemma deadLetter_sel:
  "w_Events (deadLetter deps env msg raw reason w) = w_Events w"
  "w_Payloads (deadLetter deps env msg raw reason w) = w_Payloads w"
  "w_Metrics (deadLetter deps env msg raw reason w) = Inc (DeadLettered (id_Topic deps)) (w_Metrics w)"
  by (auto simp: deadLetter_def count_def Let_def split: option.split)

lemma count_sel [simp]:
  "w_Events (count m w) = w_Events w" "w_Payloads (count m w) = w_Payloads w"
  "w_DeadLetters (count m w) = w_DeadLetters w" "w_Metrics (count m w) = Inc m (w_Metrics w)"
  by (simp_all add: count_def)

text \<open>The outcomes of the second half.\<close>

lemma index_event_cases:
  assumes "index_event q deps env ev body redacted ph w = (res, w')"
  obtains (head_failed) err where "es_ChainHead (id_Events deps) (w_Events w) = Inl err"
      "\<not> ir_Inserted res" "ir_Reason res \<noteq> ''''"
      "w' = count (IngestRejections (env_SourceService ev) ''chain_head'') w"
  | (put_failed) err p' where "put_payload deps env (env_ID ev) body (w_Payloads w) = (Inl err, p')"
      "\<not> ir_Inserted res" "ir_Reason res = ''s3 put: '' @ err_text q err"
      "w' = count (IngestRejections (env_SourceService ev) ''s3_put'') (w\<lparr>w_Payloads := p'\<rparr>)"
  | (insert_called) head ref p' row r s' where
      "es_ChainHead (id_Events deps) (w_Events w) = Inr head"
      "put_payload deps env (env_ID ev) body (w_Payloads w) = (Inr ref, p')"
      "row = new_row ev ph ref (prev_hash_for head) (id_LegalHoldDefault deps) redacted"
      "es_Insert (id_Events deps) row (w_Events w) = (r, s')"
      "w_Events w' = s'" "w_Payloads w' = p'" "w_DeadLetters w' = w_DeadLetters w"
      "case r of Inl err \<Rightarrow> \<not> ir_Inserted res \<and> ir_Reason res \<noteq> '''' \<and>
           w_Metrics w' = Inc (IngestRejections (env_SourceService ev) ''insert'') (w_Metrics w)
       | Inr ok \<Rightarrow> ir_Inserted res = ok \<and> ir_Reason res = '''' \<and> ir_EventID res = env_ID ev \<and>
           ir_Event res = (if ok then Some row else None) \<and>
           w_Metrics w' = Inc (if ok then EventsIngested (env_SourceService ev)
             else IngestDuplicates (env_SourceService ev)) (w_Metrics w)"
proof (cases "es_ChainHead (id_Events deps) (w_Events w)")
  case (Inl err)
  then show thesis using assms by (intro head_failed) (auto simp: index_event_def Let_def)
next
  case (Inr head)
  obtain pr p' where put: "put_payload deps env (env_ID ev) body (w_Payloads w) = (pr, p')" by (cases "put_payload deps env (env_ID ev) body (w_Payloads w)")
  show thesis
  proof (cases pr)
    case (Inl err)
    with Inr put show thesis using assms by (intro put_failed) (auto simp: index_event_def Let_def)
  next
    case ref: (Inr ref)
    let ?row = "new_row ev ph ref (prev_hash_for head) (id_LegalHoldDefault deps) redacted"
    obtain r s' where ins: "es_Insert (id_Events deps) ?row (w_Events w) = (r, s')"
      by (cases "es_Insert (id_Events deps) ?row (w_Events w)")
    show thesis
      using assms Inr put ref ins
      by (intro insert_called [of head ref p' ?row r s'])
        (auto simp: index_event_def Let_def split: sum.splits bool.splits)
  qed
qed

lemma new_row_sel [simp]:
  "ID (new_row ev ph ref prev hold red) = env_ID ev" "TS (new_row ev ph ref prev hold red) = env_TS ev"
  "PrevHash (new_row ev ph ref prev hold red) = prev" "PayloadRef (new_row ev ph ref prev hold red) = ref"
  "PayloadHash (new_row ev ph ref prev hold red) = ph"
  "ev_key (new_row ev ph ref prev hold red) = Cursor (env_TS ev) (env_ID ev)"
  by (simp_all add: new_row_def ev_key_def)

lemma new_row_hash: "ThisHash (new_row ev ph ref prev hold red) = EventHash (new_row ev ph ref prev hold red)"
  by (simp add: new_row_def EventHash_def)

section \<open>The pipeline over the in-memory store\<close>

definition head_of :: "mem_events \<Rightarrow> event option" where
  "head_of s = (if mem_rows s = [] then None else Some (last (mem_rows s)))"

lemma mem_index_event:
  assumes deps: "id_Events deps = mem_event_store" and inv: "mem_inv (w_Events w)"
    and run: "index_event q deps env ev body redacted ph w = (res, w')"
  obtains (put_failed) err p' where "put_payload deps env (env_ID ev) body (w_Payloads w) = (Inl err, p')"
      "\<not> ir_Inserted res" "ir_Reason res = ''s3 put: '' @ err_text q err" "w_Events w' = w_Events w"
      "w_Payloads w' = p'" "w_DeadLetters w' = w_DeadLetters w"
      "w_Metrics w' = Inc (IngestRejections (env_SourceService ev) ''s3_put'') (w_Metrics w)"
  | (inserted) ref p' row where "put_payload deps env (env_ID ev) body (w_Payloads w) = (Inr ref, p')"
      "row = new_row ev ph ref (prev_hash_for (head_of (w_Events w))) (id_LegalHoldDefault deps) redacted"
      "mem_inv (w_Events w')" "w_Payloads w' = p'" "w_DeadLetters w' = w_DeadLetters w"
      "ir_Inserted res = (env_ID ev \<notin> ID ` set (mem_rows (w_Events w)))"
      "mem_rows (w_Events w') = (if ir_Inserted res then insort_key ev_key row (mem_rows (w_Events w))
         else mem_rows (w_Events w))"
      "ir_Reason res = ''''" "ir_Event res = (if ir_Inserted res then Some row else None)"
  using run
proof (cases rule: index_event_cases)
  case (head_failed err)
  then show thesis by (simp add: deps mem_store_defs mem_chain_head)
next
  case (put_failed err p')
  then show thesis by (intro that(1)) auto
next
  case (insert_called head ref p' row r s')
  have head: "head = head_of (w_Events w)"
    using insert_called(1) by (auto simp: deps mem_store_defs mem_chain_head head_of_def)
  obtain ok where r: "r = Inr ok" and ok: "ok = (env_ID ev \<notin> ID ` set (mem_rows (w_Events w)))"
    "mem_inv s'" "mem_rows s' = (if ok then insort_key ev_key row (mem_rows (w_Events w)) else mem_rows (w_Events w))"
    using mem.Insert_contract [OF inv insert_called(4) [unfolded deps]]
      mem.Insert_total [OF inv, of row] insert_called(3,4)
    by (auto simp: deps is_ok_def split: sum.splits)
  show thesis
    using insert_called head r ok by (intro that(2)) auto
qed

lemma prev_hash_linked:
  assumes "linked rs"
  shows "prev_hash_for (if rs = [] then None else Some (last rs)) = (if rs = [] then ZeroHash else ThisHash (last rs))"
proof (cases "rs = []")
  case False
  then have "ThisHash (last rs) = EventHash (last rs)"
    using assms by (auto simp: linked_def last_conv_nth)
  then show ?thesis using False by (simp add: prev_hash_for_def)
qed (simp add: prev_hash_for_def)

lemma head_hash_linked:
  assumes "linked (mem_rows s)"
  shows "prev_hash_for (head_of s) = (if mem_rows s = [] then ZeroHash else ThisHash (last (mem_rows s)))"
  using prev_hash_linked [OF assms] by (simp add: head_of_def)

text \<open>The fake object store, as the pipeline uses it.\<close>

lemma put_payload_fake:
  assumes "id_Payloads deps = Some (PutAdapter fake_client)" and "canonical_map p"
    and "put_payload deps env key body p = (r, p')"
  shows "canonical_map p'"
    and "map_of p n = Some ob \<Longrightarrow> \<exists>ob'. map_of p' n = Some ob'"
    and "case r of Inl err \<Rightarrow> err = ErrRetentionActive key \<and> p' = p
      | Inr ref \<Rightarrow> if id_PayloadBucket deps \<noteq> '''' \<and> body \<noteq> []
          then ref = key \<and> Fake_Get (id_PayloadBucket deps) key p' = Inr body
          else ref = '''' \<and> p' = p"
  using assms
  by (auto simp: put_payload_def PutAdapter_def fake_client_def Fake_Put_def Fake_Get_def Let_def
      canonical_map_put map_of_map_put split: option.splits if_splits prod.splits sum.splits)

definition payloads_present :: "string \<Rightarrow> (mem_events, fake, 'd) world \<Rightarrow> bool" where
  "payloads_present bucket w \<longleftrightarrow>
     (\<forall>e \<in> set (mem_rows (w_Events w)). PayloadRef e \<noteq> '''' \<longrightarrow> is_ok (Fake_Get bucket (PayloadRef e) (w_Payloads w)))"

lemma Fake_Get_is_ok: "is_ok (Fake_Get bucket key f) \<longleftrightarrow> map_of f (object_name bucket key) \<noteq> None"
  by (auto simp: Fake_Get_def split: option.split)

section \<open>A concrete message\<close>

definition flat_object :: "(string \<times> string) list \<Rightarrow> string" where
  "flat_object kvs = ''{'' @ join '','' (map (\<lambda>(k, v). [dquote] @ k @ [dquote] @ '':'' @ [dquote] @ v @ [dquote]) kvs) @ ''}''"

definition sample_text :: "string \<Rightarrow> string \<Rightarrow> string" where
  "sample_text i ts = flat_object [(''id'', i), (''ts'', ts), (''source_service'', ''s''),
     (''actor_id'', ''a''), (''action'', ''x''), (''target_type'', ''t''), (''target_id'', ''u''),
     (''payload_hash'', replicate 64 (CHR ''0''))]"

definition sample_message :: "string \<Rightarrow> string \<Rightarrow> ingest_message" where
  "sample_message i ts = \<lparr>im_Topic = ''audit.v1'', im_Partition = 0, im_Offset = 7, im_Key = [],
     im_Value = bytes_of_string (sample_text i ts)\<rparr>"

definition sample_envelope :: "string \<Rightarrow> time \<Rightarrow> envelope" where
  "sample_envelope i t = \<lparr>env_ID = i, env_TS = t, env_SourceService = ''s'', env_ActorID = ''a'',
     env_Action = ''x'', env_TargetType = ''t'', env_TargetID = ''u'',
     env_PayloadHash = replicate 64 (CHR ''0''), env_Payload = [], env_PrevHash = '''',
     env_ThisHash = '''', env_Redaction = ''''\<rparr>"

lemma sample_decoded:
  "DecodeAndValidate (im_Value (sample_message ''b'' ''2026-01-02T03:04:05Z'')) =
     Inr (sample_envelope ''b'' 63902919845000000000)"
proof -
  have "(case json_members (sample_text ''b'' ''2026-01-02T03:04:05Z'') of None \<Rightarrow> None
      | Some raw \<Rightarrow> set_members raw zero_envelope) = Some (sample_envelope ''b'' 63902919845000000000)"
    by code_simp
  then have "Unmarshal_envelope (bytes_of_string (sample_text ''b'' ''2026-01-02T03:04:05Z'')) =
      Inr (sample_envelope ''b'' 63902919845000000000)"
    by (auto simp: Unmarshal_envelope_def json_members_parse split: option.splits)
  then show ?thesis
    by (auto simp: DecodeAndValidate_Inr sample_message_def sample_text_def flat_object_def
        Validate_None_iff sample_envelope_def)
qed

lemma sample_hash_text: "DecodeHashToBytes (replicate 64 (CHR ''0'')) = Inr ZeroHash"
  by (simp add: DecodeHashToBytes_def TrimPrefix_def HashPrefix_def ZeroHash_def numeral_eq_Suc hex_value_def)

lemma accepted_decoded:
  assumes "accepted q deps msg = Some (ev, body, redacted, ph)"
  obtains ev0 where "DecodeAndValidate (im_Value msg) = Inr ev0" "env_ID ev = env_ID ev0"
    "env_TS ev = env_TS ev0" "length ph = 32" "env_Payload ev0 \<noteq> [] \<Longrightarrow> ph = sha256 (env_Payload ev0)"
  using assms check_envelope_Inr by (fastforce simp: accepted_def split: sum.splits)

text \<open>Either the rows do not change, or one new row is inserted.\<close>

lemma ingest_rows:
  assumes deps: "id_Events deps = mem_event_store" and inv: "mem_inv (w_Events w)"
    and run: "IngestMessage q deps env msg w = (res, w')"
  obtains (unchanged) "mem_inv (w_Events w')" "\<not> ir_Inserted res" "mem_rows (w_Events w') = mem_rows (w_Events w)"
  | (inserted) ev body redacted ph ref p' row where "mem_inv (w_Events w')" "ir_Inserted res"
      "accepted q deps msg = Some (ev, body, redacted, ph)" "ir_Event res = Some row"
      "put_payload deps env (env_ID ev) body (w_Payloads w) = (Inr ref, p')" "w_Payloads w' = p'"
      "row = new_row ev ph ref (prev_hash_for (head_of (w_Events w))) (id_LegalHoldDefault deps) redacted"
      "ID row \<notin> ID ` set (mem_rows (w_Events w))"
      "mem_rows (w_Events w') = insort_key ev_key row (mem_rows (w_Events w))"
proof (cases "accepted q deps msg")
  case None
  then show thesis
    using run inv by (elim IngestMessage_rejected [of q deps msg env w]) (auto intro!: that(1) simp: deadLetter_sel)
next
  case (Some x)
  obtain ev body redacted ph where x: "x = (ev, body, redacted, ph)" by (cases x)
  obtain w1 where ix: "index_event q deps env ev body redacted ph w = (res, w1)"
    and w': "w' = count (IngestLatency (env_SourceService ev)) w1"
    using run IngestMessage_accepted [OF Some [unfolded x], of env w] by (auto split: prod.splits)
  from deps inv ix show thesis
  proof (cases rule: mem_index_event)
    case (put_failed err p')
    then show thesis using inv by (intro that(1)) (auto simp: w')
  next
    case (inserted ref p' row)
    show thesis
    proof (cases "ir_Inserted res")
      case True
      then show thesis using inserted Some by (intro that(2)) (auto simp: w' x)
    next
      case False
      then show thesis using inserted by (intro that(1)) (auto simp: w')
    qed
  qed
qed

text \<open>Over any store, a message changes the index by one insertion at most, of a row with a time.\<close>

lemma IngestMessage_events:
  assumes "IngestMessage q deps env msg w = (res, w')"
  shows "w_Events w' = w_Events w \<or>
    (\<exists>row r. es_Insert (id_Events deps) row (w_Events w) = (r, w_Events w') \<and> \<not> IsZero (TS row))"
proof (cases "accepted q deps msg")
  case None
  then show ?thesis
    using assms by (elim IngestMessage_rejected [of q deps msg env w]) (auto simp: deadLetter_sel)
next
  case (Some x)
  obtain ev body redacted ph where x: "x = (ev, body, redacted, ph)" by (cases x)
  obtain w1 where ix: "index_event q deps env ev body redacted ph w = (res, w1)" and w': "w_Events w' = w_Events w1"
    using assms IngestMessage_accepted [OF Some [unfolded x], of env w] by (auto split: prod.splits)
  obtain ev0 where "DecodeAndValidate (im_Value msg) = Inr ev0" "env_TS ev = env_TS ev0"
    using accepted_decoded [OF Some [unfolded x]] by metis
  then have nz: "\<not> IsZero (env_TS ev)" by (simp add: DecodeAndValidate_Inr Validate_None_iff)
  from ix show ?thesis
  proof (cases rule: index_event_cases)
    case (insert_called head ref p' row r s')
    then have "es_Insert (id_Events deps) row (w_Events w) = (r, w_Events w')" "TS row = env_TS ev"
      by (simp_all add: w')
    then show ?thesis using nz by metis
  qed (simp_all add: w')
qed

section \<open>Chains over any store\<close>

definition newer_or_known :: "event list \<Rightarrow> envelope \<Rightarrow> bool" where
  "newer_or_known rs ev \<longleftrightarrow> env_ID ev \<in> ID ` set rs \<or> (\<forall>e \<in> set rs. ev_key e < Cursor (env_TS ev) (env_ID ev))"

context chain_store
begin

text \<open>A message leaves the rows alone, or adds the row of its envelope at its place.\<close>

lemma ingested_rows:
  assumes "id_Events deps = ops" and "inv (w_Events w)"
    and "\<forall>ev. DecodeAndValidate (im_Value msg) = Inr ev \<longrightarrow> keeps (Cursor (env_TS ev) (env_ID ev))"
    and "IngestMessage q deps env msg w = (res, w')"
  obtains (unchanged) "inv (w_Events w')" "rows (w_Events w') = rows (w_Events w)"
  | (inserted) ev row where "inv (w_Events w')" "DecodeAndValidate (im_Value msg) = Inr ev"
      "ev_key row = Cursor (env_TS ev) (env_ID ev)" "ThisHash row = EventHash row"
      "PrevHash row = prev_hash_for (if rows (w_Events w) = [] then None else Some (last (rows (w_Events w))))"
      "ID row \<notin> ID ` set (rows (w_Events w))" "rows (w_Events w') = insort_key ev_key row (rows (w_Events w))"
proof (cases "accepted q deps msg")
  case None
  then show thesis
    using assms(2,4) by (elim IngestMessage_rejected [of q deps msg env w]) (auto intro!: unchanged simp: deadLetter_sel)
next
  case (Some x)
  obtain ev' body redacted ph where x: "x = (ev', body, redacted, ph)" by (cases x)
  obtain ev where ev: "DecodeAndValidate (im_Value msg) = Inr ev" "env_ID ev' = env_ID ev" "env_TS ev' = env_TS ev"
    using accepted_decoded [OF Some [unfolded x]] by metis
  obtain w1 where ix: "index_event q deps env ev' body redacted ph w = (res, w1)" and w': "w_Events w' = w_Events w1"
    using assms(4) IngestMessage_accepted [OF Some [unfolded x], of env w] by (auto split: prod.splits)
  from ix show thesis
  proof (cases rule: index_event_cases)
    case (insert_called head ref p' row r s')
    have key: "ev_key row = Cursor (env_TS ev) (env_ID ev)" by (simp add: insert_called(3) ev)
    have head: "head = (if rows (w_Events w) = [] then None else Some (last (rows (w_Events w))))"
      using head_is_last [OF assms(2)] insert_called(1) by (simp add: assms(1))
    have "inv s' \<and> (rows s' = rows (w_Events w) \<or>
        ID row \<notin> ID ` set (rows (w_Events w)) \<and> rows s' = insort_key ev_key row (rows (w_Events w)))"
      using insert_at_place [OF assms(2) _ insert_called(4) [unfolded assms(1)]] assms(3) ev(1) key by simp
    moreover have "ThisHash row = EventHash row" "PrevHash row = prev_hash_for head"
      by (simp_all add: insert_called(3) new_row_hash)
    ultimately show thesis
      using key ev(1) insert_called(5) head unchanged inserted [of ev row] by (auto simp: w')
  qed (use assms(2) w' in \<open>auto intro: unchanged\<close>)
qed

lemma in_order_ingest:
  assumes "id_Events deps = ops" and "inv (w_Events w)"
    and "vr_Status (fst (VerifyChain (rows (w_Events w)))) = StatusOK"
    and env: "\<And>ev. DecodeAndValidate (im_Value msg) = Inr ev \<Longrightarrow>
      keeps (Cursor (env_TS ev) (env_ID ev)) \<and> newer_or_known (rows (w_Events w)) ev"
    and "IngestMessage q deps env msg w = (res, w')"
  shows "inv (w_Events w') \<and> vr_Status (fst (VerifyChain (rows (w_Events w')))) = StatusOK"
proof -
  have keeps: "\<forall>ev. DecodeAndValidate (im_Value msg) = Inr ev \<longrightarrow> keeps (Cursor (env_TS ev) (env_ID ev))"
    using env by blast
  from assms(1,2) keeps assms(5) show ?thesis
  proof (cases rule: ingested_rows)
    case unchanged
    then show ?thesis using assms(3) by simp
  next
    case (inserted ev row)
    have l: "linked (rows (w_Events w))" using assms(3) by (simp add: VerifyChain_ok_iff)
    have "\<forall>e \<in> set (rows (w_Events w)). ev_key e < ev_key row"
      using env [OF inserted(2)] inserted(3,6) by (auto simp: newer_or_known_def ev_key_def)
    then have "rows (w_Events w') = rows (w_Events w) @ [row]" by (simp add: inserted(7) insort_key_snoc)
    moreover have "PrevHash row = (if rows (w_Events w) = [] then ZeroHash else ThisHash (last (rows (w_Events w))))"
      using inserted(5) prev_hash_linked [OF l] by simp
    ultimately have "linked (rows (w_Events w'))" using l inserted(4) by (simp add: linked_snoc)
    then show ?thesis using inserted(1) by (simp add: VerifyChain_ok_iff)
  qed
qed

text \<open>The rows after a message are the rows before, and at most one with the message's id and time.\<close>

lemma ingest_row_source:
  assumes "id_Events deps = ops" and "inv (w_Events w)"
    and "\<forall>ev. DecodeAndValidate (im_Value msg) = Inr ev \<longrightarrow> keeps (Cursor (env_TS ev) (env_ID ev))"
    and "IngestMessage q deps env msg w = (res, w')" and "e \<in> set (rows (w_Events w'))"
  shows "e \<in> set (rows (w_Events w)) \<or>
    (\<exists>ev. DecodeAndValidate (im_Value msg) = Inr ev \<and> ev_key e = Cursor (env_TS ev) (env_ID ev))"
  using assms(1-4) by (cases rule: ingested_rows) (use assms(5) in \<open>auto simp: set_insort_key\<close>)

end

section \<open>The row over any store\<close>

text \<open>The columns that a row takes over from the envelope.\<close>

definition columns_of :: "envelope \<Rightarrow> event \<Rightarrow> bool" where
  "columns_of ev row \<longleftrightarrow> ID row = env_ID ev \<and> TS row = env_TS ev \<and> SourceService row = env_SourceService ev \<and>
     ActorID row = env_ActorID ev \<and> Action row = env_Action ev \<and> TargetType row = env_TargetType ev \<and>
     TargetID row = env_TargetID ev"

lemma accepted_columns:
  assumes "accepted q deps msg = Some (ev', body, redacted, ph)" and "DecodeAndValidate (im_Value msg) = Inr ev"
  shows "columns_of ev (new_row ev' ph ref prev hold red)" and "env_Payload ev \<noteq> [] \<Longrightarrow> ph = sha256 (env_Payload ev)"
    and "env_Payload ev = [] \<Longrightarrow> DecodeHashToBytes (env_PayloadHash ev) = Inr ph"
proof -
  have "check_envelope q (id_Redactor deps) ev = Inr (ev', body, redacted, ph)"
    using assms by (auto simp: accepted_def split: sum.splits)
  note c = check_envelope_Inr [OF this]
  show "columns_of ev (new_row ev' ph ref prev hold red)"
    by (subst c(6)) (simp add: columns_of_def new_row_def)
  show "env_Payload ev \<noteq> [] \<Longrightarrow> ph = sha256 (env_Payload ev)" by (rule c(7))
  show "env_Payload ev = [] \<Longrightarrow> DecodeHashToBytes (env_PayloadHash ev) = Inr ph"
    using \<open>check_envelope q (id_Redactor deps) ev = Inr (ev', body, redacted, ph)\<close>
    by (auto simp: check_envelope_def check_payload_hash_def redact_payload_def split: option.splits sum.splits prod.splits if_splits)
qed

context event_store_contract
begin

lemma inserted_row:
  assumes "id_Events deps = ops" and "inv (w_Events w)" and "IngestMessage q deps env msg w = (res, w')"
    and "ir_Inserted res" and ev: "DecodeAndValidate (im_Value msg) = Inr ev"
    and "vr_Status (fst (VerifyChain (rows (w_Events w)))) = StatusOK"
  shows "\<exists>row. ir_Event res = Some row \<and> columns_of ev row \<and>
    PrevHash row = (if rows (w_Events w) = [] then ZeroHash else ThisHash (last (rows (w_Events w)))) \<and>
    ThisHash row = EventHash row \<and> \<not> Anchored row \<and> LegalHold row = id_LegalHoldDefault deps \<and>
    (if env_Payload ev \<noteq> [] then PayloadHash row = sha256 (env_Payload ev)
     else DecodeHashToBytes (env_PayloadHash ev) = Inr (PayloadHash row)) \<and>
    ID row \<notin> ID ` set (rows (w_Events w)) \<and> inv (w_Events w') \<and>
    rows (w_Events w') = insort_key ev_key row (rows (w_Events w))"
proof (cases "accepted q deps msg")
  case None
  then show ?thesis using assms(3,4) by (elim IngestMessage_rejected [of q deps msg env w]) auto
next
  case (Some x)
  obtain ev' body redacted ph where x: "x = (ev', body, redacted, ph)" by (cases x)
  note acc = accepted_columns [OF Some [unfolded x] ev]
  obtain w1 where ix: "index_event q deps env ev' body redacted ph w = (res, w1)" and w': "w_Events w' = w_Events w1"
    using assms(3) IngestMessage_accepted [OF Some [unfolded x], of env w] by (auto split: prod.splits)
  have l: "linked (rows (w_Events w))" using assms(6) by (simp add: VerifyChain_ok_iff)
  from ix show ?thesis
  proof (cases rule: index_event_cases)
    case (insert_called head ref p' row r s')
    have head: "prev_hash_for head = (if rows (w_Events w) = [] then ZeroHash else ThisHash (last (rows (w_Events w))))"
      using ChainHead_contract [OF assms(2) insert_called(1) [unfolded assms(1)]] prev_hash_linked [OF l] by simp
    have r: "r = Inr True" "ir_Event res = Some row" using insert_called(8) assms(4) by (auto split: sum.splits)
    have "columns_of ev row" "PrevHash row = prev_hash_for head" "PayloadHash row = ph" "ThisHash row = EventHash row"
      "\<not> Anchored row" "LegalHold row = id_LegalHoldDefault deps"
      using acc(1) by (simp_all add: insert_called(3) new_row_hash) (simp_all add: new_row_def)
    moreover have "inv s' \<and> ID row \<notin> ID ` set (rows (w_Events w)) \<and> rows s' = insort_key ev_key row (rows (w_Events w))"
      using Insert_contract [OF assms(2) insert_called(4) [unfolded assms(1)]] by (simp add: r split: if_splits)
    ultimately show ?thesis using acc(2,3) head r(2) insert_called(5) by (intro exI [of _ row]) (simp add: w')
  qed (use assms(4) in simp_all)
qed

end

text \<open>Dependencies and worlds for concrete runs.\<close>

definition sample_deps :: "string \<Rightarrow> (mem_events, fake, mem_dead_letters) ingest_deps" where
  "sample_deps bucket = \<lparr>id_Events = mem_event_store, id_Payloads = Some (PutAdapter fake_client),
     id_PayloadBucket = bucket, id_StorageClass = ''STANDARD'', id_RetentionDays = 1,
     id_LegalHoldDefault = False, id_Redactor = None, id_DeadLetters = Some DeadLetterStore_Append,
     id_Topic = ''audit.v1''\<rparr>"

definition world_of :: "mem_events \<Rightarrow> (mem_events, fake, mem_dead_letters) world" where
  "world_of s = \<lparr>w_Events = s, w_Payloads = NewFake, w_DeadLetters = [], w_Metrics = no_metrics\<rparr>"

abbreviation the_ts :: time where
  "the_ts \<equiv> 63902919845000000000"

definition sample_env :: op_env where
  "sample_env = \<lparr>oe_Now = the_ts, oe_UUID = ''u''\<rparr>"

abbreviation the_message :: ingest_message where
  "the_message \<equiv> sample_message ''b'' ''2026-01-02T03:04:05Z''"

lemma sample_envelope_sel [simp]:
  "env_ID (sample_envelope i t) = i" "env_TS (sample_envelope i t) = t"
  "env_Payload (sample_envelope i t) = []"
  by (simp_all add: sample_envelope_def)

lemma sample_accepted:
  "accepted q (sample_deps bucket) the_message = Some (sample_envelope ''b'' the_ts, [], False, ZeroHash)"
proof -
  have "check_envelope q None (sample_envelope ''b'' the_ts) = Inr (sample_envelope ''b'' the_ts, [], False, ZeroHash)"
    using sample_hash_text
    by (simp add: check_envelope_def check_payload_hash_def redact_payload_def sample_envelope_def)
  then show ?thesis by (simp add: accepted_def sample_decoded sample_deps_def)
qed

lemma sample_ingested:
  assumes "mem_inv s" and "''b'' \<notin> ID ` set (mem_rows s)"
    and "IngestMessage q (sample_deps bucket) env the_message (world_of s) = (res, w')"
  shows "ir_Inserted res"
proof -
  obtain w1 where ix: "index_event q (sample_deps bucket) env (sample_envelope ''b'' the_ts) [] False ZeroHash
      (world_of s) = (res, w1)"
    using assms(3) IngestMessage_accepted [OF sample_accepted, of q bucket env "world_of s"]
    by (auto split: prod.splits)
  have "id_Events (sample_deps bucket) = mem_event_store" "mem_inv (w_Events (world_of s))"
    using assms(1) by (simp_all add: sample_deps_def world_of_def)
  from this ix show ?thesis
    by (cases rule: mem_index_event)
      (use assms(2) in \<open>auto simp: put_payload_def sample_deps_def sample_envelope_def world_of_def\<close>)
qed

section \<open>Properties\<close>

text \<open>
  C23: the row that ingest inserts, over every store that keeps the contract. It carries the
  envelope's columns; its previous hash is the hash of the last row in chain order, or the zero
  hash for an empty store; its own hash is the canonical hash of its columns; its payload hash is
  that of the payload as received, before redaction, or the declared one when there is no
  payload; it is not anchored, has the configured legal hold, and is put into its place in chain
  order under a new id.
\<close>

theorem ingested_row:
  assumes "event_store_contract (id_Events deps) ok rows" and "ok (w_Events w)"
    and "IngestMessage q deps env msg w = (res, w')" and "ir_Inserted res"
    and "DecodeAndValidate (im_Value msg) = Inr ev"
    and "vr_Status (fst (VerifyChain (rows (w_Events w)))) = StatusOK"
  shows "\<exists>row. ir_Event res = Some row \<and> columns_of ev row \<and>
    PrevHash row = (if rows (w_Events w) = [] then ZeroHash else ThisHash (last (rows (w_Events w)))) \<and>
    ThisHash row = EventHash row \<and> \<not> Anchored row \<and> LegalHold row = id_LegalHoldDefault deps \<and>
    (if env_Payload ev \<noteq> [] then PayloadHash row = sha256 (env_Payload ev)
     else DecodeHashToBytes (env_PayloadHash ev) = Inr (PayloadHash row)) \<and>
    ID row \<notin> ID ` set (rows (w_Events w)) \<and> ok (w_Events w') \<and>
    rows (w_Events w') = insort_key ev_key row (rows (w_Events w))"
  by (rule event_store_contract.inserted_row [OF assms(1) refl assms(2-6)])

theorem ingested_row_witness:
  "\<exists>row. ir_Event (fst (IngestMessage plain_texts (sample_deps ''p'') sample_env the_message (world_of NewEventStore))) = Some row \<and>
     PrevHash row = ZeroHash \<and> ID row = ''b''"
proof -
  obtain res w' where run: "IngestMessage plain_texts (sample_deps ''p'') sample_env the_message (world_of NewEventStore) = (res, w')"
    by (cases "IngestMessage plain_texts (sample_deps ''p'') sample_env the_message (world_of NewEventStore)")
  have ins: "ir_Inserted res" by (rule sample_ingested [OF NewEventStore_inv _ run]) simp
  have ok: "vr_Status (fst (VerifyChain (mem_rows (w_Events (world_of NewEventStore))))) = StatusOK"
    by (simp add: world_of_def VerifyChain_ok_iff)
  have d: "event_store_contract (id_Events (sample_deps ''p'')) mem_inv mem_rows" "mem_inv (w_Events (world_of NewEventStore))"
    using mem.event_store_contract_axioms by (simp_all add: sample_deps_def world_of_def)
  from ingested_row [OF d run ins sample_decoded ok] run show ?thesis
    by (auto simp: world_of_def sample_envelope_def columns_of_def)
qed

text \<open>
  C5: ingest in order keeps the chain intact. Over every store with the contract of
  \<open>chain_store\<close>, whether its calls fail or not: if the history verifies and a message is not
  older than the newest row (or its id is known already), the history verifies after the
  message too, whatever the outcome: inserted, duplicate, rejected or failed. The in-memory
  store keeps every key, the Postgres one those it does not respell.
\<close>

theorem in_order_ingest_keeps_chain:
  assumes "chain_store (id_Events deps) ok rows keeps" and "ok (w_Events w)"
    and "vr_Status (fst (VerifyChain (rows (w_Events w)))) = StatusOK"
    and "\<And>ev. DecodeAndValidate (im_Value msg) = Inr ev \<Longrightarrow>
      keeps (Cursor (env_TS ev) (env_ID ev)) \<and> newer_or_known (rows (w_Events w)) ev"
    and "IngestMessage q deps env msg w = (res, w')"
  shows "ok (w_Events w') \<and> vr_Status (fst (VerifyChain (rows (w_Events w')))) = StatusOK"
  by (rule chain_store.in_order_ingest [OF assms(1) refl assms(2,3,4,5)])

theorem in_order_ingest_keeps_chain_witness:
  "vr_Status (fst (VerifyChain (mem_rows (w_Events (snd
     (IngestMessage plain_texts (sample_deps ''p'') sample_env the_message (world_of NewEventStore))))))) = StatusOK"
proof -
  have "chain_store (id_Events (sample_deps ''p'')) mem_inv mem_rows (\<lambda>_. True)"
    using mem.chain_store_axioms by (simp add: sample_deps_def)
  from in_order_ingest_keeps_chain [THEN conjunct2, OF this _ _ _ prod.collapse [symmetric]]
  show ?thesis by (simp add: world_of_def VerifyChain_ok_iff newer_or_known_def)
qed

text \<open>
  A late event breaks the chain. A message older than the newest row is linked to the
  newest row but verified at its place by time; if its hash is not the recorded previous
  hash of some row by coincidence, the verification of the untouched store reports a gap.
\<close>

theorem late_event_breaks_chain:
  assumes "id_Events deps = mem_event_store" and "mem_inv (w_Events w)"
    and "vr_Status (fst (VerifyChain (mem_rows (w_Events w)))) = StatusOK"
    and "IngestMessage q deps env msg w = (res, w')" and "ir_Event res = Some row" and "ir_Inserted res"
    and "\<exists>e \<in> set (mem_rows (w_Events w)). ev_key row < ev_key e"
    and "ThisHash row \<notin> PrevHash ` set (mem_rows (w_Events w))"
  shows "vr_Status (fst (VerifyChain (mem_rows (w_Events w')))) = StatusGap"
  using assms(1,2,4)
proof (cases rule: ingest_rows)
  case unchanged
  then show ?thesis using assms(6) by simp
next
  case (inserted ev body redacted ph ref p' row')
  have row: "row' = row" using inserted(4) assms(5) by simp
  let ?es = "mem_rows (w_Events w)" and ?es' = "mem_rows (w_Events w')"
  have l: "linked ?es" using assms(3) by (simp add: VerifyChain_ok_iff)
  obtain as bs where split: "?es = as @ bs" "?es' = as @ row # bs"
    using insort_key_split [of ?es ev_key row] inserted(9) row by auto
  have "chain_sorted ?es'" using inserted(1) by (simp add: mem_inv_def)
  then have "\<forall>e \<in> set as. ev_key e < ev_key row" by (simp add: split sorted_wrt_append)
  then have "bs \<noteq> []" using assms(7) by (auto simp: split)
  then obtain b bs' where bs: "bs = b # bs'" by (cases bs) auto
  have "set ?es' = insert row (set ?es)" by (auto simp: split)
  then have own: "\<forall>e \<in> set ?es'. ThisHash e = EventHash e"
    using linked_own [OF l] inserted(7) new_row_hash row by auto
  have "\<not> linked ?es'"
  proof
    assume "linked ?es'"
    then have "PrevHash (?es' ! Suc (length as)) = ThisHash (?es' ! length as)"
      by (rule linked_Suc) (simp add: split bs)
    then have "PrevHash b = ThisHash row" by (simp add: split bs nth_append)
    then show False using assms(8) by (auto simp: split bs)
  qed
  from VerifyChain_gap [OF this own] show ?thesis .
qed

theorem late_event_breaks_chain_witness:
  "vr_Status (fst (VerifyChain (mem_rows (w_Events (snd (IngestMessage plain_texts (sample_deps ''p'') sample_env the_message
     (world_of (snd (EventStore_Insert (sealed_row (the_ts + 1) ''z'' []) NewEventStore))))))))) = StatusGap"
proof -
  let ?s = "snd (EventStore_Insert (sealed_row (the_ts + 1) ''z'' []) NewEventStore)"
  obtain res w' where run: "IngestMessage plain_texts (sample_deps ''p'') sample_env the_message (world_of ?s) = (res, w')"
    by (cases "IngestMessage plain_texts (sample_deps ''p'') sample_env the_message (world_of ?s)")
  have ins: "ir_Inserted res"
    by (rule sample_ingested [OF NewEventStore_Insert(2) _ run]) (simp add: NewEventStore_Insert)
  have "linked [sealed_row (the_ts + 1) ''z'' []]" by (simp add: linked_def)
  then have ok: "vr_Status (fst (VerifyChain (mem_rows (w_Events (world_of ?s))))) = StatusOK"
    by (simp add: world_of_def VerifyChain_ok_iff NewEventStore_Insert)
  have d: "id_Events (sample_deps ''p'') = mem_event_store" "mem_inv (w_Events (world_of ?s))"
    by (simp_all add: sample_deps_def world_of_def NewEventStore_Insert)
  from d run obtain row where row: "ir_Event res = Some row"
    "ev_key row = Cursor the_ts ''b''" "ThisHash row = EventHash row"
  proof (cases rule: ingest_rows)
    case unchanged
    then show thesis using ins by simp
  next
    case (inserted ev body redacted ph ref p' row)
    then have "ev = sample_envelope ''b'' the_ts" by (simp add: sample_accepted)
    then show thesis using inserted new_row_hash by (intro that [of row]) auto
  qed
  have "length (ThisHash row) = 32" by (simp add: row(3))
  then have "ThisHash row \<notin> PrevHash ` set (mem_rows (w_Events (world_of ?s)))"
    by (auto simp: world_of_def NewEventStore_Insert)
  moreover have "\<exists>e \<in> set (mem_rows (w_Events (world_of ?s))). ev_key row < ev_key e"
    by (simp add: world_of_def NewEventStore_Insert row(2) less_cursor_def)
  ultimately show ?thesis using late_event_breaks_chain [OF d ok run row(1) ins] run by simp
qed

text \<open>
  C26: no row without its payload. If every row that refers to a payload has it in the object
  store, the same holds after any message: the payload is written before the row is
  inserted, a failed write inserts no row, and a write never removes an object. For an
  inserted row with a reference the stored object is the body as redacted.
\<close>

theorem payload_written_before_row:
  assumes "id_Events deps = mem_event_store" and "id_Payloads deps = Some (PutAdapter fake_client)"
    and "mem_inv (w_Events w)" and "canonical_map (w_Payloads w)"
    and "payloads_present (id_PayloadBucket deps) w"
    and "IngestMessage q deps env msg w = (res, w')"
  shows "payloads_present (id_PayloadBucket deps) w' \<and>
    (\<forall>row ev body redacted ph. ir_Event res = Some row \<longrightarrow>
       accepted q deps msg = Some (ev, body, redacted, ph) \<longrightarrow> PayloadRef row \<noteq> '''' \<longrightarrow>
       Fake_Get (id_PayloadBucket deps) (PayloadRef row) (w_Payloads w') = Inr body)"
proof (cases "accepted q deps msg")
  case None
  obtain reason label svc where "w' = deadLetter deps env msg (im_Value msg) reason (count (IngestRejections svc label) w) \<or>
     w' = count (IngestLatency svc)
       (deadLetter deps env msg (im_Value msg) reason (count (IngestRejections svc label) w))"
    using IngestMessage_rejected [OF None, of env w] assms(6) by (metis prod.inject)
  then have "w_Events w' = w_Events w" "w_Payloads w' = w_Payloads w"
    by (auto simp: deadLetter_sel)
  then show ?thesis using None assms(5) by (simp add: payloads_present_def)
next
  case (Some x)
  obtain ev body redacted ph where x: "x = (ev, body, redacted, ph)" by (cases x)
  obtain w1 where ix: "index_event q deps env ev body redacted ph w = (res, w1)"
    and w': "w_Events w' = w_Events w1" "w_Payloads w' = w_Payloads w1"
    using assms(6) IngestMessage_accepted [OF Some [unfolded x], of env w] by (auto split: prod.splits)
  from assms(1,3) ix show ?thesis
  proof (cases rule: mem_index_event)
    case (put_failed err p')
    have "p' = w_Payloads w" using put_payload_fake(3) [OF assms(2,4) put_failed(1)] by simp
    moreover have "ir_Event res = None"
      using ix put_failed(1) by (auto simp: index_event_def Let_def split: sum.splits prod.splits)
    ultimately show ?thesis using put_failed w' assms(5) by (auto simp: payloads_present_def)
  next
    case (inserted ref p' row)
    note put = put_payload_fake [OF assms(2,4) inserted(1)]
    have kept: "is_ok (Fake_Get b k (w_Payloads w)) \<Longrightarrow> is_ok (Fake_Get b k p')" for b k
      using put(2) by (fastforce simp: Fake_Get_is_ok)
    have body: "ref \<noteq> '''' \<Longrightarrow> Fake_Get (id_PayloadBucket deps) ref p' = Inr body"
      using put(3) by (auto split: if_splits)
    have rows: "set (mem_rows (w_Events w')) \<subseteq> insert row (set (mem_rows (w_Events w)))"
      using inserted(7) w' by (auto simp: set_insort_key)
    have "PayloadRef row = ref" by (simp add: inserted(2))
    then show ?thesis
      using rows kept body assms(5) inserted w' Some x by (auto simp: is_ok_def payloads_present_def split: if_splits)
  qed
qed

theorem payload_written_before_row_witness:
  "payloads_present ''p'' (snd (IngestMessage plain_texts (sample_deps ''p'') sample_env the_message
      (world_of NewEventStore)))"
proof -
  have "id_Events (sample_deps ''p'') = mem_event_store" "id_Payloads (sample_deps ''p'') = Some (PutAdapter fake_client)"
    "mem_inv (w_Events (world_of NewEventStore))" "canonical_map (w_Payloads (world_of NewEventStore))"
    "id_PayloadBucket (sample_deps ''p'') = ''p''" "mem_rows (w_Events (world_of NewEventStore)) = []"
    by (simp_all add: sample_deps_def world_of_def NewFake_def canonical_map_def)
  with payload_written_before_row [OF this(1-4) _ prod.collapse [symmetric], of plain_texts sample_env the_message]
  show ?thesis by (simp add: payloads_present_def)
qed

text \<open>
  A re-delivered event changes no row. Once a row with the event's id is in the index,
  another message with that id inserts nothing, whatever else it says.
\<close>

theorem redelivery_changes_no_row:
  assumes "id_Events deps = mem_event_store" and "mem_inv (w_Events w)"
    and "DecodeAndValidate (im_Value msg) = Inr ev" and "env_ID ev \<in> ID ` set (mem_rows (w_Events w))"
    and "IngestMessage q deps env msg w = (res, w')"
  shows "mem_rows (w_Events w') = mem_rows (w_Events w) \<and> mem_inv (w_Events w') \<and> \<not> ir_Inserted res"
  using assms(1,2,5)
proof (cases rule: ingest_rows)
  case (inserted ev' body redacted ph ref p' row)
  then have "env_ID ev' = env_ID ev" using accepted_decoded [OF inserted(3)] assms(3) by auto
  then show ?thesis using inserted(7,8) assms(4) by simp
qed simp

theorem redelivery_changes_no_row_witness:
  "mem_rows (w_Events (snd (IngestMessage plain_texts (sample_deps ''p'') sample_env the_message
     (world_of (snd (EventStore_Insert (sample_row 9 ''b'') NewEventStore)))))) = [sample_row 9 ''b'']"
  using redelivery_changes_no_row [OF _ _ sample_decoded _ prod.collapse [symmetric], of "sample_deps ''p''"
      "world_of (snd (EventStore_Insert (sample_row 9 ''b'') NewEventStore))" plain_texts sample_env]
  by (simp add: sample_deps_def world_of_def NewEventStore_Insert)

text \<open>
  Every message is counted once. A message adds one to exactly one of the ingested, the
  duplicate and the rejection counters: to the ingested one exactly when a row was inserted,
  to the duplicate one exactly when nothing was inserted and no reason is given.
\<close>

theorem ingest_counts_once:
  assumes "IngestMessage q deps env msg w = (res, w')"
  shows "\<exists>m. is_outcome m \<and> (ir_Inserted res \<longleftrightarrow> (\<exists>svc. m = EventsIngested svc)) \<and>
    (\<not> ir_Inserted res \<and> ir_Reason res = '''' \<longleftrightarrow> (\<exists>svc. m = IngestDuplicates svc)) \<and>
    (\<forall>x. is_outcome x \<longrightarrow> w_Metrics w' x = w_Metrics w x + (if x = m then 1 else 0))"
proof (cases "accepted q deps msg")
  case None
  obtain reason label svc where "\<not> ir_Inserted res" "ir_Reason res = reason" "reason \<noteq> ''''" and
    w': "w' = deadLetter deps env msg (im_Value msg) reason (count (IngestRejections svc label) w) \<or>
     w' = count (IngestLatency svc)
       (deadLetter deps env msg (im_Value msg) reason (count (IngestRejections svc label) w))"
    using IngestMessage_rejected [OF None, of env w] assms by (metis prod.inject)
  then show ?thesis
    by (intro exI [of _ "IngestRejections svc label"]) (auto simp: deadLetter_sel Inc_apply)
next
  case (Some x)
  obtain ev body redacted ph where x: "x = (ev, body, redacted, ph)" by (cases x)
  let ?svc = "env_SourceService ev"
  obtain w1 where ix: "index_event q deps env ev body redacted ph w = (res, w1)"
    and w': "w_Metrics w' = Inc (IngestLatency ?svc) (w_Metrics w1)"
    using assms IngestMessage_accepted [OF Some [unfolded x], of env w] by (auto split: prod.splits)
  from ix show ?thesis
  proof (cases rule: index_event_cases)
    case (head_failed err)
    then show ?thesis using w'
      by (intro exI [of _ "IngestRejections ?svc ''chain_head''"]) (auto simp: Inc_apply)
  next
    case (put_failed err p')
    then show ?thesis using w'
      by (intro exI [of _ "IngestRejections ?svc ''s3_put''"]) (auto simp: Inc_apply)
  next
    case (insert_called head ref p' row r s')
    show ?thesis
    proof (cases r)
      case (Inl err)
      then show ?thesis using w' insert_called(8)
        by (intro exI [of _ "IngestRejections ?svc ''insert''"]) (auto simp: Inc_apply)
    next
      case (Inr ok)
      then show ?thesis using w' insert_called(8)
        by (intro exI [of _ "if ok then EventsIngested ?svc else IngestDuplicates ?svc"]) (auto simp: Inc_apply)
    qed
  qed
qed

theorem ingest_counts_once_witness:
  "\<exists>m. is_outcome m \<and> w_Metrics (snd (IngestMessage plain_texts (sample_deps ''p'') sample_env the_message
     (world_of NewEventStore))) m = 1"
  using ingest_counts_once [OF prod.collapse [symmetric], of plain_texts "sample_deps ''p''" sample_env the_message
      "world_of NewEventStore"]
  by (auto simp: world_of_def no_metrics_def)

text \<open>
  C27: dead letters. A message that the checks before the chain reject leaves the stores
  alone and appends one dead letter with the message's bytes, its position and the reason; a
  message that passes them appends none, even when the payload write or the insert fails
  after that.
\<close>

theorem ingest_dead_letters:
  assumes "id_DeadLetters deps = Some DeadLetterStore_Append"
    and "IngestMessage q deps env msg w = (res, w')"
  shows "if accepted q deps msg = None
    then w_Events w' = w_Events w \<and> w_Payloads w' = w_Payloads w \<and> \<not> ir_Inserted res \<and>
      w_DeadLetters w' = w_DeadLetters w @
        [\<lparr>dl_ID = oe_UUID env, dl_Topic = id_Topic deps, dl_Partition = im_Partition msg,
          dl_Offset = im_Offset msg, dl_Key = string_of_bytes (im_Key msg), dl_Payload = im_Value msg,
          dl_Reason = ir_Reason res, dl_RejectedAt = oe_Now env\<rparr>]
    else w_DeadLetters w' = w_DeadLetters w"
proof (cases "accepted q deps msg")
  case None
  obtain reason label svc where "\<not> ir_Inserted res" "ir_Reason res = reason" and
    w': "w' = deadLetter deps env msg (im_Value msg) reason (count (IngestRejections svc label) w) \<or>
     w' = count (IngestLatency svc)
       (deadLetter deps env msg (im_Value msg) reason (count (IngestRejections svc label) w))"
    using IngestMessage_rejected [OF None, of env w] assms(2) by (metis prod.inject)
  moreover have "w_DeadLetters (deadLetter deps env msg (im_Value msg) reason v) = w_DeadLetters v @
        [\<lparr>dl_ID = oe_UUID env, dl_Topic = id_Topic deps, dl_Partition = im_Partition msg,
          dl_Offset = im_Offset msg, dl_Key = string_of_bytes (im_Key msg), dl_Payload = im_Value msg,
          dl_Reason = reason, dl_RejectedAt = oe_Now env\<rparr>]" for v
    by (simp add: deadLetter_def assms(1) DeadLetterStore_Append_def Let_def)
  ultimately show ?thesis using None by (auto simp: deadLetter_sel)
next
  case (Some x)
  obtain ev body redacted ph where x: "x = (ev, body, redacted, ph)" by (cases x)
  obtain w1 where ix: "index_event q deps env ev body redacted ph w = (res, w1)"
    and w': "w_DeadLetters w' = w_DeadLetters w1"
    using assms(2) IngestMessage_accepted [OF Some [unfolded x], of env w] by (auto split: prod.splits)
  from ix have "w_DeadLetters w1 = w_DeadLetters w"
    by (cases rule: index_event_cases) auto
  then show ?thesis using w' Some by simp
qed

theorem ingest_dead_letters_witness:
  "w_DeadLetters (snd (IngestMessage plain_texts (sample_deps ''p'') sample_env the_message
     (world_of NewEventStore))) = []"
  using ingest_dead_letters [OF _ prod.collapse [symmetric], where deps = "sample_deps ''p''" and q = plain_texts
      and env = sample_env and msg = the_message and w = "world_of NewEventStore"]
  by (simp add: sample_accepted) (simp add: sample_deps_def world_of_def)

end
