(* ===== verification/Interleaving.thy ===== *)
theory Interleaving
  imports Ingest
begin

text \<open>
  The goroutines of the service over one in-memory store, as interleaved steps. Each store
  operation holds the store's mutex and is one step; between two of them any other goroutine
  may run. \<^verbatim>\<open>IngestMessage\<close> reads the chain head, writes the payload and inserts the row;
  \<^verbatim>\<open>AnchorJob.Run\<close> reads the head, signs it, inserts the anchor and marks the rows; a legal-hold
  request sets a flag. A state holds one program counter per ingest worker (one per consumer
  goroutine: \<^verbatim>\<open>startLoops\<close> starts one, each further replica of the service adds one), and one for
  the anchor loop. \<open>feed s ev\<close> says which accepted envelopes may arrive at a store \<open>s\<close>.
\<close>

section \<open>States and steps\<close>

datatype ingest_pc = Idle | Built event

datatype anchor_pc = Waiting | HeadRead event | AnchorInserted event

record service =
  sv_Events :: mem_events
  sv_Anchors :: mem_anchors
  sv_Workers :: "ingest_pc list"
  sv_Anchor :: anchor_pc

text \<open>The anchor that \<^verbatim>\<open>AnchorJob.Run\<close> builds from the head, the signature and the configuration.\<close>

definition anchor_for :: "event \<Rightarrow> bytes \<Rightarrow> string \<Rightarrow> string \<Rightarrow> int \<Rightarrow> anchor" where
  "anchor_for head sig key url n =
     \<lparr>an_ID = '''', an_AnchoredAt = 0, an_RootHash = ThisHash head, an_LastEventID = ID head,
      an_LastEventTS = TS head, an_Signature = sig, an_KMSKeyID = key, an_NotaryURL = url, an_EventCount = n\<rparr>"

inductive step :: "(mem_events \<Rightarrow> envelope \<Rightarrow> bool) \<Rightarrow> service \<Rightarrow> service \<Rightarrow> bool" for feed where
  ingest_read: "i < length (sv_Workers s) \<Longrightarrow> sv_Workers s ! i = Idle \<Longrightarrow> feed (sv_Events s) ev \<Longrightarrow>
    EventStore_ChainHead (sv_Events s) = Inr head \<Longrightarrow>
    step feed s (s\<lparr>sv_Workers := (sv_Workers s)[i := Built (new_row ev ph ref (prev_hash_for head) hold red)]\<rparr>)"
| ingest_fail: "i < length (sv_Workers s) \<Longrightarrow> sv_Workers s ! i = Built row \<Longrightarrow>
    step feed s (s\<lparr>sv_Workers := (sv_Workers s)[i := Idle]\<rparr>)"
| ingest_insert: "i < length (sv_Workers s) \<Longrightarrow> sv_Workers s ! i = Built row \<Longrightarrow>
    EventStore_Insert row (sv_Events s) = (r, s') \<Longrightarrow>
    step feed s (s\<lparr>sv_Events := s', sv_Workers := (sv_Workers s)[i := Idle]\<rparr>)"
| anchor_read: "sv_Anchor s = Waiting \<Longrightarrow> EventStore_ChainHead (sv_Events s) = Inr (Some head) \<Longrightarrow>
    length (ThisHash head) = 32 \<Longrightarrow> step feed s (s\<lparr>sv_Anchor := HeadRead head\<rparr>)"
| anchor_fail: "sv_Anchor s = HeadRead head \<Longrightarrow> step feed s (s\<lparr>sv_Anchor := Waiting\<rparr>)"
| anchor_insert: "sv_Anchor s = HeadRead head \<Longrightarrow>
    AnchorStore_InsertAnchor env (anchor_for head sig key url n) (sv_Anchors s) = (ir, t') \<Longrightarrow>
    step feed s (s\<lparr>sv_Anchors := t', sv_Anchor := AnchorInserted head\<rparr>)"
| anchor_mark: "sv_Anchor s = AnchorInserted head \<Longrightarrow>
    EventStore_MarkAnchored (TS head) (ID head) (sv_Events s) = (mr, s') \<Longrightarrow>
    step feed s (s\<lparr>sv_Events := s', sv_Anchor := Waiting\<rparr>)"
| set_hold: "EventStore_SetLegalHold i h (sv_Events s) = (hr, s') \<Longrightarrow>
    step feed s (s\<lparr>sv_Events := s'\<rparr>)"

inductive_cases step_elim: "step feed s s'"

inductive steps :: "(mem_events \<Rightarrow> envelope \<Rightarrow> bool) \<Rightarrow> service \<Rightarrow> service \<Rightarrow> bool" for feed where
  steps_refl: "steps feed s s"
| steps_step: "steps feed s s' \<Longrightarrow> step feed s' s'' \<Longrightarrow> steps feed s s''"

lemma steps_one: "step feed s s' \<Longrightarrow> steps feed s s'"
  by (rule steps_step [OF steps_refl])

lemma steps_invariant:
  assumes "steps feed s s'" and "P s" and "\<And>s s'. P s \<Longrightarrow> step feed s s' \<Longrightarrow> P s'"
  shows "P s'"
  using assms by (induction rule: steps.induct) auto

section \<open>What the store does in one step\<close>

lemma linked_view:
  assumes "linked es" and "map immutable_view es' = map immutable_view es"
  shows "linked es'"
proof -
  have len: "length es' = length es" using assms(2) by (metis length_map)
  have same: "EventHash (es' ! i) = EventHash (es ! i) \<and> ThisHash (es' ! i) = ThisHash (es ! i) \<and>
      PrevHash (es' ! i) = PrevHash (es ! i)" if "i < length es" for i
  proof -
    have "immutable_view (es' ! i) = immutable_view (es ! i)"
      using assms(2) that len by (metis nth_map)
    then show ?thesis
      by (cases "es' ! i"; cases "es ! i") (simp add: immutable_view_def EventHash_def)
  qed
  show ?thesis
    using assms(1) same len unfolding linked_def by (metis less_imp_diff_less)
qed

lemma map_view_flags:
  assumes "\<And>e. immutable_view (f e) = immutable_view e"
  shows "map immutable_view (map f es) = map immutable_view es"
  using assms by simp

lemma flag_views [simp]:
  "immutable_view (hold_row i h e) = immutable_view e"
  "immutable_view (mark_upto c e) = immutable_view e"
  "ev_key (hold_row i h e) = ev_key e" "ev_key (mark_upto c e) = ev_key e"
  by (simp_all add: hold_row_def mark_upto_def)

lemma insert_step:
  assumes "mem_inv s" and "EventStore_Insert row s = (r, s')"
  shows "mem_inv s' \<and> mem_rows s' = (if ID row \<in> ID ` set (mem_rows s) then mem_rows s
     else insort_key ev_key row (mem_rows s))"
  using mem.Insert_contract [of s row r s'] mem.Insert_total [OF assms(1), of row] assms
  by (auto simp: mem_store_defs is_ok_def split: sum.splits)

lemma hold_step:
  assumes "mem_inv s" and "EventStore_SetLegalHold i h s = (hr, s')"
  shows "mem_inv s' \<and> (\<exists>f. (\<forall>e. immutable_view (f e) = immutable_view e \<and> ev_key (f e) = ev_key e \<and>
     Anchored (f e) = Anchored e) \<and> mem_rows s' = map f (mem_rows s))"
proof -
  have "mem_inv s' \<and> mem_rows s' = (if hr = None then map (hold_row i h) (mem_rows s) else mem_rows s)"
    by (rule mem_hold_rows [OF assms])
  then show ?thesis
    by (intro conjI exI [of _ "if hr = None then hold_row i h else id"]) (auto simp: hold_row_def)
qed

lemma mark_step:
  assumes "mem_inv s" and "EventStore_MarkAnchored t i s = (mr, s')"
  shows "mem_inv s' \<and> mem_rows s' = map (mark_upto (Cursor t i)) (mem_rows s)"
  using mem_mark_rows [OF assms] by simp

section \<open>One consumer\<close>

text \<open>
  A message that arrives in chain order: its id is known already, or it is newer than every
  row. With one worker the row being built is the next row of the chain.
\<close>

definition in_order :: "mem_events \<Rightarrow> envelope \<Rightarrow> bool" where
  "in_order s ev \<longleftrightarrow> env_ID ev \<in> ID ` set (mem_rows s) \<or>
     (\<forall>e \<in> set (mem_rows s). ev_key e < Cursor (env_TS ev) (env_ID ev))"

definition next_row :: "event list \<Rightarrow> event \<Rightarrow> bool" where
  "next_row es row \<longleftrightarrow> ThisHash row = EventHash row \<and> (ID row \<in> ID ` set es \<or>
     (\<forall>e \<in> set es. ev_key e < ev_key row) \<and> (es \<noteq> [] \<longrightarrow> PrevHash row = ThisHash (last es)))"

definition one_worker :: "service \<Rightarrow> bool" where
  "one_worker s \<longleftrightarrow> mem_inv (sv_Events s) \<and> linked (mem_rows (sv_Events s)) \<and> length (sv_Workers s) = 1 \<and>
     (\<forall>row. sv_Workers s ! 0 = Built row \<longrightarrow> next_row (mem_rows (sv_Events s)) row)"

lemma view_sel:
  assumes "immutable_view a = immutable_view b"
  shows "ID a = ID b" "TS a = TS b" "ThisHash a = ThisHash b" "PrevHash a = PrevHash b" "ev_key a = ev_key b"
  using assms by (cases a; cases b; simp add: immutable_view_def ev_key_def)+

lemma next_row_flags:
  assumes "\<And>e. immutable_view (f e) = immutable_view e"
  shows "next_row (map f es) row \<longleftrightarrow> next_row es row"
proof -
  note same = view_sel [OF assms]
  have "ID ` set (map f es) = ID ` set es" by (simp add: image_image same(1))
  moreover have "es \<noteq> [] \<Longrightarrow> ThisHash (last (map f es)) = ThisHash (last es)" by (simp add: last_map same(3))
  ultimately show ?thesis by (auto simp: next_row_def same(5))
qed

lemma next_row_inserted:
  assumes "linked es" and "next_row es row" and "ID row \<notin> ID ` set es"
  shows "linked (insort_key ev_key row es)"
  using assms by (auto simp: next_row_def insort_key_snoc linked_snoc)

lemma next_row_built:
  assumes "linked (mem_rows s)" and "in_order s ev" and "EventStore_ChainHead s = Inr head"
  shows "next_row (mem_rows s) (new_row ev ph ref (prev_hash_for head) hold red)"
proof -
  have "head = head_of s" using assms(3) by (simp add: mem_chain_head head_of_def split: if_splits)
  then show ?thesis
    using assms(2) head_hash_linked [OF assms(1)] by (auto simp: next_row_def new_row_hash in_order_def)
qed

lemma flags_step:
  assumes "one_worker s" and "\<And>e. immutable_view (f e) = immutable_view e"
    and "mem_inv s'" and "mem_rows s' = map f (mem_rows (sv_Events s))"
  shows "one_worker (s\<lparr>sv_Events := s'\<rparr>)" and "one_worker (s\<lparr>sv_Events := s', sv_Anchor := pc\<rparr>)"
  using assms linked_view [OF _ map_view_flags [OF assms(2)]]
  by (auto simp: one_worker_def next_row_flags [OF assms(2)])

lemma one_worker_step:
  assumes "one_worker s" and "step in_order s s'"
  shows "one_worker s'"
  using assms(2)
proof cases
  case (ingest_read i ev head ph ref hold red)
  then show ?thesis using assms(1) next_row_built by (auto simp: one_worker_def)
next
  case (ingest_insert i row r st)
  have inv: "mem_inv (sv_Events s)" and l: "linked (mem_rows (sv_Events s))" and i: "i = 0"
    using assms(1) ingest_insert by (auto simp: one_worker_def)
  have "next_row (mem_rows (sv_Events s)) row" using assms(1) ingest_insert(3) by (simp add: one_worker_def i)
  then have "linked (mem_rows st)" "mem_inv st"
    using insert_step [OF inv ingest_insert(4)] next_row_inserted [OF l] l by (simp_all split: if_splits)
  then show ?thesis using assms(1) ingest_insert by (auto simp: one_worker_def)
next
  case (anchor_mark head mr st)
  have "mem_inv (sv_Events s)" using assms(1) by (simp add: one_worker_def)
  from mark_step [OF this anchor_mark(3)] show ?thesis
    using flags_step(2) [OF assms(1), of "mark_upto (Cursor (TS head) (ID head))" st Waiting] anchor_mark(1) by simp
next
  case (set_hold i h hr st)
  have "mem_inv (sv_Events s)" using assms(1) by (simp add: one_worker_def)
  from hold_step [OF this set_hold(2)] show ?thesis using flags_step(1) [OF assms(1)] set_hold(1) by metis
qed (use assms(1) in \<open>auto simp: one_worker_def\<close>)

section \<open>Anchors\<close>

text \<open>
  What holds with any number of workers and any messages: the row an anchor names is in the
  store with the anchored hash, and a row is marked only up to the key of some anchor.
\<close>

definition row_present :: "event list \<Rightarrow> string \<Rightarrow> bytes \<Rightarrow> bool" where
  "row_present es i h \<longleftrightarrow> (\<exists>e \<in> set es. ID e = i \<and> ThisHash e = h)"

fun pc_covered :: "service \<Rightarrow> anchor_pc \<Rightarrow> bool" where
  "pc_covered s Waiting = True"
| "pc_covered s (HeadRead head) = row_present (mem_rows (sv_Events s)) (ID head) (ThisHash head)"
| "pc_covered s (AnchorInserted head) =
     (\<exists>a \<in> set (sv_Anchors s). Cursor (an_LastEventTS a) (an_LastEventID a) = ev_key head)"

definition covered_anchors :: "service \<Rightarrow> bool" where
  "covered_anchors s \<longleftrightarrow> mem_inv (sv_Events s) \<and>
     (\<forall>e \<in> set (mem_rows (sv_Events s)). Anchored e \<longrightarrow>
        (\<exists>a \<in> set (sv_Anchors s). ev_key e \<le> Cursor (an_LastEventTS a) (an_LastEventID a))) \<and>
     (\<forall>a \<in> set (sv_Anchors s). row_present (mem_rows (sv_Events s)) (an_LastEventID a) (an_RootHash a)) \<and>
     pc_covered s (sv_Anchor s) \<and>
     (\<forall>row. Built row \<in> set (sv_Workers s) \<longrightarrow> \<not> Anchored row)"

lemma row_present_flags:
  assumes "\<And>e. immutable_view (f e) = immutable_view e"
  shows "row_present (map f es) i h \<longleftrightarrow> row_present es i h"
  using view_sel [OF assms] by (simp add: row_present_def)

lemma row_present_insort: "row_present es i h \<Longrightarrow> row_present (insort_key k x es) i h"
  by (auto simp: row_present_def set_insort_key)

lemma pc_covered_cong:
  assumes "\<And>i h. row_present (mem_rows (sv_Events s)) i h \<Longrightarrow> row_present (mem_rows (sv_Events s')) i h"
    and "sv_Anchors s' = sv_Anchors s" and "pc_covered s pc"
  shows "pc_covered s' pc"
  using assms by (cases pc) auto

lemma covered_workers:
  assumes "covered_anchors s" and "\<And>row. Built row \<in> set ws \<Longrightarrow> \<not> Anchored row"
  shows "covered_anchors (s\<lparr>sv_Workers := ws\<rparr>)"
  using assms pc_covered_cong [of s "s\<lparr>sv_Workers := ws\<rparr>" "sv_Anchor s"] by (simp add: covered_anchors_def)

lemma covered_insert:
  assumes "covered_anchors s" and "EventStore_Insert row (sv_Events s) = (r, st)" and "\<not> Anchored row"
  shows "covered_anchors (s\<lparr>sv_Events := st\<rparr>)"
proof -
  have inv: "mem_inv (sv_Events s)" using assms(1) by (simp add: covered_anchors_def)
  have kept: "row_present (mem_rows (sv_Events s)) i h \<Longrightarrow> row_present (mem_rows st) i h" for i h
    using insert_step [OF inv assms(2)] by (simp add: row_present_insort)
  have rows: "set (mem_rows st) \<subseteq> insert row (set (mem_rows (sv_Events s)))"
    using insert_step [OF inv assms(2)] by (auto simp: set_insort_key)
  have pc: "pc_covered s (sv_Anchor s)" using assms(1) unfolding covered_anchors_def by blast
  have "pc_covered (s\<lparr>sv_Events := st\<rparr>) (sv_Anchor s)"
    using pc by (rule pc_covered_cong [rotated 2]) (simp_all add: kept)
  moreover have "mem_inv st" using insert_step [OF inv assms(2)] by blast
  moreover have "\<exists>a \<in> set (sv_Anchors s). ev_key e \<le> Cursor (an_LastEventTS a) (an_LastEventID a)"
    if "e \<in> set (mem_rows st)" "Anchored e" for e
  proof -
    have "e \<in> set (mem_rows (sv_Events s))" using rows that assms(3) by auto
    then show ?thesis using assms(1) that(2) by (simp add: covered_anchors_def)
  qed
  moreover have "\<forall>a \<in> set (sv_Anchors s). row_present (mem_rows st) (an_LastEventID a) (an_RootHash a)"
    using assms(1) kept unfolding covered_anchors_def by blast
  ultimately show ?thesis using assms(1) by (simp add: covered_anchors_def)
qed

lemma covered_flags:
  assumes "covered_anchors s" and "\<And>e. immutable_view (f e) = immutable_view e"
    and "mem_inv st" and "mem_rows st = map f (mem_rows (sv_Events s))"
    and "\<And>e. Anchored (f e) \<Longrightarrow> Anchored e \<or>
      (\<exists>a \<in> set (sv_Anchors s). ev_key e \<le> Cursor (an_LastEventTS a) (an_LastEventID a))"
  shows "covered_anchors (s\<lparr>sv_Events := st\<rparr>)"
proof -
  have kept: "row_present (mem_rows st) i h \<longleftrightarrow> row_present (mem_rows (sv_Events s)) i h" for i h
    by (simp add: assms(4) row_present_flags [OF assms(2)])
  have pc: "pc_covered s (sv_Anchor s)" using assms(1) unfolding covered_anchors_def by blast
  have "pc_covered (s\<lparr>sv_Events := st\<rparr>) (sv_Anchor s)"
    using pc by (rule pc_covered_cong [rotated 2]) (simp_all add: kept)
  moreover have "\<exists>a \<in> set (sv_Anchors s). ev_key (f e) \<le> Cursor (an_LastEventTS a) (an_LastEventID a)"
    if "e \<in> set (mem_rows (sv_Events s))" "Anchored (f e)" for e
    using assms(1) assms(5) [OF that(2)] that(1) view_sel(5) [OF assms(2)] by (auto simp: covered_anchors_def)
  ultimately show ?thesis
    using assms(1,3) kept by (simp add: covered_anchors_def assms(4))
qed

lemma covered_pc:
  assumes "covered_anchors s" and "pc_covered s pc"
  shows "covered_anchors (s\<lparr>sv_Anchor := pc\<rparr>)"
proof -
  have "pc_covered (s\<lparr>sv_Anchor := pc\<rparr>) pc"
    using assms(2) by (rule pc_covered_cong [rotated 2]) simp_all
  then show ?thesis using assms(1) by (simp add: covered_anchors_def)
qed

lemma covered_anchor_inserted:
  assumes "covered_anchors s" and "sv_Anchor s = HeadRead head"
    and "AnchorStore_InsertAnchor env (anchor_for head sig key url n) (sv_Anchors s) = (ir, t)"
  shows "covered_anchors (s\<lparr>sv_Anchors := t, sv_Anchor := AnchorInserted head\<rparr>)"
proof -
  obtain a where t: "t = sv_Anchors s @ [a]" and a: "an_LastEventID a = ID head" "an_LastEventTS a = TS head"
    "an_RootHash a = ThisHash head"
    using assms(3) by (auto simp: AnchorStore_InsertAnchor_def anchor_for_def Let_def)
  have "pc_covered s (HeadRead head)" using assms(1,2) by (simp add: covered_anchors_def)
  then show ?thesis using assms(1) by (auto simp: covered_anchors_def t a ev_key_def)
qed

lemma covered_anchors_step:
  assumes "covered_anchors s" and "step feed s s'"
  shows "covered_anchors s'"
  using assms(2)
proof cases
  case (ingest_read i ev head ph ref hold red)
  have "\<not> Anchored (new_row ev ph ref (prev_hash_for head) hold red)" by (simp add: new_row_def)
  then show ?thesis
    using assms(1) unfolding ingest_read(1)
    by (intro covered_workers) (auto simp: covered_anchors_def dest!: set_update_subset_insert [THEN subsetD])
next
  case (ingest_fail i row)
  then show ?thesis
    using assms(1) unfolding ingest_fail(1)
    by (intro covered_workers) (auto simp: covered_anchors_def dest!: set_update_subset_insert [THEN subsetD])
next
  case (ingest_insert i row r st)
  have "\<not> Anchored row" using assms(1) ingest_insert(2,3) nth_mem unfolding covered_anchors_def by metis
  from covered_workers [OF covered_insert [OF assms(1) ingest_insert(4) this], of "(sv_Workers s)[i := Idle]"]
  show ?thesis
    using assms(1) unfolding ingest_insert(1)
    by (auto simp: covered_anchors_def dest!: set_update_subset_insert [THEN subsetD])
next
  case (anchor_read head)
  have "head \<in> set (mem_rows (sv_Events s))"
    using anchor_read(3) by (auto simp: mem_chain_head split: if_splits)
  then show ?thesis
    unfolding anchor_read(1) by (intro covered_pc [OF assms(1)]) (auto simp: row_present_def)
next
  case (anchor_fail head)
  then show ?thesis by (simp add: covered_pc [OF assms(1)])
next
  case (anchor_insert head env sig key url n ir t)
  from covered_anchor_inserted [OF assms(1) anchor_insert(2,3)] show ?thesis by (simp only: anchor_insert(1))
next
  case (anchor_mark head mr st)
  have "mem_inv (sv_Events s)" and pc: "pc_covered s (AnchorInserted head)"
    using assms(1) anchor_mark(2) unfolding covered_anchors_def by metis+
  note mark = mark_step [OF this(1) anchor_mark(3)]
  have "Anchored (mark_upto (Cursor (TS head) (ID head)) e) \<Longrightarrow> Anchored e \<or>
      (\<exists>a \<in> set (sv_Anchors s). ev_key e \<le> Cursor (an_LastEventTS a) (an_LastEventID a))" for e
    using pc by (force simp: mark_upto_def ev_key_def split: if_splits)
  then have "covered_anchors (s\<lparr>sv_Events := st\<rparr>)"
    using mark by (intro covered_flags [OF assms(1), of "mark_upto (Cursor (TS head) (ID head))"]) auto
  from covered_pc [OF this, of Waiting] show ?thesis by (simp add: anchor_mark(1))
next
  case (set_hold i h hr st)
  have "mem_inv (sv_Events s)" using assms(1) by (simp add: covered_anchors_def)
  from hold_step [OF this set_hold(2)] obtain f where f: "\<And>e. immutable_view (f e) = immutable_view e"
    "\<And>e. Anchored (f e) = Anchored e" "mem_inv st" "mem_rows st = map f (mem_rows (sv_Events s))" by blast
  show ?thesis unfolding set_hold(1) by (rule covered_flags [OF assms(1) f(1,3,4)]) (simp add: f(2))
qed
section \<open>The code as sequences of steps\<close>

text \<open>A service whose goroutines are all at rest.\<close>

definition service_of :: "mem_events \<Rightarrow> mem_anchors \<Rightarrow> nat \<Rightarrow> service" where
  "service_of s t n = \<lparr>sv_Events = s, sv_Anchors = t, sv_Workers = replicate n Idle, sv_Anchor = Waiting\<rparr>"

lemma service_of_sel [simp]:
  "sv_Events (service_of s t n) = s" "sv_Anchors (service_of s t n) = t"
  "sv_Workers (service_of s t n) = replicate n Idle" "sv_Anchor (service_of s t n) = Waiting"
  by (simp_all add: service_of_def)

lemma read_insert_steps:
  assumes "feed s ev" and "EventStore_ChainHead s = Inr head" and "0 < n"
    and "EventStore_Insert (new_row ev ph ref (prev_hash_for head) hold red) s = (r, s')"
  shows "steps feed (service_of s t n) (service_of s' t n)"
proof -
  let ?row = "new_row ev ph ref (prev_hash_for head) hold red"
  let ?mid = "(service_of s t n)\<lparr>sv_Workers := (replicate n Idle)[0 := Built ?row]\<rparr>"
  have "step feed (service_of s t n) ?mid"
    using ingest_read [of 0 "service_of s t n" feed ev head ph ref hold red] assms(1-3) by simp
  moreover have "step feed ?mid (?mid\<lparr>sv_Events := s', sv_Workers := (sv_Workers ?mid)[0 := Idle]\<rparr>)"
    using assms(3,4) by (intro ingest_insert [where row = ?row and r = r]) simp_all
  moreover have "?mid\<lparr>sv_Events := s', sv_Workers := (sv_Workers ?mid)[0 := Idle]\<rparr> = service_of s' t n"
    using assms(3) by (cases n) (simp_all add: service_of_def)
  ultimately show ?thesis by (metis steps_one steps_step)
qed

lemma mem_mark_anchor_steps:
  assumes "mem_inv s" and "AnchorJob_Run (mem_anchor_job sg url cnt) env s t = (r, s', t')"
  shows "steps feed (service_of s t n) (service_of s' t' n)"
  using assms
proof (cases rule: mem_anchor_run_cases)
  case (anchored hd_row sig key)
  let ?k = "case cnt of Some n \<Rightarrow> n | None \<Rightarrow> 1"
  let ?s0 = "service_of s t n"
  let ?s1 = "?s0\<lparr>sv_Anchor := HeadRead hd_row\<rparr>"
  let ?s2 = "?s1\<lparr>sv_Anchors := t', sv_Anchor := AnchorInserted hd_row\<rparr>"
  have "step feed ?s0 ?s1"
    using anchored(1-3) by (intro anchor_read) (simp_all add: mem_chain_head)
  moreover have "AnchorStore_InsertAnchor env (anchor_for hd_row sig key url ?k) t = (Inr (oe_UUID env), t')"
    using anchored(5,6) by (simp add: AnchorStore_InsertAnchor_def anchor_for_def)
  then have "step feed ?s1 ?s2" by (intro anchor_insert) simp_all
  moreover have "step feed ?s2 (?s2\<lparr>sv_Events := s', sv_Anchor := Waiting\<rparr>)"
    by (rule anchor_mark [where mr = "fst (EventStore_MarkAnchored (TS hd_row) (ID hd_row) s)"])
      (simp_all add: anchored(7))
  moreover have "?s2\<lparr>sv_Events := s', sv_Anchor := Waiting\<rparr> = service_of s' t' n"
    by (simp add: service_of_def)
  ultimately show ?thesis by (metis steps_one steps_step)
qed (auto intro: steps_refl)

section \<open>Properties\<close>

text \<open>
  C24: the sequential code is a run of the interleaved model. What \<^verbatim>\<open>IngestMessage\<close> does to the
  in-memory index, on every branch, and what a later \<^verbatim>\<open>AnchorJob.Run\<close> does to it and to the
  anchors, and what a \<^verbatim>\<open>SetLegalHold\<close> after that does, some sequence of steps does to a service
  with the same stores.
\<close>

theorem sequential_runs_are_steps:
  assumes "id_Events deps = mem_event_store" and "mem_inv (w_Events w)"
    and "IngestMessage q deps env msg w = (res, w')"
    and "\<forall>ev body red ph. accepted q deps msg = Some (ev, body, red, ph) \<longrightarrow> feed (w_Events w) ev"
    and "AnchorJob_Run (mem_anchor_job sg url cnt) env' (w_Events w') t = (ar, s', t')"
  shows "steps feed (service_of (w_Events w) t 1) (service_of (w_Events w') t 1) \<and>
    steps feed (service_of (w_Events w') t 1) (service_of s' t' 1) \<and>
    steps feed (service_of s' t' 1) (service_of (snd (EventStore_SetLegalHold i h s')) t' 1)"
proof (intro conjI)
  show "steps feed (service_of (w_Events w) t 1) (service_of (w_Events w') t 1)"
  proof (cases "accepted q deps msg")
    case None
    then have "w_Events w' = w_Events w"
      using assms(3) by (elim IngestMessage_rejected [of q deps msg env w]) (auto simp: deadLetter_sel)
    then show ?thesis by (simp add: steps_refl)
  next
    case (Some x)
    obtain ev body red ph where x: "x = (ev, body, red, ph)" by (cases x)
    obtain w1 where ix: "index_event q deps env ev body red ph w = (res, w1)" and w': "w_Events w' = w_Events w1"
      using assms(3) IngestMessage_accepted [OF Some [unfolded x], of env w] by (auto split: prod.splits)
    have fed: "feed (w_Events w) ev" using assms(4) Some x by blast
    from ix show ?thesis
    proof (cases rule: index_event_cases)
      case (insert_called head ref p' row r st)
      then have "EventStore_ChainHead (w_Events w) = Inr head"
        "EventStore_Insert (new_row ev ph ref (prev_hash_for head) (id_LegalHoldDefault deps) red) (w_Events w) = (r, st)"
        by (simp_all add: assms(1) mem_store_defs)
      from read_insert_steps [of feed, OF fed this(1) _ this(2)] show ?thesis using insert_called(5) w' by simp
    qed (simp_all add: w' steps_refl)
  qed
next
  have "mem_inv (w_Events w')" using assms(1-3) by (cases rule: ingest_rows) auto
  from mem_mark_anchor_steps [OF this assms(5)]
  show "steps feed (service_of (w_Events w') t 1) (service_of s' t' 1)" .
next
  have "step feed (service_of s' t' 1) (service_of s' t' 1\<lparr>sv_Events := snd (EventStore_SetLegalHold i h s')\<rparr>)"
    by (rule set_hold [of i h _ "fst (EventStore_SetLegalHold i h s')"]) (simp add: service_of_def)
  then show "steps feed (service_of s' t' 1) (service_of (snd (EventStore_SetLegalHold i h s')) t' 1)"
    by (simp add: service_of_def steps_one)
qed

theorem sequential_runs_are_steps_witness:
  "steps in_order (service_of NewEventStore [] 1)
     (service_of (w_Events (snd (IngestMessage plain_texts (sample_deps ''p'') sample_env the_message
        (world_of NewEventStore)))) [] 1)"
proof -
  let ?s = "w_Events (snd (IngestMessage plain_texts (sample_deps ''p'') sample_env the_message (world_of NewEventStore)))"
  obtain r s' t' where run: "AnchorJob_Run (mem_anchor_job echo_signer ''u'' None) sample_env ?s [] = (r, s', t')"
    by (metis prod_cases3)
  from sequential_runs_are_steps [where feed = in_order, OF _ _ prod.collapse [symmetric] _ run] show ?thesis
    by (simp add: sample_deps_def world_of_def in_order_def)
qed

text \<open>
  C6: one consumer keeps the chain. With a single ingest worker whose messages arrive in chain
  order, every interleaving with the anchor loop, with legal-hold requests and with failing
  writes leaves a history that verifies.
\<close>

theorem one_consumer_keeps_chain:
  assumes "steps in_order (service_of s t 1) s'" and "mem_inv s"
    and "vr_Status (fst (VerifyChain (mem_rows s))) = StatusOK"
  shows "vr_Status (fst (VerifyChain (mem_rows (sv_Events s')))) = StatusOK"
proof -
  have "one_worker (service_of s t 1)" using assms(2,3) by (simp add: one_worker_def VerifyChain_ok_iff)
  from steps_invariant [OF assms(1), of one_worker, OF this one_worker_step]
  show ?thesis by (simp add: one_worker_def VerifyChain_ok_iff)
qed

theorem one_consumer_keeps_chain_witness:
  "\<exists>s'. steps in_order (service_of NewEventStore [] 1) s' \<and> sv_Workers s' \<noteq> [Idle] \<and>
     vr_Status (fst (VerifyChain (mem_rows (sv_Events s')))) = StatusOK"
proof -
  let ?s = "service_of NewEventStore [] 1"
  let ?row = "new_row (sample_envelope ''b'' the_ts) [] '''' (prev_hash_for None) False False"
  have "step in_order ?s (?s\<lparr>sv_Workers := (sv_Workers ?s)[0 := Built ?row]\<rparr>)"
    by (rule ingest_read) (simp_all add: in_order_def mem_chain_head)
  note run = steps_one [OF this]
  from one_consumer_keeps_chain [OF run] run show ?thesis
    by (intro exI [of _ "?s\<lparr>sv_Workers := (sv_Workers ?s)[0 := Built ?row]\<rparr>"]) (simp add: VerifyChain_ok_iff)
qed

text \<open>Steps to a given state.\<close>

lemma ingest_read_to:
  assumes "i < length (sv_Workers s)" and "sv_Workers s ! i = Idle" and "feed (sv_Events s) ev"
    and "EventStore_ChainHead (sv_Events s) = Inr head"
    and "row = new_row ev [] [] (prev_hash_for head) False False"
    and "s' = s\<lparr>sv_Workers := (sv_Workers s)[i := Built row]\<rparr>"
  shows "step feed s s'"
  unfolding assms(5,6) using assms(1-4) by (rule ingest_read)

lemma ingest_insert_to:
  assumes "i < length (sv_Workers s)" and "sv_Workers s ! i = Built row"
    and "EventStore_Insert row (sv_Events s) = (r, st)"
    and "s' = s\<lparr>sv_Events := st, sv_Workers := (sv_Workers s)[i := Idle]\<rparr>"
  shows "step feed s s'"
  unfolding assms(4) using assms(1-3) by (rule ingest_insert)

lemma EventMessage_ids:
  assumes "fits (ID e)" and "fits (ID e')" and "ID e \<noteq> ID e'"
  shows "EventMessage e \<noteq> EventMessage e'"
  using assms unfolding EventMessage_append by (simp only: prefixed_string_inject simp_thms)

text \<open>
  C40: a second consumer forks the chain. From any verifying history that is not empty, two
  workers that take two new messages in chain order, both read the head before either inserts,
  and then insert, leave a row for each message, both linked to the old head: the verification of
  the untouched store reports a gap at the second row, unless the canonical messages of the old
  head and of the first row, which differ (ids below \<open>2 ^ 32\<close> bytes), have the same SHA-256
  digest.
\<close>

theorem two_consumers_fork_chain:
  fixes ev1 ev2 :: envelope
  assumes "mem_inv s" and "vr_Status (fst (VerifyChain (mem_rows s))) = StatusOK" and "mem_rows s \<noteq> []"
    and "ev_key (last (mem_rows s)) < Cursor (env_TS ev1) (env_ID ev1)"
    and "Cursor (env_TS ev1) (env_ID ev1) < Cursor (env_TS ev2) (env_ID ev2)"
    and "env_ID ev1 \<notin> ID ` set (mem_rows s)" and "env_ID ev2 \<notin> insert (env_ID ev1) (ID ` set (mem_rows s))"
    and "fits (env_ID ev1)" and "fits (ID (last (mem_rows s)))"
  shows "\<exists>s' r1 r2. steps in_order (service_of s t 2) (service_of s' t 2) \<and>
    mem_rows s' = mem_rows s @ [r1, r2] \<and> columns_of ev1 r1 \<and> columns_of ev2 r2 \<and>
    PrevHash r1 = ThisHash (last (mem_rows s)) \<and> PrevHash r2 = ThisHash (last (mem_rows s)) \<and>
    (vr_Status (fst (VerifyChain (mem_rows s'))) = StatusGap \<and> vr_Event (fst (VerifyChain (mem_rows s'))) = Some r2 \<or>
     collision (last (mem_rows s)) r1)"
proof -
  let ?es = "mem_rows s"
  let ?prev = "prev_hash_for (Some (last ?es))"
  define r1 where "r1 = new_row ev1 [] [] ?prev False False"
  define r2 where "r2 = new_row ev2 [] [] ?prev False False"
  note r = r1_def r2_def
  have sorted: "chain_sorted ?es" using assms(1) by (simp add: mem_inv_def)
  have above: "\<forall>e \<in> set ?es. ev_key e < ev_key r1 \<and> ev_key e < ev_key r2" "ev_key r1 < ev_key r2"
    using last_row_greatest [OF sorted] assms(4,5) by (auto simp: r dest: order.strict_trans1 order.strict_trans)
  obtain s1 where s1: "EventStore_Insert r1 s = (fst (EventStore_Insert r1 s), s1)"
    by (cases "EventStore_Insert r1 s") simp
  have rows1: "mem_inv s1 \<and> mem_rows s1 = ?es @ [r1]"
    using insert_step [OF assms(1) s1] above(1) assms(6) by (simp add: r insort_key_snoc)
  obtain s2 where s2: "EventStore_Insert r2 s1 = (fst (EventStore_Insert r2 s1), s2)"
    by (cases "EventStore_Insert r2 s1") simp
  have rows2: "mem_rows s2 = ?es @ [r1, r2]"
    using insert_step [OF _ s2] rows1 above assms(7) by (auto simp: r insort_key_snoc)
  let ?a0 = "service_of s t 2"
  let ?a1 = "?a0\<lparr>sv_Workers := [Built r1, Idle]\<rparr>"
  let ?a2 = "?a0\<lparr>sv_Workers := [Built r1, Built r2]\<rparr>"
  let ?a3 = "?a0\<lparr>sv_Events := s1, sv_Workers := [Idle, Built r2]\<rparr>"
  have head: "EventStore_ChainHead s = Inr (Some (last ?es))" using assms(3) by (simp add: mem_chain_head)
  have fed: "in_order s ev1" "in_order s ev2" using above(1) by (auto simp: in_order_def r)
  have "step in_order ?a0 ?a1"
    using head fed by (intro ingest_read_to [of 0 _ _ ev1 "Some (last ?es)" r1]) (simp_all add: r numeral_2_eq_2)
  moreover have "step in_order ?a1 ?a2"
    using head fed by (intro ingest_read_to [of 1 _ _ ev2 "Some (last ?es)" r2]) (simp_all add: r)
  moreover have "step in_order ?a2 ?a3"
    using s1 by (intro ingest_insert_to [of 0 _ r1 _ s1]) simp_all
  moreover have "step in_order ?a3 (service_of s2 t 2)"
    using s2 by (intro ingest_insert_to [of 1 _ r2 _ s2]) (simp_all add: service_of_def numeral_2_eq_2)
  ultimately have run: "steps in_order ?a0 (service_of s2 t 2)" by (meson steps_one steps_step)
  have l: "linked ?es" using assms(2) by (simp add: VerifyChain_ok_iff)
  have prev: "PrevHash r1 = ThisHash (last ?es)" "PrevHash r2 = ThisHash (last ?es)"
    using head_hash_linked [OF l] assms(3) by (simp_all add: r head_of_def)
  have own: "EventHash r1 = ThisHash r1" "EventHash r2 = ThisHash r2" by (simp_all add: r new_row_hash)
  have ok1: "linked (?es @ [r1])" using l prev(1) own(1) by (simp add: linked_snoc)
  have cols: "columns_of ev1 r1" "columns_of ev2 r2" by (simp_all add: r columns_of_def new_row_def)
  have "last ?es \<in> set ?es" using assms(3) by simp
  then have "ID (last ?es) \<noteq> env_ID ev1" using assms(6) by (metis imageI)
  then have msg: "EventMessage (last ?es) \<noteq> EventMessage r1"
    using assms(8,9) cols(1) by (intro EventMessage_ids) (simp_all add: columns_of_def)
  have headown: "ThisHash (last ?es) = EventHash (last ?es)" using linked_own [OF l] assms(3) by simp
  have gap: "VerifyChain (mem_rows s2) = (VerifyEvent r2 (Some (ThisHash r1)), [])"
    if ne: "ThisHash r1 \<noteq> ThisHash (last ?es)"
  proof -
    let ?n = "length (?es @ [r1])"
    have nth: "mem_rows s2 ! ?n = r2" "mem_rows s2 ! (?n - 1) = r1"
      by (simp_all add: rows2 nth_append)
    have "\<not> broken_at (mem_rows s2) j" if "j < ?n" for j
      using ok1 that broken_at_append [of j "?es @ [r1]" "[r2]"] by (simp add: broken_linked rows2)
    moreover have "broken_at (mem_rows s2) ?n" using ne prev(2) nth by (simp add: broken_at_def)
    ultimately show ?thesis
      using VerifyChain_at [of ?n "mem_rows s2"] nth by (simp add: rows2)
  qed
  show ?thesis
  proof (intro exI conjI)
    show "vr_Status (fst (VerifyChain (mem_rows s2))) = StatusGap \<and> vr_Event (fst (VerifyChain (mem_rows s2))) = Some r2 \<or>
      collision (last ?es) r1"
    proof (cases "ThisHash r1 = ThisHash (last ?es)")
      case True
      then show ?thesis using msg own(1) headown by (simp add: collision_def EventHash_message)
    next
      case False
      then show ?thesis using gap [OF False] own(2) prev(2) by (simp add: VerifyEvent_status)
    qed
  qed (use run rows2 cols prev in simp_all)
qed

theorem two_consumers_fork_chain_witness:
  "\<exists>s' r1 r2. steps in_order (service_of (store_of two_rows) [] 2) (service_of s' [] 2) \<and>
    mem_rows s' = two_rows @ [r1, r2] \<and> ID r1 = ''c'' \<and> ID r2 = ''d'' \<and> PrevHash r2 = PrevHash r1 \<and>
    (vr_Status (fst (VerifyChain (mem_rows s'))) = StatusGap \<or> collision (last two_rows) r1)"
proof -
  let ?c = "sample_envelope ''c'' 3" and ?d = "sample_envelope ''d'' 4"
  have inv: "mem_inv (store_of two_rows)"
    by (rule store_of_inv) (simp_all add: two_rows_def less_cursor_def)
  have ok: "vr_Status (fst (VerifyChain (mem_rows (store_of two_rows)))) = StatusOK" "mem_rows (store_of two_rows) \<noteq> []"
    by (simp_all add: VerifyChain_ok_iff) (simp add: two_rows_def)
  have ord: "ev_key (last (mem_rows (store_of two_rows))) < Cursor (env_TS ?c) (env_ID ?c)"
    "Cursor (env_TS ?c) (env_ID ?c) < Cursor (env_TS ?d) (env_ID ?d)"
    by (simp_all add: two_rows_def less_cursor_def)
  have new: "env_ID ?c \<notin> ID ` set (mem_rows (store_of two_rows))"
    "env_ID ?d \<notin> insert (env_ID ?c) (ID ` set (mem_rows (store_of two_rows)))"
    "fits (env_ID ?c)" "fits (ID (last (mem_rows (store_of two_rows))))"
    by (simp_all add: two_rows_def)
  from two_consumers_fork_chain [OF inv ok ord new, of "[]"] show ?thesis
    by (fastforce simp: columns_of_def)
qed

text \<open>
  C16: marked rows are covered by anchors. In every state that any number of consumers with any
  messages, the anchor loop and legal-hold requests can reach from a store without anchors, a
  row is marked as anchored only if some stored anchor names a row at or after it, and the row
  that an anchor names is in the store with the anchored hash.
\<close>

theorem anchors_cover_marked_rows:
  assumes "steps feed (service_of s [] n) s'" and "mem_inv s" and "\<forall>e \<in> set (mem_rows s). \<not> Anchored e"
  shows "(\<forall>e \<in> set (mem_rows (sv_Events s')). Anchored e \<longrightarrow>
      (\<exists>a \<in> set (sv_Anchors s'). ev_key e \<le> Cursor (an_LastEventTS a) (an_LastEventID a))) \<and>
    (\<forall>a \<in> set (sv_Anchors s'). \<not> anchor_mismatch mem_event_store (sv_Events s') a)"
proof -
  have "covered_anchors (service_of s [] n)" using assms(2,3) by (simp add: covered_anchors_def)
  from steps_invariant [OF assms(1), of covered_anchors, OF this covered_anchors_step]
  have c: "covered_anchors s'" .
  then have inv: "mem_inv (sv_Events s')" by (simp add: covered_anchors_def)
  have "\<not> anchor_mismatch mem_event_store (sv_Events s') a" if "a \<in> set (sv_Anchors s')" for a
  proof -
    have "row_present (mem_rows (sv_Events s')) (an_LastEventID a) (an_RootHash a)"
      using c that unfolding covered_anchors_def by blast
    then obtain e where e: "e \<in> set (mem_rows (sv_Events s'))" "ID e = an_LastEventID a"
        "ThisHash e = an_RootHash a"
      by (auto simp: row_present_def)
    with mem.Get_total [OF inv e(1)] show ?thesis by (simp add: anchor_mismatch_def)
  qed
  then show ?thesis using c unfolding covered_anchors_def by blast
qed

theorem anchors_cover_marked_rows_witness:
  "\<exists>s' a. steps in_order (service_of one_row_store [] 2) (service_of s' [a] 2) \<and>
     \<not> anchor_mismatch mem_event_store s' a"
proof -
  obtain a s' t' where run: "AnchorJob_Run (mem_anchor_job echo_signer ''u'' None)
      \<lparr>oe_Now = 5, oe_UUID = ''x''\<rparr> one_row_store [] = (Inr a, s', t')"
    using one_row_anchor_run by metis
  from NewEventStore_Insert(2) run obtain b where t': "t' = [b]" by (cases rule: mem_anchor_run_cases) auto
  note steps = mem_mark_anchor_steps [OF NewEventStore_Insert(2) run, of in_order 2]
  from anchors_cover_marked_rows [OF steps NewEventStore_Insert(2)] steps show ?thesis
    by (intro exI [of _ s'] exI [of _ b]) (simp add: NewEventStore_Insert t')
qed

end
