(* ===== verification/Auth.thy ===== *)
theory Auth
  imports GoText
begin

text \<open>
  internal/auth/auth.go: role-based access control. A request's roles are the value of the
  header \<^verbatim>\<open>X-Audit-Roles\<close>, which is all of the request the package reads.
\<close>

type_synonym role = string

definition RoleReader :: role where "RoleReader = ''audit-reader''"
definition RoleAdmin :: role where "RoleAdmin = ''audit-admin''"
definition RoleSystem :: role where "RoleSystem = ''audit-system''"

definition RolesHeader :: string where "RolesHeader = ''X-Audit-Roles''"

text \<open>A role set is a map to \<^verbatim>\<open>true\<close>; the model keeps its keys.\<close>

definition Roles :: "string \<Rightarrow> role set" where
  "Roles hdr = set (filter (\<lambda>p. p \<noteq> '''') (map TrimSpace (split_at_char (CHR '','') hdr)))"

definition Has :: "role set \<Rightarrow> role \<Rightarrow> bool" where
  "Has s r \<longleftrightarrow> r \<in> s"

fun any_granted :: "role set \<Rightarrow> role list \<Rightarrow> bool" where
  "any_granted granted [] = False"
| "any_granted granted (want # ws) =
     (if Has granted want then True
      else if want = RoleReader \<and> Has granted RoleAdmin then True
      else any_granted granted ws)"

definition HasAny :: "string \<Rightarrow> role list \<Rightarrow> bool" where
  "HasAny hdr required = any_granted (Roles hdr) required"

text \<open>The middleware: \<open>None\<close> is the 403 answer, \<open>Some\<close> the wrapped handler's.\<close>

definition Require :: "role list \<Rightarrow> string \<Rightarrow> 'r \<Rightarrow> 'r option" where
  "Require required hdr next_handler = (if HasAny hdr required then Some next_handler else None)"

section \<open>Lemmas\<close>

lemma any_granted_iff:
  "any_granted g ws \<longleftrightarrow> (\<exists>w \<in> set ws. w \<in> g \<or> w = RoleReader \<and> RoleAdmin \<in> g)"
  by (induction ws) (auto simp: Has_def)

lemma HasAny_one:
  "HasAny hdr [RoleAdmin] \<longleftrightarrow> RoleAdmin \<in> Roles hdr"
  "HasAny hdr [RoleReader] \<longleftrightarrow> RoleReader \<in> Roles hdr \<or> RoleAdmin \<in> Roles hdr"
  by (auto simp: HasAny_def Has_def RoleAdmin_def RoleReader_def)

section \<open>Properties\<close>

text \<open>
  Access control decides by the listed roles alone: a request passes exactly when one of
  the required roles is listed in the header, or reader is required and admin is listed. In
  particular admin implies reader, and a request without roles passes nothing.
\<close>

theorem HasAny_decides:
  "(HasAny hdr required \<longleftrightarrow>
     set required \<inter> Roles hdr \<noteq> {} \<or> RoleReader \<in> set required \<and> RoleAdmin \<in> Roles hdr) \<and>
   HasAny hdr [RoleReader] = (RoleReader \<in> Roles hdr \<or> HasAny hdr [RoleAdmin]) \<and>
   \<not> HasAny '''' required"
proof -
  have "TrimSpace '''' = ''''" by (simp add: TrimSpace_def trim_left.simps trim_right.simps)
  then have "Roles '''' = {}" by (simp add: Roles_def)
  then have "\<not> HasAny '''' required" by (simp add: HasAny_def any_granted_iff)
  then show ?thesis
    unfolding HasAny_one by (auto simp: HasAny_def any_granted_iff)
qed

end
