(* ===== verification/Config.thy ===== *)
theory Config
  imports GoText GoTime
begin

text \<open>
  internal/config/config.go: the configuration read from the environment. \<open>env\<close> is
  \<^verbatim>\<open>os.Getenv\<close>, the empty text for an unset variable; \<open>uni\<close> is \<^verbatim>\<open>strings.ToLower\<close> outside
  ASCII. The fraction of a duration goes through float64 in \<^verbatim>\<open>time.ParseDuration\<close>; the
  nanoseconds it contributes are the argument \<open>fr\<close> (of its digits and the unit).
\<close>

section \<open>Numbers and durations\<close>

definition is_dec :: "char \<Rightarrow> bool" where
  "is_dec c \<longleftrightarrow> digit_val c \<noteq> None"

text \<open>\<^verbatim>\<open>strconv.Atoi\<close>: an optional sign and decimal digits, within 64 bits.\<close>

definition Atoi :: "string \<Rightarrow> int option" where
  "Atoi s =
     (let sg = takeWhile (\<lambda>c. c = CHR ''+'' \<or> c = CHR ''-'') (take 1 s); ds = drop (length sg) s;
          n = (if sg = ''-'' then - digits_val ds else digits_val ds)
      in if ds = [] \<or> \<not> list_all is_dec ds then None
         else if n < - 9223372036854775808 \<or> n > 9223372036854775807 then None
         else Some n)"

definition duration_unit :: "string \<Rightarrow> int option" where
  "duration_unit u =
     (if u = ''ns'' then Some 1
      else if u = ''us'' \<or> u = [CHR 0xC2, CHR 0xB5, CHR ''s''] \<or> u = [CHR 0xCE, CHR 0xBC, CHR ''s''] then Some 1000
      else if u = ''ms'' then Some 1000000
      else if u = ''s'' then Some 1000000000
      else if u = ''m'' then Some 60000000000
      else if u = ''h'' then Some 3600000000000
      else None)"

text \<open>
  The loop of \<^verbatim>\<open>time.ParseDuration\<close> over the number-unit groups; \<open>d\<close> is the sum so far. Every
  group is not empty, so the length decreases.
\<close>

function duration_groups :: "(string \<Rightarrow> int \<Rightarrow> int) \<Rightarrow> int \<Rightarrow> string \<Rightarrow> int option" where
  "duration_groups fr d s =
     (if s = [] then Some d
      else
        let ds = takeWhile is_dec s; r = dropWhile is_dec s;
            dot = (r \<noteq> [] \<and> hd r = CHR ''.'');
            r = (if dot then tl r else r);
            fs = (if dot then takeWhile is_dec r else []);
            r = drop (length fs) r;
            u = takeWhile (\<lambda>c. c \<noteq> CHR ''.'' \<and> \<not> is_dec c) r;
            r = drop (length u) r
        in if ds = [] \<and> fs = [] then None
           else if digits_val ds > 9223372036854775808 then None
           else case duration_unit u of None \<Rightarrow> None
           | Some unit \<Rightarrow>
               if digits_val ds > 9223372036854775808 div unit then None
               else
                 let v = digits_val ds * unit + (if digits_val fs > 0 then fr fs unit else 0);
                     d = (d + v) mod 18446744073709551616 in
                 if v > 9223372036854775808 \<or> d > 9223372036854775808 then None
                 else if length r < length s then duration_groups fr d r else None)"
  by pat_completeness auto
termination
  by (relation "measure (\<lambda>(fr, d, s). length s)") auto

declare duration_groups.simps [simp del]

definition ParseDuration :: "(string \<Rightarrow> int \<Rightarrow> int) \<Rightarrow> string \<Rightarrow> duration option" where
  "ParseDuration fr s =
     (let sg = takeWhile (\<lambda>c. c = CHR ''+'' \<or> c = CHR ''-'') (take 1 s); r = drop (length sg) s in
      if r = ''0'' then Some 0
      else if r = [] then None
      else case duration_groups fr 0 r of None \<Rightarrow> None
      | Some d \<Rightarrow> if sg = ''-'' then Some (- d) else if d > 9223372036854775807 then None else Some d)"

section \<open>The configuration\<close>

record config =
  cfg_Port :: string
  cfg_KafkaBrokers :: "string list"
  cfg_KafkaTopic :: string
  cfg_KafkaConsumerGroup :: string
  cfg_DBURL :: string
  cfg_PayloadBucket :: string
  cfg_PayloadStorageClass :: string
  cfg_GlacierTransitionDays :: int
  cfg_DeepArchiveTransitionDays :: int
  cfg_RetentionDays :: int
  cfg_ChainAnchorInterval :: duration
  cfg_KMSKeyID :: string
  cfg_ExternalNotaryURL :: string
  cfg_RedactionPolicyPath :: string
  cfg_LogLevel :: string
  cfg_LegalHoldDefault :: bool

type_synonym environ = "string \<Rightarrow> string"

definition envOr :: "environ \<Rightarrow> string \<Rightarrow> string \<Rightarrow> string" where
  "envOr env k def = (let v = env k in if v \<noteq> '''' then v else def)"

definition envInt :: "environ \<Rightarrow> string \<Rightarrow> int \<Rightarrow> int" where
  "envInt env k def =
     (let v = env k in
      if v \<noteq> '''' then (case Atoi v of Some n \<Rightarrow> n | None \<Rightarrow> def) else def)"

definition envDur :: "(string \<Rightarrow> int \<Rightarrow> int) \<Rightarrow> environ \<Rightarrow> string \<Rightarrow> duration \<Rightarrow> duration" where
  "envDur fr env k def =
     (let v = env k in
      if v \<noteq> '''' then
        (case ParseDuration fr v of
           Some d \<Rightarrow> d
         | None \<Rightarrow> (case Atoi v of Some n \<Rightarrow> wrap64 (n * 60000000000) | None \<Rightarrow> def))
      else def)"

definition envBool :: "(string \<Rightarrow> string) \<Rightarrow> environ \<Rightarrow> string \<Rightarrow> bool \<Rightarrow> bool" where
  "envBool uni env k def =
     (let v = env k in
      if v \<noteq> '''' then
        (let l = ToLower uni v in
         if l = ''1'' \<or> l = ''true'' \<or> l = ''yes'' \<or> l = ''on'' then True
         else if l = ''0'' \<or> l = ''false'' \<or> l = ''no'' \<or> l = ''off'' then False
         else def)
      else def)"

definition splitCSV :: "string \<Rightarrow> string list" where
  "splitCSV s =
     (if s = '''' then []
      else filter (\<lambda>p. p \<noteq> '''') (map TrimSpace (split_at_char (CHR '','') s)))"

definition Load :: "(string \<Rightarrow> int \<Rightarrow> int) \<Rightarrow> (string \<Rightarrow> string) \<Rightarrow> environ \<Rightarrow> config" where
  "Load fr uni env = \<lparr>
     cfg_Port = envOr env ''PORT'' ''8080'',
     cfg_KafkaBrokers = splitCSV (env ''KAFKA_BROKERS''),
     cfg_KafkaTopic = envOr env ''KAFKA_TOPIC'' ''audit.v1'',
     cfg_KafkaConsumerGroup = envOr env ''KAFKA_CONSUMER_GROUP'' ''audit-event-log'',
     cfg_DBURL = env ''DB_URL'',
     cfg_PayloadBucket = env ''PAYLOAD_BUCKET'',
     cfg_PayloadStorageClass = envOr env ''PAYLOAD_STORAGE_CLASS'' ''STANDARD'',
     cfg_GlacierTransitionDays = envInt env ''GLACIER_TRANSITION_DAYS'' 90,
     cfg_DeepArchiveTransitionDays = envInt env ''DEEP_ARCHIVE_TRANSITION_DAYS'' 365,
     cfg_RetentionDays = envInt env ''RETENTION_DAYS'' 2555,
     cfg_ChainAnchorInterval = envDur fr env ''CHAIN_ANCHOR_INTERVAL_MINUTES'' (60 * 60000000000),
     cfg_KMSKeyID = env ''KMS_KEY_ID'',
     cfg_ExternalNotaryURL = env ''EXTERNAL_NOTARY_URL'',
     cfg_RedactionPolicyPath = envOr env ''REDACTION_POLICY_PATH'' ''/etc/audit/redaction.yaml'',
     cfg_LogLevel = envOr env ''LOG_LEVEL'' ''info'',
     cfg_LegalHoldDefault = envBool uni env ''LEGAL_HOLD_DEFAULT'' False\<rparr>"

section \<open>Decimal round trip\<close>

lemma is_dec_hex_digit: "n < 10 \<Longrightarrow> is_dec (hex_digit n)"
  by (simp add: is_dec_def digit_val_hex_digit)

lemma digits_val_one: "digits_val [c] = (case digit_val c of Some d \<Rightarrow> d | None \<Rightarrow> 0)"
  by (simp add: digits_val_def)

lemma dec_digits_val: "digits_val (dec_digits n) = int n" "list_all is_dec (dec_digits n)" "dec_digits n \<noteq> []"
proof (induction n rule: dec_digits.induct)
  case (1 n)
  { case 1 then show ?case using "1.IH"(1)
      by (subst dec_digits.simps) (auto simp: digits_val_snoc digit_val_hex_digit digits_val_one zdiv_int zmod_int) }
  { case 2 then show ?case using "1.IH"(2)
      by (subst dec_digits.simps) (auto simp: is_dec_hex_digit) }
  { case 3 show ?case by (subst dec_digits.simps) simp }
qed

lemma dec_digits_head: "is_dec (hd (dec_digits n))"
  using dec_digits_val(2,3) [of n] by (cases "dec_digits n") auto

lemma Atoi_itoa:
  assumes "- 9223372036854775808 \<le> i" and "i \<le> 9223372036854775807"
  shows "Atoi (itoa i) = Some i"
proof (cases "i < 0")
  case True
  then show ?thesis using assms dec_digits_val [of "nat (- i)"] by (simp add: Atoi_def itoa_def)
next
  case False
  obtain c r where d: "dec_digits (nat i) = c # r" using dec_digits_val(3) by (cases "dec_digits (nat i)") auto
  then have "is_dec c" using dec_digits_head [of "nat i"] by simp
  then have "c \<noteq> CHR ''+''" "c \<noteq> CHR ''-''" by (auto simp: is_dec_def digit_val_def split: if_splits)
  then show ?thesis using False assms dec_digits_val [of "nat i"] by (simp add: Atoi_def itoa_def d)
qed

lemma takeWhile_all: "list_all P s \<Longrightarrow> takeWhile P s = s" "list_all P s \<Longrightarrow> dropWhile P s = []"
  by (simp_all add: list_all_iff)

lemma ParseDuration_plain_number:
  assumes "list_all is_dec s" and "s \<noteq> []" and "s \<noteq> ''0''"
  shows "ParseDuration fr s = None"
proof -
  obtain c r where s: "s = c # r" using assms(2) by (cases s) auto
  then have "c \<noteq> CHR ''+''" "c \<noteq> CHR ''-''" using assms(1) by (auto simp: is_dec_def digit_val_def split: if_splits)
  then have "ParseDuration fr s = (case duration_groups fr 0 s of None \<Rightarrow> None
      | Some d \<Rightarrow> if d > 9223372036854775807 then None else Some d)"
    using assms(3) by (auto simp: ParseDuration_def s Let_def split: option.split)
  moreover have "duration_groups fr 0 s = None"
    using assms(1,2) by (subst duration_groups.simps) (simp add: takeWhile_all duration_unit_def Let_def)
  ultimately show ?thesis by simp
qed

section \<open>Properties\<close>

text \<open>
  A plain number in a duration variable is minutes. A decimal number other than 0 has no
  unit, so \<^verbatim>\<open>time.ParseDuration\<close> refuses it and it is read as that many minutes; up to
  153722867 minutes (292 years) the product does not overflow.
\<close>

theorem envDur_plain_minutes:
  assumes "env k = itoa n" and "0 < n" and "n \<le> 153722867"
  shows "envDur fr env k d = n * 60000000000"
proof -
  have v: "itoa n = dec_digits (nat n)" using assms(2) by (simp add: itoa_def)
  have "itoa n \<noteq> ''0''" using Atoi_itoa [of n] assms(2,3) by (auto simp: Atoi_def digits_val_def is_dec_def digit_val_def)
  then have "ParseDuration fr (itoa n) = None"
    using ParseDuration_plain_number dec_digits_val(2,3) by (simp add: v)
  moreover have "Atoi (itoa n) = Some n" using assms(2,3) by (intro Atoi_itoa) auto
  moreover have "itoa n \<noteq> ''''" using dec_digits_val(3) by (simp add: v)
  moreover have "wrap64 (n * 60000000000) = n * 60000000000" using assms(2,3) by (intro wrap64_small) auto
  ultimately show ?thesis using assms(1) by (simp add: envDur_def)
qed

theorem envDur_plain_minutes_witness:
  "envDur (\<lambda>_ _. 0) (\<lambda>_. itoa 15) ''CHAIN_ANCHOR_INTERVAL_MINUTES'' 1 = 900000000000"
  using envDur_plain_minutes [of "\<lambda>_. itoa 15" "''CHAIN_ANCHOR_INTERVAL_MINUTES''" 15 "\<lambda>_ _. 0" 1] by simp

end
