(* ===== verification/Api.thy ===== *)
theory Api
  imports Chain S3_Fake Auth Config Metrics
begin

text \<open>
  internal/api/api.go: the REST handlers and their routing. A handler takes a request and the
  world to a response and the next world. A request's path is the list of its decoded
  segments, its query is \<^verbatim>\<open>r.URL.Query().Get\<close>. What is not under src/ is an argument: the
  UUID parser (\<open>ad_UUID\<close>), the page of the Prometheus handler (\<open>ad_MetricsPage\<close>) and
  \<^verbatim>\<open>strings.ToUpper\<close> outside ASCII (\<open>ad_Upper\<close>).
\<close>

section \<open>Requests, responses, dependencies\<close>

record request =
  rq_Method :: string
  rq_Path :: "string list"
  rq_Query :: "string \<Rightarrow> string"
  rq_Roles :: string
  rq_Body :: string

record response =
  hr_Code :: int
  hr_ContentType :: string
  hr_Body :: string

record ('s, 'j, 'p, 'r) api_deps =
  ad_Events :: "'s event_store"
  ad_Exports :: "'j export_job_store"
  ad_PresignGet :: "(string \<Rightarrow> string \<Rightarrow> duration \<Rightarrow> 'p \<Rightarrow> string result) option"
  ad_PayloadBucket :: string
  ad_LegalHold :: "(string \<Rightarrow> bool \<Rightarrow> 's \<Rightarrow> go_error option \<times> 's) option"
  ad_Verifier :: "(time \<Rightarrow> time \<Rightarrow> 's \<Rightarrow> report result option) option"
  ad_RedactorReload :: "('r \<Rightarrow> go_error option \<times> 'r) option"
  ad_UUID :: "string \<Rightarrow> bool"
  ad_Upper :: "string \<Rightarrow> string"
  ad_MetricsPage :: "metrics \<Rightarrow> string"

record ('s, 'j, 'p, 'r) api_world =
  aw_Events :: 's
  aw_Exports :: 'j
  aw_Payloads :: 'p
  aw_Redactor :: 'r
  aw_Metrics :: metrics

section \<open>Helpers\<close>

definition go_map :: "(string \<times> json) list \<Rightarrow> json" where
  "go_map kvs = JObj (fold (\<lambda>(k, v) m. map_put k v m) kvs [])"

definition writeJSON :: "int \<Rightarrow> json \<Rightarrow> response" where
  "writeJSON status v = \<lparr>hr_Code = status, hr_ContentType = ''application/json'', hr_Body = Marshal v @ [newline]\<rparr>"

definition writeError :: "int \<Rightarrow> string \<Rightarrow> response" where
  "writeError status msg = writeJSON status (go_map [(''error'', JStr msg)])"

definition http_Error :: "int \<Rightarrow> string \<Rightarrow> response" where
  "http_Error status msg =
     \<lparr>hr_Code = status, hr_ContentType = ''text/plain; charset=utf-8'', hr_Body = msg @ [newline]\<rparr>"

definition parseIntDefault :: "string \<Rightarrow> int \<Rightarrow> int \<Rightarrow> int \<Rightarrow> int" where
  "parseIntDefault s def lo hi =
     (if s = '''' then def
      else case Atoi s of None \<Rightarrow> def
      | Some n \<Rightarrow> if n < lo then lo else if n > hi then hi else n)"

definition toEventJSON :: "event \<Rightarrow> (string \<times> json) list" where
  "toEventJSON e =
     [(''id'', JStr (ID e)), (''ts'', JStr (format_RFC3339Nano (TS e))),
      (''source_service'', JStr (SourceService e)), (''actor_id'', JStr (ActorID e)),
      (''action'', JStr (Action e)), (''target_type'', JStr (TargetType e)),
      (''target_id'', JStr (TargetID e)), (''anchored'', JBool (Anchored e)),
      (''legal_hold'', JBool (LegalHold e)), (''redacted'', JBool (Redacted e)),
      (''payload_ref'', JStr (PayloadRef e)),
      (''payload_hash'', JStr (''sha256:'' @ hex_EncodeToString (PayloadHash e))),
      (''prev_hash'', JStr (HashHex (PrevHash e))), (''this_hash'', JStr (HashHex (ThisHash e)))]"

definition toEventJSONs :: "event list \<Rightarrow> json" where
  "toEventJSONs events = JArr (map (\<lambda>e. go_map (toEventJSON e)) events)"

definition validID :: "('s, 'j, 'p, 'r) api_deps \<Rightarrow> string \<Rightarrow> bool" where
  "validID d s = ad_UUID d s"

definition observe :: "metric \<Rightarrow> ('s, 'j, 'p, 'r) api_world \<Rightarrow> ('s, 'j, 'p, 'r) api_world" where
  "observe m w = w\<lparr>aw_Metrics := Inc m (aw_Metrics w)\<rparr>"

definition healthz :: response where
  "healthz = writeJSON 200 (go_map [(''status'', JStr ''ok'')])"

section \<open>GET /v1/events\<close>

text \<open>A time parameter: absent, an error, or a time.\<close>

definition time_param :: "string \<Rightarrow> request \<Rightarrow> time option result" where
  "time_param k r =
     (let v = rq_Query r k in
      if v \<noteq> '''' then (case parse_RFC3339Nano v of Inl err \<Rightarrow> Inl err | Inr ts \<Rightarrow> Inr (Some ts)) else Inr None)"

definition list_filter :: "request \<Rightarrow> event_filter" where
  "list_filter r = zero_filter\<lparr>f_Service := rq_Query r ''service'', f_Actor := rq_Query r ''actor'',
     f_Action := rq_Query r ''action'', f_TargetType := rq_Query r ''target_type'',
     f_TargetID := rq_Query r ''target_id'',
     f_Limit := parseIntDefault (rq_Query r ''limit'') 100 1 1000\<rparr>"

definition handleListEvents ::
  "err_texts \<Rightarrow> ('s, 'j, 'p, 'r) api_deps \<Rightarrow> request \<Rightarrow> ('s, 'j, 'p, 'r) api_world \<Rightarrow>
   response \<times> ('s, 'j, 'p, 'r) api_world" where
  "handleListEvents q d r w =
     ((let f = list_filter r in
       case time_param ''from'' r of
         Inl err \<Rightarrow> writeError 400 (''invalid from: '' @ err_text q err)
       | Inr from_ts \<Rightarrow>
          let f = (case from_ts of Some ts \<Rightarrow> f\<lparr>f_From := ts\<rparr> | None \<Rightarrow> f) in
          (case time_param ''to'' r of
             Inl err \<Rightarrow> writeError 400 (''invalid to: '' @ err_text q err)
           | Inr to_ts \<Rightarrow>
              let f = (case to_ts of Some ts \<Rightarrow> f\<lparr>f_To := ts\<rparr> | None \<Rightarrow> f) in
              (case ParseCursor (rq_Query r ''cursor'') of
                 Inl err \<Rightarrow> writeError 400 (''invalid cursor: '' @ err_text q err)
               | Inr c \<Rightarrow>
                  let f = (if rq_Query r ''cursor'' \<noteq> '''' then f\<lparr>f_Cursor := c\<rparr> else f) in
                  (case es_List (ad_Events d) f (aw_Events w) of
                     Inl err \<Rightarrow> writeError 500 (''list: '' @ err_text q err)
                   | Inr res \<Rightarrow> writeJSON 200 (go_map
                       [(''events'', toEventJSONs (lr_Events res)),
                        (''next_cursor'', JStr (if IsZero (c_TS (lr_NextCursor res)) then ''''
                           else Cursor_String (lr_NextCursor res)))]))))),
      observe (QueryLatency ''list'') w)"

section \<open>GET /v1/events/{id}\<close>

text \<open>
  The lookup that three handlers begin with: the id is checked, then fetched. The result is
  the error response, or the row.
\<close>

definition fetch :: "err_texts \<Rightarrow> ('s, 'j, 'p, 'r) api_deps \<Rightarrow> string \<Rightarrow> (string \<Rightarrow> 'x result) \<Rightarrow> response + 'x" where
  "fetch q d i get =
     (if i = '''' then Inl (writeError 400 ''missing id'')
      else if \<not> validID d i then Inl (writeError 404 ''not found'')
      else case get i of
        Inl err \<Rightarrow> if IsNotFound err then Inl (writeError 404 ''not found'')
                    else Inl (writeError 500 (''get: '' @ err_text q err))
      | Inr x \<Rightarrow> Inr x)"

definition presign_ttl :: duration where
  "presign_ttl = 15 * 60000000000"

definition handleGetEvent ::
  "err_texts \<Rightarrow> ('s, 'j, 'p, 'r) api_deps \<Rightarrow> string \<Rightarrow> ('s, 'j, 'p, 'r) api_world \<Rightarrow>
   response \<times> ('s, 'j, 'p, 'r) api_world" where
  "handleGetEvent q d i w =
     ((case fetch q d i (\<lambda>i. es_Get (ad_Events d) i (aw_Events w)) of
         Inl resp \<Rightarrow> resp
       | Inr e \<Rightarrow>
          let payloadURL = (case ad_PresignGet d of
                Some presign \<Rightarrow>
                  if ad_PayloadBucket d \<noteq> '''' \<and> PayloadRef e \<noteq> '''' then
                    (case presign (ad_PayloadBucket d) (PayloadRef e) presign_ttl (aw_Payloads w) of
                       Inl _ \<Rightarrow> '''' | Inr u \<Rightarrow> u)
                  else ''''
              | None \<Rightarrow> '''')
          in writeJSON 200 (go_map (toEventJSON e @ [(''payload_url'', JStr payloadURL)]))),
      observe (QueryLatency ''get'') w)"

section \<open>GET /v1/events/{id}/verify-chain\<close>

text \<open>The downward loop over the listed rows for the predecessor; a nil hash is \<open>None\<close>.\<close>

fun find_prev :: "string \<Rightarrow> event \<Rightarrow> event list \<Rightarrow> bytes option" where
  "find_prev i e [] = None"
| "find_prev i e (cand # cands) =
     (if ID cand = i then find_prev i e cands
      else if TS cand < TS e \<or> TS cand = TS e \<and> ID cand < ID e then
        (if ThisHash cand = [] then None else Some (ThisHash cand))
      else find_prev i e cands)"

definition handleVerifyEvent ::
  "err_texts \<Rightarrow> ('s, 'j, 'p, 'r) api_deps \<Rightarrow> string \<Rightarrow> ('s, 'j, 'p, 'r) api_world \<Rightarrow>
   response \<times> ('s, 'j, 'p, 'r) api_world" where
  "handleVerifyEvent q d i w =
     (case fetch q d i (\<lambda>i. es_Get (ad_Events d) i (aw_Events w)) of
        Inl resp \<Rightarrow> (resp, w)
      | Inr e \<Rightarrow>
         (case es_List (ad_Events d) (zero_filter\<lparr>f_To := TS e, f_Limit := 1000\<rparr>) (aw_Events w) of
            Inl err \<Rightarrow> (writeError 500 (''list: '' @ err_text q err), w)
          | Inr res \<Rightarrow>
             let prev = (case find_prev i e (rev (lr_Events res)) of Some h \<Rightarrow> h | None \<Rightarrow> ZeroHash);
                 v = VerifyEvent e (Some prev)
             in (writeJSON 200 (go_map (
                   [(''id'', JStr (ID e)), (''prev_hash'', JStr (HashHex prev)),
                    (''this_hash'', JStr (HashHex (vr_ThisHash v))), (''computed'', JStr (HashHex (vr_Computed v))),
                    (''status'', JStr (status_text (vr_Status v)))] @
                   (if vr_Reason v \<noteq> '''' then [(''reason'', JStr (vr_Reason v))] else []))),
                 observe (ChainVerifyOutcomes (status_text (vr_Status v))) w)))"

section \<open>Exports\<close>

record create_export_req =
  cr_Query :: string
  cr_Format :: string
  cr_RetentionDays :: int

definition set_export_req :: "string \<times> json \<times> string \<Rightarrow> create_export_req \<Rightarrow> create_export_req option" where
  "set_export_req m req =
     (case m of (key, v, raw) \<Rightarrow>
       (case match_field [''query'', ''format'', ''retention_days''] key of
          None \<Rightarrow> Some req
        | Some tag \<Rightarrow>
            if tag = ''query'' then Some (req\<lparr>cr_Query := raw\<rparr>)
            else if tag = ''format'' then
              (case v of JStr s \<Rightarrow> Some (req\<lparr>cr_Format := s\<rparr>) | JNull \<Rightarrow> Some req | _ \<Rightarrow> None)
            else
              (case v of JNum n \<Rightarrow> map_option (\<lambda>i. req\<lparr>cr_RetentionDays := i\<rparr>) (Atoi n)
               | JNull \<Rightarrow> Some req | _ \<Rightarrow> None)))"

definition decode_export_req :: "string \<Rightarrow> create_export_req option" where
  "decode_export_req body =
     (case json_first body of
        Members ms \<Rightarrow> set_fields set_export_req ms \<lparr>cr_Query = '''', cr_Format = '''', cr_RetentionDays = 0\<rparr>
      | _ \<Rightarrow> None)"

definition handleCreateExport ::
  "err_texts \<Rightarrow> ('s, 'j, 'p, 'r) api_deps \<Rightarrow> op_env \<Rightarrow> request \<Rightarrow> ('s, 'j, 'p, 'r) api_world \<Rightarrow>
   response \<times> ('s, 'j, 'p, 'r) api_world" where
  "handleCreateExport q d env r w =
     (case decode_export_req (rq_Body r) of
        None \<Rightarrow> (writeError 400 ''malformed json'', w)
      | Some req \<Rightarrow>
         let fmt = ToUpper (ad_Upper d) (cr_Format req);
             fmt = (if fmt \<noteq> ''JSON'' \<and> fmt \<noteq> ''CSV'' then ''JSON'' else fmt);
             days = (if cr_RetentionDays req \<le> 0 then 2555 else cr_RetentionDays req);
             query = (if length (cr_Query req) = 0 then ''{}'' else cr_Query req);
             i = oe_UUID env;
             job = \<lparr>ej_ID = i, ej_Query = bytes_of_string query, ej_Format = fmt, ej_RetentionDays = days,
               ej_Status = ''PENDING'', ej_RowCount = 0, ej_PayloadRef = '''', ej_ChainRoot = [],
               ej_AnchorID = '''', ej_CreatedAt = 0, ej_CompletedAt = 0\<rparr>
         in (case js_CreateJob (ad_Exports d) env job (aw_Exports w) of
               (Some err, j') \<Rightarrow> (writeError 500 (''create: '' @ err_text q err), w\<lparr>aw_Exports := j'\<rparr>)
             | (None, j') \<Rightarrow> (writeJSON 202 (go_map [(''id'', JStr i), (''status'', JStr ''PENDING'')]),
                              observe (ExportsCreated fmt) (w\<lparr>aw_Exports := j'\<rparr>))))"

definition handleGetExport ::
  "err_texts \<Rightarrow> ('s, 'j, 'p, 'r) api_deps \<Rightarrow> string \<Rightarrow> ('s, 'j, 'p, 'r) api_world \<Rightarrow>
   response \<times> ('s, 'j, 'p, 'r) api_world" where
  "handleGetExport q d i w =
     ((case fetch q d i (\<lambda>i. js_GetJob (ad_Exports d) i (aw_Exports w)) of
         Inl resp \<Rightarrow> resp
       | Inr j \<Rightarrow>
          writeJSON 200 (go_map (
            [(''id'', JStr (ej_ID j)), (''status'', JStr (ej_Status j)), (''format'', JStr (ej_Format j)),
             (''retention_days'', JNum (itoa (ej_RetentionDays j))), (''row_count'', JNum (itoa (ej_RowCount j)))] @
            (if ej_PayloadRef j \<noteq> '''' then
               [(''payload_ref'', JStr (ej_PayloadRef j))] @
               (case ad_PresignGet d of
                  Some presign \<Rightarrow>
                    if ad_PayloadBucket d \<noteq> '''' then
                      (case presign (ad_PayloadBucket d) (ej_PayloadRef j) presign_ttl (aw_Payloads w) of
                         Inl _ \<Rightarrow> [] | Inr u \<Rightarrow> [(''download_url'', JStr u)])
                    else []
                | None \<Rightarrow> [])
             else []) @
            (if length (ej_ChainRoot j) = 32 then [(''chain_root'', JStr (HashHex (ej_ChainRoot j)))] else []) @
            (if ej_AnchorID j \<noteq> '''' then [(''anchor_id'', JStr (ej_AnchorID j))] else []) @
            (if \<not> IsZero (ej_CompletedAt j) then [(''completed_at'', JStr (format_RFC3339Nano (ej_CompletedAt j)))] else [])))),
      w)"

section \<open>Administration\<close>

definition report_json :: "report \<Rightarrow> json result" where
  "report_json r =
     (case (time_json (rp_From r), time_json (rp_To r), time_json (rp_SignedAt r)) of
        (Inr fr, Inr t, Inr sg) \<Rightarrow> Inr (JObj (
          [(''from'', fr), (''to'', t), (''event_count'', JNum (itoa (rp_EventCount r))),
           (''status'', JStr (status_text (rp_Status r)))] @
          (if rp_FirstBroken r = '''' then [] else [(''first_broken_id'', JStr (rp_FirstBroken r))]) @
          (if rp_Position r = 0 then [] else [(''position'', JNum (itoa (rp_Position r)))]) @
          (if rp_Reason r = '''' then [] else [(''reason'', JStr (rp_Reason r))]) @
          (if rp_RootHash r = '''' then [] else [(''root_hash'', JStr (rp_RootHash r))]) @
          [(''anchor_count'', JNum (itoa (rp_AnchorCount r))),
           (''anchors_checked'', JNum (itoa (rp_CheckedAnchors r))),
           (''anchor_mismatches'', JNum (itoa (rp_AnchorMismatches r)))] @
          (if rp_Signature r = '''' then [] else [(''signature'', JStr (rp_Signature r))]) @
          [(''signed_at'', sg)] @
          (if rp_KeyID r = '''' then [] else [(''key_id'', JStr (rp_KeyID r))])))
      | (Inl err, _, _) \<Rightarrow> Inl err | (_, Inl err, _) \<Rightarrow> Inl err | (_, _, Inl err) \<Rightarrow> Inl err)"

text \<open>A missing or malformed time is the zero time here. \<open>None\<close>: the sweep does not end.\<close>

definition time_or_zero :: "string \<Rightarrow> time" where
  "time_or_zero v = (case parse_time_opt v of Some t \<Rightarrow> t | None \<Rightarrow> 0)"

definition handleAdminVerifyChain ::
  "err_texts \<Rightarrow> ('s, 'j, 'p, 'r) api_deps \<Rightarrow> request \<Rightarrow> ('s, 'j, 'p, 'r) api_world \<Rightarrow>
   (response \<times> ('s, 'j, 'p, 'r) api_world) option" where
  "handleAdminVerifyChain q d r w =
     (case ad_Verifier d of
        None \<Rightarrow> Some (writeError 501 ''verifier not configured'', w)
      | Some verify \<Rightarrow>
         (case verify (time_or_zero (rq_Query r ''from'')) (time_or_zero (rq_Query r ''to'')) (aw_Events w) of
            None \<Rightarrow> None
          | Some (Inl err) \<Rightarrow> Some (writeError 500 (''verify: '' @ err_text q err), w)
          | Some (Inr rep) \<Rightarrow>
              Some (case report_json rep of
                      Inr v \<Rightarrow> (writeJSON 200 v, w)
                    | Inl _ \<Rightarrow> (\<lparr>hr_Code = 200, hr_ContentType = ''application/json'', hr_Body = ''''\<rparr>, w))))"

definition set_hold_req :: "string \<times> json \<times> string \<Rightarrow> bool \<Rightarrow> bool option" where
  "set_hold_req m hold =
     (case m of (key, v, raw) \<Rightarrow>
       (case match_field [''hold''] key of
          None \<Rightarrow> Some hold
        | Some _ \<Rightarrow> (case v of JBool b \<Rightarrow> Some b | JNull \<Rightarrow> Some hold | _ \<Rightarrow> None)))"

definition decode_hold_req :: "string \<Rightarrow> bool option" where
  "decode_hold_req body =
     (case json_first body of
        EndOfInput \<Rightarrow> Some False
      | Malformed \<Rightarrow> None
      | Members ms \<Rightarrow> set_fields set_hold_req ms False)"

definition handleLegalHold ::
  "err_texts \<Rightarrow> ('s, 'j, 'p, 'r) api_deps \<Rightarrow> (string \<Rightarrow> bool \<Rightarrow> 's \<Rightarrow> go_error option \<times> 's) \<Rightarrow>
   string \<Rightarrow> request \<Rightarrow> ('s, 'j, 'p, 'r) api_world \<Rightarrow> response \<times> ('s, 'j, 'p, 'r) api_world" where
  "handleLegalHold q d set_hold i r w =
     (if i = '''' then (writeError 400 ''missing id'', w)
      else if \<not> validID d i then (writeError 404 ''not found'', w)
      else case decode_hold_req (rq_Body r) of
        None \<Rightarrow> (writeError 400 ''malformed json'', w)
      | Some hold \<Rightarrow>
         (case set_hold i hold (aw_Events w) of
            (Some err, s') \<Rightarrow>
              (if IsNotFound err then writeError 404 ''not found''
               else writeError 500 (''set legal hold: '' @ err_text q err), w\<lparr>aw_Events := s'\<rparr>)
          | (None, s') \<Rightarrow>
              (writeJSON 200 (go_map [(''id'', JStr i), (''legal_hold'', JBool hold)]), w\<lparr>aw_Events := s'\<rparr>)))"

definition handleRedactionReload ::
  "err_texts \<Rightarrow> ('r \<Rightarrow> go_error option \<times> 'r) \<Rightarrow> ('s, 'j, 'p, 'r) api_world \<Rightarrow>
   response \<times> ('s, 'j, 'p, 'r) api_world" where
  "handleRedactionReload q reload w =
     (case reload (aw_Redactor w) of
        (Some err, r') \<Rightarrow> (writeError 500 (''reload: '' @ err_text q err), w\<lparr>aw_Redactor := r'\<rparr>)
      | (None, r') \<Rightarrow> (writeJSON 200 (go_map [(''status'', JStr ''reloaded'')]), w\<lparr>aw_Redactor := r'\<rparr>))"

section \<open>Routing\<close>

datatype endpoint =
    Healthz | MetricsScrape | ListEvents | GetEvent string | VerifyEventChain string
  | CreateExport | GetExport string | AdminVerifyChain | LegalHoldOf string | RedactionReload

text \<open>
  The patterns of \<^verbatim>\<open>NewRouter\<close>: a path's endpoints by method. A wildcard segment matches a
  segment that is not empty.
\<close>

fun endpoints :: "string list \<Rightarrow> (string \<times> endpoint) list" where
  "endpoints [a] = (if a = ''healthz'' then [(''GET'', Healthz)]
     else if a = ''metrics'' then [(''GET'', MetricsScrape)] else [])"
| "endpoints [a, b] = (if a = ''v1'' \<and> b = ''events'' then [(''GET'', ListEvents)]
     else if a = ''v1'' \<and> b = ''exports'' then [(''POST'', CreateExport)] else [])"
| "endpoints [a, b, c] = (if a = ''v1'' \<and> b = ''events'' \<and> c \<noteq> '''' then [(''GET'', GetEvent c)]
     else if a = ''v1'' \<and> b = ''exports'' \<and> c \<noteq> '''' then [(''GET'', GetExport c)]
     else if a = ''v1'' \<and> b = ''admin'' \<and> c = ''verify-chain'' then [(''POST'', AdminVerifyChain)] else [])"
| "endpoints [a, b, c, d] =
     (if a = ''v1'' \<and> b = ''events'' \<and> c \<noteq> '''' \<and> d = ''verify-chain'' then [(''GET'', VerifyEventChain c)]
      else if a = ''v1'' \<and> b = ''admin'' \<and> c = ''legal-hold'' \<and> d \<noteq> '''' then [(''POST'', LegalHoldOf d)]
      else if a = ''v1'' \<and> b = ''admin'' \<and> c = ''redaction'' \<and> d = ''reload'' then [(''POST'', RedactionReload)]
      else [])"
| "endpoints _ = []"

fun required_role :: "endpoint \<Rightarrow> role option" where
  "required_role Healthz = None"
| "required_role MetricsScrape = None"
| "required_role ListEvents = Some RoleReader"
| "required_role (GetEvent _) = Some RoleReader"
| "required_role (VerifyEventChain _) = Some RoleReader"
| "required_role (GetExport _) = Some RoleReader"
| "required_role CreateExport = Some RoleAdmin"
| "required_role AdminVerifyChain = Some RoleAdmin"
| "required_role (LegalHoldOf _) = Some RoleAdmin"
| "required_role RedactionReload = Some RoleAdmin"

fun handle_endpoint ::
  "err_texts \<Rightarrow> ('s, 'j, 'p, 'r) api_deps \<Rightarrow> op_env \<Rightarrow> endpoint \<Rightarrow> request \<Rightarrow> ('s, 'j, 'p, 'r) api_world \<Rightarrow>
   (response \<times> ('s, 'j, 'p, 'r) api_world) option" where
  "handle_endpoint q d env Healthz r w = Some (healthz, w)"
| "handle_endpoint q d env MetricsScrape r w =
     Some (\<lparr>hr_Code = 200, hr_ContentType = ''text/plain'', hr_Body = ad_MetricsPage d (aw_Metrics w)\<rparr>, w)"
| "handle_endpoint q d env ListEvents r w = Some (handleListEvents q d r w)"
| "handle_endpoint q d env (GetEvent i) r w = Some (handleGetEvent q d i w)"
| "handle_endpoint q d env (VerifyEventChain i) r w = Some (handleVerifyEvent q d i w)"
| "handle_endpoint q d env CreateExport r w = Some (handleCreateExport q d env r w)"
| "handle_endpoint q d env (GetExport i) r w = Some (handleGetExport q d i w)"
| "handle_endpoint q d env AdminVerifyChain r w = handleAdminVerifyChain q d r w"
| "handle_endpoint q d env (LegalHoldOf i) r w =
     Some (case ad_LegalHold d of
        None \<Rightarrow> (writeError 501 ''legal hold not configured'', w)
      | Some set_hold \<Rightarrow> handleLegalHold q d set_hold i r w)"
| "handle_endpoint q d env RedactionReload r w =
     Some (case ad_RedactorReload d of
        None \<Rightarrow> (writeError 501 ''redaction reload not configured'', w)
      | Some reload \<Rightarrow> handleRedactionReload q reload w)"

text \<open>The router: 404, 405, the access check, the handler. A HEAD request matches GET.\<close>

definition serve ::
  "err_texts \<Rightarrow> ('s, 'j, 'p, 'r) api_deps \<Rightarrow> op_env \<Rightarrow> request \<Rightarrow> ('s, 'j, 'p, 'r) api_world \<Rightarrow>
   (response \<times> ('s, 'j, 'p, 'r) api_world) option" where
  "serve q d env r w =
     (let eps = endpoints (rq_Path r) in
      if eps = [] then Some (http_Error 404 ''404 page not found'', w)
      else case map_of eps (if rq_Method r = ''HEAD'' then ''GET'' else rq_Method r) of
        None \<Rightarrow> Some (http_Error 405 ''Method Not Allowed'', w)
      | Some ep \<Rightarrow>
         (case required_role ep of
            None \<Rightarrow> handle_endpoint q d env ep r w
          | Some role \<Rightarrow>
             (case Require [role] (rq_Roles r) () of
                None \<Rightarrow> Some (http_Error 403 ''forbidden'', w)
              | Some _ \<Rightarrow> handle_endpoint q d env ep r w)))"

section \<open>What a handler can change\<close>

lemma observe_sel [simp]:
  "aw_Events (observe m w) = aw_Events w" "aw_Exports (observe m w) = aw_Exports w"
  "aw_Redactor (observe m w) = aw_Redactor w" "aw_Payloads (observe m w) = aw_Payloads w"
  by (simp_all add: observe_def)

text \<open>The reading handlers touch the metrics only.\<close>

definition reads_only :: "('s, 'j, 'p, 'r) api_world \<Rightarrow> ('s, 'j, 'p, 'r) api_world \<Rightarrow> bool" where
  "reads_only w w' \<longleftrightarrow> aw_Events w' = aw_Events w \<and> aw_Exports w' = aw_Exports w \<and>
     aw_Redactor w' = aw_Redactor w \<and> aw_Payloads w' = aw_Payloads w"

lemma reads_only_simps [simp]: "reads_only w w" "reads_only w (observe m w)"
  by (simp_all add: reads_only_def)

lemma handleListEvents_frame: "handleListEvents q d r w = (resp, w') \<Longrightarrow> reads_only w w'"
  unfolding handleListEvents_def prod.inject by (auto simp del: observe_sel)

lemma handleGetEvent_frame: "handleGetEvent q d i w = (resp, w') \<Longrightarrow> reads_only w w'"
  unfolding handleGetEvent_def prod.inject by auto

lemma handleVerifyEvent_frame: "handleVerifyEvent q d i w = (resp, w') \<Longrightarrow> reads_only w w'"
  unfolding handleVerifyEvent_def Let_def by (simp split: sum.splits) auto

lemma handleGetExport_frame: "handleGetExport q d i w = (resp, w') \<Longrightarrow> reads_only w w'"
  unfolding handleGetExport_def prod.inject by simp

lemma handleCreateExport_frame:
  "handleCreateExport q d env r w = (resp, w') \<Longrightarrow> aw_Events w' = aw_Events w"
  unfolding handleCreateExport_def Let_def by (auto split: option.splits prod.splits)

lemma handleRedactionReload_frame:
  "handleRedactionReload q reload w = (resp, w') \<Longrightarrow> aw_Events w' = aw_Events w"
  by (auto simp: handleRedactionReload_def split: prod.splits option.splits)

lemma handleAdminVerifyChain_frame: "handleAdminVerifyChain q d r w = Some (resp, w') \<Longrightarrow> w' = w"
  by (auto simp: handleAdminVerifyChain_def split: option.splits sum.splits)

lemma serve_cases:
  assumes "serve q d env r w = Some (resp, w')"
  obtains (refused) "w' = w" "hr_Code resp \<in> {403, 404, 405}"
  | (handled) ep where "handle_endpoint q d env ep r w = Some (resp, w')"
      "required_role ep = None \<or> HasAny (rq_Roles r) [the (required_role ep)]"
      "ep \<in> snd ` set (endpoints (rq_Path r))"
proof -
  consider "endpoints (rq_Path r) = []"
    | "map_of (endpoints (rq_Path r)) (if rq_Method r = ''HEAD'' then ''GET'' else rq_Method r) = None"
    | ep where "map_of (endpoints (rq_Path r)) (if rq_Method r = ''HEAD'' then ''GET'' else rq_Method r) = Some ep"
    by blast
  then show thesis
  proof cases
    case 3
    then have mem: "ep \<in> snd ` set (endpoints (rq_Path r))" by (metis map_of_SomeD snd_conv image_eqI)
    have ne: "endpoints (rq_Path r) \<noteq> []" using mem by auto
    show thesis
    proof (cases "required_role ep")
      case None
      then show thesis using assms 3 ne mem by (intro handled) (auto simp: serve_def)
    next
      case (Some role)
      show thesis
      proof (cases "HasAny (rq_Roles r) [role]")
        case True
        then show thesis using assms 3 ne mem Some by (intro handled) (auto simp: serve_def Require_def)
      next
        case False
        then show thesis using assms 3 ne Some by (intro refused) (auto simp: serve_def Require_def http_Error_def)
      qed
    qed
  qed (use assms in \<open>auto intro!: refused simp: serve_def http_Error_def Let_def split: if_splits\<close>)
qed

lemmas handler_frames = handleListEvents_frame handleGetEvent_frame handleVerifyEvent_frame
  handleGetExport_frame

lemma handle_endpoint_frame:
  assumes "handle_endpoint q d env ep r w = Some (resp, w')"
  shows "reads_only w w' \<or> required_role ep = Some RoleAdmin"
    and "aw_Events w' = aw_Events w \<or> (\<exists>i. ep = LegalHoldOf i)"
    and "required_role ep = None \<Longrightarrow> w' = w"
proof -
  show "reads_only w w' \<or> required_role ep = Some RoleAdmin"
    using assms by (cases ep) (auto dest: handler_frames)
  show "aw_Events w' = aw_Events w \<or> (\<exists>i. ep = LegalHoldOf i)"
    using assms
    by (cases ep) (auto dest: handler_frames handleCreateExport_frame handleRedactionReload_frame
        handleAdminVerifyChain_frame simp: reads_only_def split: option.splits)
  show "w' = w" if "required_role ep = None"
    using assms that by (cases ep) auto
qed

lemma endpoints_public:
  assumes "ep \<in> snd ` set (endpoints p)" and "required_role ep = None"
  shows "p = [''healthz''] \<or> p = [''metrics'']"
proof (cases p rule: endpoints.cases)
  case (1 a)
  with assms show ?thesis by (cases "a = ''healthz''"; cases "a = ''metrics''") auto
next
  case (2 a b)
  with assms show ?thesis unfolding 2 endpoints.simps by (auto simp del: list.inject split: if_split_asm)
next
  case (3 a b c)
  with assms show ?thesis unfolding 3 endpoints.simps by (auto simp del: list.inject split: if_split_asm)
next
  case (4 a b c d)
  with assms show ?thesis unfolding 4 endpoints.simps by (auto simp del: list.inject split: if_split_asm)
qed (use assms in simp_all)

lemma handleLegalHold_frame:
  assumes "handleLegalHold q d set_hold i r w = (resp, w')"
  shows "aw_Events w' = aw_Events w \<or> (\<exists>h. aw_Events w' = snd (set_hold i h (aw_Events w)))"
proof (cases "i = [] \<or> \<not> validID d i \<or> decode_hold_req (rq_Body r) = None")
  case True
  then have "w' = w" using assms by (auto simp: handleLegalHold_def split: if_splits)
  then show ?thesis by simp
next
  case False
  then obtain h where h: "decode_hold_req (rq_Body r) = Some h" by blast
  obtain res s' where s: "set_hold i h (aw_Events w) = (res, s')" by (cases "set_hold i h (aw_Events w)")
  have "aw_Events w' = s'"
    using assms False h s by (auto simp: handleLegalHold_def split: option.splits)
  then have "aw_Events w' = snd (set_hold i h (aw_Events w))" by (simp add: s)
  then show ?thesis by blast
qed

lemma serve_events:
  assumes "serve q d env r w = Some (resp, w')" and "ad_LegalHold d = Some set_hold"
  obtains (kept) "aw_Events w' = aw_Events w"
  | (held) i h where "rq_Path r = [''v1'', ''admin'', ''legal-hold'', i]"
      "aw_Events w' = snd (set_hold i h (aw_Events w))"
  using assms(1)
proof (cases rule: serve_cases)
  case (handled ep)
  show thesis
  proof (cases "\<exists>i. ep = LegalHoldOf i")
    case False
    then show thesis using handle_endpoint_frame(2) [OF handled(1)] kept by blast
  next
    case True
    then obtain i where ep: "ep = LegalHoldOf i" by blast
    have path: "rq_Path r = [''v1'', ''admin'', ''legal-hold'', i]"
      using handled(3) ep by (cases "rq_Path r" rule: endpoints.cases) (auto split: if_splits)
    have "handleLegalHold q d set_hold i r w = (resp, w')"
      using handled(1) ep assms(2) by simp
    from handleLegalHold_frame [OF this] show thesis using kept held path by blast
  qed
qed (use kept in simp)

section \<open>The verification endpoint\<close>

text \<open>
  The hash that the endpoint compares with a row's link: the last of the first 1000 rows that
  are strictly older.
\<close>

definition compared_hash :: "event \<Rightarrow> event list \<Rightarrow> bytes" where
  "compared_hash e rows =
     (let older = take 1000 (filter (\<lambda>x. TS x < TS e) rows) in
      if older = [] \<or> ThisHash (last older) = [] then ZeroHash else ThisHash (last older))"

lemma find_prev_older:
  assumes "\<forall>x \<in> set xs. TS x < TS e" and "i \<notin> ID ` set xs"
  shows "find_prev i e (rev xs) = (if xs = [] \<or> ThisHash (last xs) = [] then None else Some (ThisHash (last xs)))"
proof (cases xs rule: rev_cases)
  case (snoc ys y)
  then have "ID y \<noteq> i" "TS y < TS e" using assms by auto
  then show ?thesis by (simp add: snoc)
qed simp

text \<open>The members of the answer for a row and the hash its link is compared with.\<close>

definition verify_members :: "event \<Rightarrow> bytes \<Rightarrow> (string \<times> json) list" where
  "verify_members e prev =
     (let v = VerifyEvent e (Some prev) in
      [(''id'', JStr (ID e)), (''prev_hash'', JStr (HashHex prev)), (''this_hash'', JStr (HashHex (ThisHash e))),
       (''computed'', JStr (HashHex (EventHash e))), (''status'', JStr (status_text (vr_Status v)))] @
      (if vr_Reason v \<noteq> '''' then [(''reason'', JStr (vr_Reason v))] else []))"

lemma VerifyEvent_hashes: "vr_ThisHash (VerifyEvent e p) = ThisHash e" "vr_Computed (VerifyEvent e p) = EventHash e"
  by (simp_all add: VerifyEvent_def Let_def split: option.split)

lemma handleVerifyEvent_answer:
  assumes "mem_inv (aw_Events w)" and "ad_Events d = mem_event_store"
    and "e \<in> set (mem_rows (aw_Events w))" and "ID e \<noteq> []" and "validID d (ID e)" and "\<not> IsZero (TS e)"
  shows "handleVerifyEvent q d (ID e) w =
    (writeJSON 200 (go_map (verify_members e (compared_hash e (mem_rows (aw_Events w))))),
     observe (ChainVerifyOutcomes (status_text (vr_Status
       (VerifyEvent e (Some (compared_hash e (mem_rows (aw_Events w)))))))) w)"
proof -
  let ?rows = "mem_rows (aw_Events w)"
  let ?f = "zero_filter\<lparr>f_To := TS e, f_Limit := 1000\<rparr>"
  let ?older = "take 1000 (filter (\<lambda>x. TS x < TS e) ?rows)"
  obtain res where res: "EventStore_List ?f (aw_Events w) = Inr res"
    unfolding EventStore_List_def Let_def by blast
  have "(\<lambda>x. selected ?f x \<and> after_cursor (f_Cursor ?f) x) = (\<lambda>x. TS x < TS e)"
    using assms(6) by (auto simp: fun_eq_iff selected_def in_window_def attrs_match_def after_cursor_def zero_filter_def)
  with mem_list_page(1) [OF res refl] have older: "lr_Events res = ?older"
    by (simp add: page_limit_def zero_filter_def)
  have "ID e \<notin> ID ` set ?older"
  proof
    assume "ID e \<in> ID ` set ?older"
    then obtain x where "x \<in> set ?rows" "TS x < TS e" "ID x = ID e" by (auto dest!: in_set_takeD)
    with mem_get_row(1) [OF assms(1)] assms(3) have "x = e" by (metis sum.inject(2))
    with \<open>TS x < TS e\<close> show False by simp
  qed
  then have "find_prev (ID e) e (rev (lr_Events res)) =
      (if ?older = [] \<or> ThisHash (last ?older) = [] then None else Some (ThisHash (last ?older)))"
    unfolding older by (intro find_prev_older) (auto dest!: in_set_takeD)
  then have "(case find_prev (ID e) e (rev (lr_Events res)) of Some h \<Rightarrow> h | None \<Rightarrow> ZeroHash) =
      compared_hash e ?rows"
    by (simp add: compared_hash_def Let_def)
  moreover have "fetch q d (ID e) (\<lambda>i. es_Get (ad_Events d) i (aw_Events w)) = Inr e"
    using assms(2,4,5) mem_get_row(1) [OF assms(1,3)] by (simp add: fetch_def mem_store_defs)
  moreover have "es_List (ad_Events d) ?f (aw_Events w) = Inr res"
    using assms(2) res by (simp add: mem_store_defs)
  ultimately show ?thesis
    unfolding handleVerifyEvent_def Let_def verify_members_def VerifyEvent_hashes
    by (simp only: sum.case prod.inject simp_thms)
qed

lemma handleVerifyEvent_verdict:
  assumes "mem_inv (aw_Events w)" and "ad_Events d = mem_event_store"
    and "e \<in> set (mem_rows (aw_Events w))" and "ID e \<noteq> []" and "validID d (ID e)" and "\<not> IsZero (TS e)"
  shows "\<exists>resp. handleVerifyEvent q d (ID e) w =
    (resp, observe (ChainVerifyOutcomes (status_text (vr_Status
       (VerifyEvent e (Some (compared_hash e (mem_rows (aw_Events w)))))))) w) \<and> hr_Code resp = 200"
  using handleVerifyEvent_answer [OF assms] by (simp add: writeJSON_def)

text \<open>When the predecessor is strictly older and among the first 1000 rows, its hash is compared.\<close>

lemma compared_hash_predecessor:
  assumes "mem_inv s" and "mem_rows s = xs @ x # e # ys" and "TS x < TS e" and "length xs < 1000" and "ThisHash x \<noteq> []"
  shows "compared_hash e (mem_rows s) = ThisHash x"
proof -
  have "chain_sorted (xs @ x # e # ys)" using assms(1) by (simp add: mem_inv_def flip: assms(2))
  then have "\<forall>z \<in> set xs. TS z < TS e" "\<forall>z \<in> set ys. \<not> TS z < TS e"
    using assms(3) by (auto simp: sorted_wrt_append less_cursor_def ev_key_def)
  then have "filter (\<lambda>z. TS z < TS e) (mem_rows s) = xs @ [x]"
    using assms(3) by (simp add: assms(2))
  then show ?thesis using assms(4,5) by (simp add: compared_hash_def)
qed

section \<open>Properties\<close>

text \<open>
  C22: access control covers every route. A request without the reader role changes nothing
  and is refused unless it is for the two public pages; a request without the admin role
  leaves the events, the export jobs and the redaction policy alone, whatever its path.
\<close>

theorem api_access_control:
  assumes "serve q d env r w = Some (resp, w')"
  shows "(\<not> HasAny (rq_Roles r) [RoleReader] \<longrightarrow>
      w' = w \<and> (hr_Code resp \<in> {403, 404, 405} \<or> rq_Path r = [''healthz''] \<or> rq_Path r = [''metrics''])) \<and>
    (\<not> HasAny (rq_Roles r) [RoleAdmin] \<longrightarrow>
      aw_Events w' = aw_Events w \<and> aw_Exports w' = aw_Exports w \<and> aw_Redactor w' = aw_Redactor w)"
  using assms
proof (cases rule: serve_cases)
  case (handled ep)
  have public: "rq_Path r = [''healthz''] \<or> rq_Path r = [''metrics'']" if "required_role ep = None"
    using endpoints_public [OF handled(3) that] .
  have reader: "HasAny (rq_Roles r) [RoleReader]" if "required_role ep \<noteq> None"
    using handled(2) that by (cases ep) (auto simp: HasAny_one)
  have admin: "HasAny (rq_Roles r) [RoleAdmin]" if "required_role ep = Some RoleAdmin"
    using handled(2) that by simp
  have "w' = w \<and> (rq_Path r = [''healthz''] \<or> rq_Path r = [''metrics''])"
    if "\<not> HasAny (rq_Roles r) [RoleReader]"
    using that public reader handle_endpoint_frame(3) [OF handled(1)] by blast
  moreover have "reads_only w w'" if "\<not> HasAny (rq_Roles r) [RoleAdmin]"
    using that admin handle_endpoint_frame(1) [OF handled(1)] by blast
  ultimately show ?thesis unfolding reads_only_def by blast
qed simp

text \<open>
  The API cannot rewrite history. A request of any kind to a service over the in-memory
  store leaves every row as it is, except that a legal-hold request may set the hold flag of
  the one row it names.
\<close>

theorem api_never_rewrites_events:
  assumes "serve q d env r w = Some (resp, w')" and "mem_inv (aw_Events w)"
    and "ad_LegalHold d = Some EventStore_SetLegalHold"
  shows "mem_inv (aw_Events w') \<and>
    (mem_rows (aw_Events w') = mem_rows (aw_Events w) \<or>
     (\<exists>i h. rq_Path r = [''v1'', ''admin'', ''legal-hold'', i] \<and> mem_rows (aw_Events w') =
        map (\<lambda>e. if ID e = i then e\<lparr>LegalHold := h\<rparr> else e) (mem_rows (aw_Events w))))"
  using assms(1,3)
proof (cases rule: serve_events)
  case (held i h)
  from mem_hold_rows [OF assms(2) prod.collapse [symmetric], of i h] show ?thesis
    unfolding held(2) [symmetric] hold_row_def using held(1) by auto
qed (use assms(2) in simp)

lemma EventHash_nonempty: "EventHash e \<noteq> []"
  by (auto simp: EventHash_def CanonicalHash_def simp flip: length_0_conv)

section \<open>A concrete service\<close>

definition sample_api :: "(mem_events, mem_jobs, fake, unit) api_deps" where
  "sample_api = \<lparr>ad_Events = mem_event_store, ad_Exports = mem_export_store [], ad_PresignGet = None,
     ad_PayloadBucket = '''', ad_LegalHold = Some EventStore_SetLegalHold, ad_Verifier = None,
     ad_RedactorReload = None, ad_UUID = (\<lambda>_. True), ad_Upper = id, ad_MetricsPage = (\<lambda>_. '''')\<rparr>"

definition sample_world :: "event list \<Rightarrow> (mem_events, mem_jobs, fake, unit) api_world" where
  "sample_world rows = \<lparr>aw_Events = store_of rows, aw_Exports = Map.empty, aw_Payloads = NewFake,
     aw_Redactor = (), aw_Metrics = no_metrics\<rparr>"

text \<open>
  The verification endpoint reports a gap in an intact chain. For a row that has the time
  of its predecessor, the endpoint compares the link with the hash of an older row: on a
  history that verifies it answers gap, unless the two hashes happen to be the same.
\<close>

theorem verify_endpoint_false_gap:
  assumes "mem_inv (aw_Events w)" and "ad_Events d = mem_event_store"
    and "mem_rows (aw_Events w) = xs @ x # a # e # ys" and "TS x < TS a" and "TS a = TS e"
    and "vr_Status (fst (VerifyChain (mem_rows (aw_Events w)))) = StatusOK"
    and "length xs < 1000" and "ID e \<noteq> []" and "validID d (ID e)" and "\<not> IsZero (TS e)"
  shows "(\<exists>resp. hr_Code resp = 200 \<and>
      handleVerifyEvent q d (ID e) w = (resp, observe (ChainVerifyOutcomes ''gap'') w)) \<or>
    ThisHash x = ThisHash a"
proof -
  let ?rows = "mem_rows (aw_Events w)"
  have "chain_sorted (xs @ x # a # e # ys)" using assms(1) by (simp add: mem_inv_def flip: assms(3))
  then have "\<forall>z \<in> set xs. TS z < TS e" "\<forall>z \<in> set ys. \<not> TS z < TS e"
    using assms(4,5) by (auto simp: sorted_wrt_append less_cursor_def ev_key_def)
  then have older: "filter (\<lambda>z. TS z < TS e) ?rows = xs @ [x]"
    using assms(4,5) by (simp add: assms(3))
  have linked: "linked ?rows" using assms(6) by (simp add: VerifyChain_ok_iff)
  have "ThisHash x = EventHash x"
    using linked unfolding linked_def assms(3) by (metis in_set_conv_nth in_set_conv_decomp)
  then have "ThisHash x \<noteq> []" by (simp add: EventHash_nonempty)
  with older have cmp: "compared_hash e ?rows = ThisHash x"
    using assms(7) by (simp add: compared_hash_def)
  have e: "?rows ! (length xs + 2) = e" "?rows ! (length xs + 1) = a" "e \<in> set ?rows"
    "length xs + 2 < length ?rows"
    by (simp_all add: assms(3) nth_append)
  have "ThisHash e = EventHash e" using linked e(1,4) unfolding linked_def by metis
  moreover have "PrevHash e = ThisHash a"
    using linked_Suc [OF linked, of "length xs + 1"] e by simp
  ultimately show ?thesis
    using handleVerifyEvent_verdict [OF assms(1,2) e(3) assms(8-10), of q] by (auto simp: VerifyEvent_status cmp)
qed

definition tied_rows :: "event list" where
  "tied_rows = (let x = sealed_row 1 ''a'' ZeroHash; a = sealed_row 2 ''b'' (ThisHash x)
     in [x, a, sealed_row 2 ''c'' (ThisHash a)])"

theorem verify_endpoint_false_gap_witness:
  "(\<exists>resp. hr_Code resp = 200 \<and> handleVerifyEvent plain_texts sample_api ''c'' (sample_world tied_rows) =
     (resp, observe (ChainVerifyOutcomes ''gap'') (sample_world tied_rows))) \<or>
   ThisHash (tied_rows ! 0) = ThisHash (tied_rows ! 1)"
proof -
  define x where "x = sealed_row 1 ''a'' ZeroHash"
  define y where "y = sealed_row 2 ''b'' (ThisHash x)"
  define z where "z = sealed_row 2 ''c'' (ThisHash y)"
  have rows: "tied_rows = [x, y, z]" by (simp add: tied_rows_def Let_def x_def y_def z_def)
  have sel: "ID x = ''a''" "ID y = ''b''" "ID z = ''c''" "TS x = 1" "TS y = 2" "TS z = 2"
    "PrevHash y = ThisHash x" "PrevHash z = ThisHash y"
    "ThisHash x = EventHash x" "ThisHash y = EventHash y" "ThisHash z = EventHash z"
    unfolding x_def y_def z_def by simp_all
  have "mem_inv (store_of tied_rows)"
    by (rule store_of_inv) (simp_all add: rows sel less_cursor_def ev_key_def)
  moreover have "linked tied_rows"
    unfolding linked_def rows by (auto simp: less_Suc_eq numeral_2_eq_2 sel)
  ultimately show ?thesis
    using verify_endpoint_false_gap [of "sample_world tied_rows" sample_api "[]" x y z "[]" plain_texts]
    unfolding rows by (simp add: sample_world_def sample_api_def validID_def VerifyChain_ok_iff sel)
qed

definition sample_request :: "string \<Rightarrow> string list \<Rightarrow> string \<Rightarrow> request" where
  "sample_request m path roles =
     \<lparr>rq_Method = m, rq_Path = path, rq_Query = (\<lambda>_. ''''), rq_Roles = roles, rq_Body = ''''\<rparr>"

lemma Roles_one: "Roles ''audit-admin'' = {RoleAdmin}" "Roles [] = {}"
  by (simp_all add: Roles_def RoleAdmin_def TrimSpace_plain)

lemma serve_refused:
  "serve q d env (sample_request ''GET'' [''v1'', ''events''] '''') w = Some (http_Error 403 ''forbidden'', w)"
  by (simp add: serve_def sample_request_def Require_def HasAny_one Roles_one)

theorem api_access_control_witness:
  "\<not> HasAny '''' [RoleReader] \<and> hr_Code (http_Error 403 ''forbidden'') \<in> {403, 404, 405}"
  using api_access_control [OF serve_refused [of plain_texts sample_api "\<lparr>oe_Now = 1, oe_UUID = ''u''\<rparr>" "sample_world []"]]
  by (simp add: sample_request_def HasAny_one Roles_one)

theorem api_never_rewrites_events_witness:
  "\<exists>resp w'. serve plain_texts sample_api \<lparr>oe_Now = 1, oe_UUID = ''u''\<rparr>
      (sample_request ''POST'' [''v1'', ''admin'', ''legal-hold'', ''a''] ''audit-admin'') (sample_world two_rows)
      = Some (resp, w') \<and>
    map EventMessage (mem_rows (aw_Events w')) = map EventMessage two_rows"
proof -
  let ?r = "sample_request ''POST'' [''v1'', ''admin'', ''legal-hold'', ''a''] ''audit-admin''"
  obtain resp w' where s: "serve plain_texts sample_api \<lparr>oe_Now = 1, oe_UUID = ''u''\<rparr> ?r (sample_world two_rows) = Some (resp, w')"
    by (cases "handleLegalHold plain_texts sample_api EventStore_SetLegalHold ''a'' ?r (sample_world two_rows)")
      (simp add: serve_def sample_request_def Require_def HasAny_one Roles_one sample_api_def)
  have "mem_inv (store_of two_rows)"
    by (rule store_of_inv) (simp_all add: two_rows_def less_cursor_def)
  with api_never_rewrites_events [OF s]
  have "mem_rows (aw_Events w') = two_rows \<or>
      (\<exists>i h. mem_rows (aw_Events w') = map (\<lambda>e. if ID e = i then e\<lparr>LegalHold := h\<rparr> else e) two_rows)"
    by (auto simp: sample_world_def sample_api_def)
  then have "map EventMessage (mem_rows (aw_Events w')) = map EventMessage two_rows"
    by (auto simp: EventMessage_def comp_def)
  with s show ?thesis by blast
qed

end
