(* ===== verification/Export.thy ===== *)
theory Export
  imports Chain S3_Fake
begin

text \<open>
  internal/export/export.go: the export runner. \<open>RunJob\<close> collects the rows a job selects,
  writes them with a manifest to the object store under Object Lock, anchors their chain root
  and updates the job.

  The times that \<^verbatim>\<open>time.Now\<close> returns in a run are the fields of \<open>export_env\<close>. Times are
  printed in UTC. A hash column that is empty is printed by \<open>serializeJSON\<close> as an empty text
  (the columns hold 32 bytes in the stores of this repository).
\<close>

section \<open>Dependencies\<close>

record ('s, 'a, 'j, 'p) export_deps =
  xd_Events :: "'s event_store"
  xd_Anchors :: "'a anchor_store"
  xd_Jobs :: "'j export_job_store"
  xd_Put :: "time \<Rightarrow> string \<Rightarrow> put_options \<Rightarrow> bytes \<Rightarrow> 'p \<Rightarrow> string result \<times> 'p"
  xd_PayloadBucket :: string
  xd_Signer :: "(bytes \<Rightarrow> (bytes \<times> string) result) option"
  xd_DefaultRetentionDays :: int

record ('a, 'j, 'p) export_world =
  xw_Anchors :: 'a
  xw_Jobs :: 'j
  xw_Payloads :: 'p

record export_env =
  xe_Anchor :: op_env
  xe_Generated :: time
  xe_Put :: time
  xe_Updated :: time

section \<open>The query\<close>

definition string_at :: "string \<Rightarrow> (string \<times> json) list \<Rightarrow> string option" where
  "string_at k m = (case map_of m k of Some (JStr s) \<Rightarrow> Some s | _ \<Rightarrow> None)"

definition time_at :: "string \<Rightarrow> (string \<times> json) list \<Rightarrow> time option" where
  "time_at k m = (case string_at k m of
       Some v \<Rightarrow> if v \<noteq> '''' then parse_time_opt v else None
     | None \<Rightarrow> None)"

definition parseQuery :: "(string \<Rightarrow> string option) \<Rightarrow> bytes \<Rightarrow> event_filter result" where
  "parseQuery fl raw =
     (if length raw = 0 then Inr zero_filter
      else case Unmarshal_map fl raw of
        None \<Rightarrow> Inl (ErrJson ''map[string]interface {}'' (string_of_bytes raw))
      | Some m \<Rightarrow>
          let f = zero_filter;
              f = (case time_at ''from'' m of Some t \<Rightarrow> f\<lparr>f_From := t\<rparr> | None \<Rightarrow> f);
              f = (case time_at ''to'' m of Some t \<Rightarrow> f\<lparr>f_To := t\<rparr> | None \<Rightarrow> f);
              f = (case string_at ''service'' m of Some v \<Rightarrow> f\<lparr>f_Service := v\<rparr> | None \<Rightarrow> f);
              f = (case string_at ''actor'' m of Some v \<Rightarrow> f\<lparr>f_Actor := v\<rparr> | None \<Rightarrow> f);
              f = (case string_at ''action'' m of Some v \<Rightarrow> f\<lparr>f_Action := v\<rparr> | None \<Rightarrow> f);
              f = (case string_at ''target_type'' m of Some v \<Rightarrow> f\<lparr>f_TargetType := v\<rparr> | None \<Rightarrow> f);
              f = (case string_at ''target_id'' m of Some v \<Rightarrow> f\<lparr>f_TargetID := v\<rparr> | None \<Rightarrow> f)
          in Inr f)"

section \<open>Serialization\<close>

definition boolStr :: "bool \<Rightarrow> string" where
  "boolStr b = (if b then ''true'' else ''false'')"

definition csv_header :: "string list" where
  "csv_header = [''id'', ''ts'', ''source_service'', ''actor_id'', ''action'', ''target_type'', ''target_id'',
     ''payload_hash'', ''prev_hash'', ''this_hash'', ''anchored'', ''legal_hold'', ''redacted'', ''payload_ref'']"

definition csv_row :: "event \<Rightarrow> string list" where
  "csv_row e = [ID e, format_RFC3339Nano (TS e), SourceService e, ActorID e, Action e, TargetType e,
     TargetID e, ''sha256:'' @ hex_EncodeToString (PayloadHash e), HashHex (PrevHash e),
     HashHex (ThisHash e), boolStr (Anchored e), boolStr (LegalHold e), boolStr (Redacted e), PayloadRef e]"

definition serializeCSV :: "event list \<Rightarrow> bytes result" where
  "serializeCSV events = Inr (bytes_of_string (concat (map csv_record (csv_header # map csv_row events))))"

text \<open>An event as \<^verbatim>\<open>encoding/json\<close> encodes it, by the tags of \<^verbatim>\<open>store.Event\<close>.\<close>

definition event_json :: "event \<Rightarrow> json result" where
  "event_json e =
     (case time_json (TS e) of Inl err \<Rightarrow> Inl err
      | Inr ts \<Rightarrow> Inr (JObj [(''id'', JStr (ID e)), (''ts'', ts), (''source_service'', JStr (SourceService e)),
          (''actor_id'', JStr (ActorID e)), (''action'', JStr (Action e)), (''target_type'', JStr (TargetType e)),
          (''target_id'', JStr (TargetID e)), (''payload_hash'', JStr (base64_encode (PayloadHash e))),
          (''payload_ref'', JStr (PayloadRef e)), (''prev_hash'', JStr (base64_encode (PrevHash e))),
          (''this_hash'', JStr (base64_encode (ThisHash e))), (''anchored'', JBool (Anchored e)),
          (''legal_hold'', JBool (LegalHold e)), (''redacted'', JBool (Redacted e))]))"

fun events_json :: "event list \<Rightarrow> json list result" where
  "events_json [] = Inr []"
| "events_json (e # es) =
     (case event_json e of Inl err \<Rightarrow> Inl err
      | Inr v \<Rightarrow> (case events_json es of Inl err \<Rightarrow> Inl err | Inr vs \<Rightarrow> Inr (v # vs)))"

text \<open>The slice is nil when no event was collected, and is encoded as \<^verbatim>\<open>null\<close> then.\<close>

definition serializeJSON :: "event list \<Rightarrow> bytes result" where
  "serializeJSON events =
     (case events_json events of Inl err \<Rightarrow> Inl err
      | Inr vs \<Rightarrow> Inr (bytes_of_string (MarshalIndent 0
          (JObj [(''events'', if events = [] then JNull else JArr vs)]))))"

definition extForFormat :: "string \<Rightarrow> string" where
  "extForFormat format = (if format = ''CSV'' \<or> format = ''csv'' then ''csv'' else ''json'')"

section \<open>The manifest\<close>

record manifest =
  mf_Type :: string
  mf_ExportID :: string
  mf_Format :: string
  mf_WindowFrom :: time
  mf_WindowTo :: time
  mf_RowCount :: int
  mf_ChainRoot :: string
  mf_AnchorID :: string
  mf_KMSKeyID :: string
  mf_SignatureHex :: string
  mf_GeneratedAt :: time

definition buildManifest :: "time \<Rightarrow> export_job \<Rightarrow> event list \<Rightarrow> bytes \<Rightarrow> string \<Rightarrow> manifest" where
  "buildManifest now job events root anchorID =
     (let m = \<lparr>mf_Type = ''audit-export-manifest'', mf_ExportID = ej_ID job, mf_Format = ej_Format job,
            mf_WindowFrom = 0, mf_WindowTo = 0, mf_RowCount = int (length events),
            mf_ChainRoot = HashHex root, mf_AnchorID = anchorID, mf_KMSKeyID = '''',
            mf_SignatureHex = '''', mf_GeneratedAt = now\<rparr>
      in if length events > 0
         then m\<lparr>mf_WindowFrom := TS (events ! 0), mf_WindowTo := TS (events ! (length events - 1))\<rparr>
         else m)"

text \<open>
  \<^verbatim>\<open>omitempty\<close> leaves out an empty string; it has no effect on a \<^verbatim>\<open>time.Time\<close>. The error of
  the encoder is ignored, the text is empty then.
\<close>

definition manifestJSON :: "manifest \<Rightarrow> string" where
  "manifestJSON m =
     (case (time_json (mf_WindowFrom m), time_json (mf_WindowTo m), time_json (mf_GeneratedAt m)) of
        (Inr wfrom, Inr wto, Inr g) \<Rightarrow>
          MarshalIndent 0 (JObj (
            [(''type'', JStr (mf_Type m)), (''export_id'', JStr (mf_ExportID m)),
             (''format'', JStr (mf_Format m)), (''window_from'', wfrom), (''window_to'', wto),
             (''row_count'', JNum (itoa (mf_RowCount m))), (''chain_root'', JStr (mf_ChainRoot m))] @
            (if mf_AnchorID m = '''' then [] else [(''anchor_id'', JStr (mf_AnchorID m))]) @
            (if mf_KMSKeyID m = '''' then [] else [(''kms_key_id'', JStr (mf_KMSKeyID m))]) @
            (if mf_SignatureHex m = '''' then [] else [(''signature_hex'', JStr (mf_SignatureHex m))]) @
            [(''generated_at'', g)]))
      | _ \<Rightarrow> '''')"

section \<open>Running a job\<close>

definition retention_for :: "int \<Rightarrow> int \<Rightarrow> int" where
  "retention_for default_days days =
     (if days \<le> 0 then (if default_days \<le> 0 then 2555 else default_days) else days)"

definition serialize :: "string \<Rightarrow> event list \<Rightarrow> bytes result" where
  "serialize format all =
     (if format = ''JSON'' \<or> format = '''' then serializeJSON all
      else if format = ''CSV'' then serializeCSV all
      else Inl (ErrUnsupportedFormat format))"

definition chain_root_of :: "event list \<Rightarrow> bytes" where
  "chain_root_of all =
     (let root = snd (VerifyChain all) in if length root \<noteq> 32 then ZeroHash else root)"

text \<open>The anchor of the exported window: errors of the signer and of the store are ignored.\<close>

definition export_anchor ::
  "('s, 'a, 'j, 'p) export_deps \<Rightarrow> op_env \<Rightarrow> bytes \<Rightarrow> int \<Rightarrow> 'a \<Rightarrow> string \<times> 'a" where
  "export_anchor deps env chainRoot n t =
     (case xd_Signer deps of
        None \<Rightarrow> ('''', t)
      | Some sign \<Rightarrow>
          if length chainRoot = 32 then
            (case sign chainRoot of
               Inl _ \<Rightarrow> ('''', t)
             | Inr (sig, keyID) \<Rightarrow>
                (case as_InsertAnchor (xd_Anchors deps) env
                   \<lparr>an_ID = '''', an_AnchoredAt = 0, an_RootHash = chainRoot, an_LastEventID = '''',
                    an_LastEventTS = 0, an_Signature = sig, an_KMSKeyID = keyID, an_NotaryURL = '''',
                    an_EventCount = n\<rparr> t of
                   (Inl _, t') \<Rightarrow> ('''', t')
                 | (Inr i, t') \<Rightarrow> (i, t')))
          else ('''', t))"

definition fail_job ::
  "('s, 'a, 'j, 'p) export_deps \<Rightarrow> export_env \<Rightarrow> export_job \<Rightarrow> ('a, 'j, 'p) export_world \<Rightarrow> ('a, 'j, 'p) export_world" where
  "fail_job deps env job w =
     w\<lparr>xw_Jobs := snd (js_UpdateJob (xd_Jobs deps) (ej_ID job)
        \<lparr>ju_Status = ''FAILED'', ju_RowCount = 0, ju_PayloadRef = '''', ju_ChainRoot = [], ju_AnchorID = '''',
         ju_CompletedAt = xe_Updated env\<rparr> (xw_Jobs w))\<rparr>"

text \<open>The part of \<^verbatim>\<open>RunJob\<close> after the collection: serialize, anchor, write, update.\<close>

definition finish_job ::
  "('s, 'a, 'j, 'p) export_deps \<Rightarrow> export_env \<Rightarrow> export_job \<Rightarrow> event list \<Rightarrow>
   ('a, 'j, 'p) export_world \<Rightarrow> go_error option \<times> ('a, 'j, 'p) export_world" where
  "finish_job deps env job all w =
     (case serialize (ej_Format job) all of
        Inl err \<Rightarrow> (Some err, fail_job deps env job w)
      | Inr body \<Rightarrow>
         let chainRoot = chain_root_of all;
             (anchorID, t') = export_anchor deps (xe_Anchor env) chainRoot (int (length all)) (xw_Anchors w);
             w = w\<lparr>xw_Anchors := t'\<rparr>;
             text = manifestJSON (buildManifest (xe_Generated env) job all chainRoot anchorID);
             full = bytes_of_string (text @ [newline]) @ body @ bytes_of_string [newline];
             key = ''exports/'' @ ej_ID job @ ''.'' @ extForFormat (ej_Format job)
         in (case xd_Put deps (xe_Put env) (xd_PayloadBucket deps)
               \<lparr>po_Key = key, po_ContentType = ''application/octet-stream'', po_StorageClass = ''STANDARD'',
                po_RetentionDays = retention_for (xd_DefaultRetentionDays deps) (ej_RetentionDays job),
                po_LegalHold = False\<rparr> full (xw_Payloads w) of
             (Inl err, p') \<Rightarrow> (Some (ErrWrap ''export: s3 put: '' err), fail_job deps env job (w\<lparr>xw_Payloads := p'\<rparr>))
           | (Inr _, p') \<Rightarrow>
              (case js_UpdateJob (xd_Jobs deps) (ej_ID job)
                 \<lparr>ju_Status = ''COMPLETE'', ju_RowCount = int (length all), ju_PayloadRef = key,
                  ju_ChainRoot = chainRoot, ju_AnchorID = anchorID, ju_CompletedAt = xe_Updated env\<rparr>
                 (xw_Jobs w) of
               (err, j') \<Rightarrow> (err, w\<lparr>xw_Payloads := p', xw_Jobs := j'\<rparr>))))"

text \<open>\<open>None\<close> would be a collection loop that never ends, as in \<open>Sweep\<close>.\<close>

definition RunJob ::
  "(string \<Rightarrow> string option) \<Rightarrow> ('s, 'a, 'j, 'p) export_deps \<Rightarrow> export_env \<Rightarrow> (nat \<Rightarrow> go_error option) \<Rightarrow>
   export_job option \<Rightarrow> 's \<Rightarrow> ('a, 'j, 'p) export_world \<Rightarrow>
   (go_error option \<times> ('a, 'j, 'p) export_world) option" where
  "RunJob fl deps env ctx jobp s w =
     (case jobp of None \<Rightarrow> Some (Some (ErrMsg ''export: nil job''), w)
      | Some job \<Rightarrow>
         (case parseQuery fl (ej_Query job) of
            Inl err \<Rightarrow> Some (Some (ErrWrap ''export: parse query: '' err), fail_job deps env job w)
          | Inr flt \<Rightarrow>
             (case collect_pages (xd_Events deps) s ctx (flt\<lparr>f_Limit := 10000\<rparr>) 0 [] of
                None \<Rightarrow> None
              | Some (Inl (CtxDone err)) \<Rightarrow> Some (Some err, w)
              | Some (Inl (ListFailed err)) \<Rightarrow> Some (Some (ErrWrap ''export: list: '' err), fail_job deps env job w)
              | Some (Inr all) \<Rightarrow> Some (finish_job deps env job all w))))"

section \<open>Reading CSV back\<close>

text \<open>A reader for the quoting rules of RFC 4180, to state what the written file means.\<close>

fun read_quoted :: "string \<Rightarrow> string \<times> string" where
  "read_quoted [] = ([], [])"
| "read_quoted (c # s) =
     (if c = dquote then
        (case s of d # t \<Rightarrow> if d = dquote then (case read_quoted t of (f, r) \<Rightarrow> (dquote # f, r)) else ([], s)
         | [] \<Rightarrow> ([], []))
      else (case read_quoted s of (f, r) \<Rightarrow> (c # f, r)))"

definition read_field :: "string \<Rightarrow> string \<times> string" where
  "read_field s =
     (case s of c # t \<Rightarrow> if c = dquote then read_quoted t
         else (takeWhile (\<lambda>x. x \<noteq> CHR '','' \<and> x \<noteq> newline) s, dropWhile (\<lambda>x. x \<noteq> CHR '','' \<and> x \<noteq> newline) s)
      | [] \<Rightarrow> ([], []))"

lemma read_quoted_le: "read_quoted s = (f, r) \<Longrightarrow> length r \<le> length s"
proof (induction s arbitrary: f r rule: read_quoted.induct)
  case (2 c s)
  show ?case
  proof (cases "c = dquote")
    case True
    then show ?thesis using 2 by (cases s) (fastforce split: prod.splits if_splits)+
  next
    case False
    then show ?thesis using 2 by (fastforce split: prod.splits)
  qed
qed simp

lemma read_field_le: "length (snd (read_field s)) \<le> length s"
proof (cases s)
  case (Cons c t)
  have "length (snd (read_quoted t)) \<le> length t" using read_quoted_le [of t] by (cases "read_quoted t") simp
  then show ?thesis
    using length_dropWhile_le [of "\<lambda>x. x \<noteq> CHR '','' \<and> x \<noteq> newline" s] by (auto simp: read_field_def Cons)
qed (simp add: read_field_def)

function read_record :: "string \<Rightarrow> string list \<times> string" where
  "read_record s =
     (case read_field s of (f, r) \<Rightarrow>
       (case r of [] \<Rightarrow> ([f], [])
        | c # t \<Rightarrow> if c = CHR '','' then (case read_record t of (fs, r) \<Rightarrow> (f # fs, r)) else ([f], t)))"
  by pat_completeness auto
termination
proof (relation "measure length", goal_cases)
  case (2 s x f)
  then show ?case using read_field_le [of s] by (cases "read_field s") (auto simp: less_eq_Suc_le)
qed simp

declare read_record.simps [simp del]

lemma read_record_le: "length (snd (read_record s)) \<le> length s"
proof (induction s rule: read_record.induct)
  case (1 s)
  have "length (snd (read_field s)) \<le> length s" by (rule read_field_le)
  with 1 show ?case
    by (subst read_record.simps) (fastforce split: prod.splits list.splits)
qed

function read_csv :: "string \<Rightarrow> string list list" where
  "read_csv s =
     (if s = [] then []
      else case read_record s of (fs, r) \<Rightarrow> fs # (if length r < length s then read_csv r else []))"
  by pat_completeness auto
termination
  by (relation "measure length") auto

declare read_csv.simps [simp del]

abbreviation escape_quotes :: "string \<Rightarrow> string" where
  "escape_quotes f \<equiv> concat (map (\<lambda>c. if c = dquote then [dquote, dquote] else [c]) f)"

lemma read_quoted_escape: "c \<noteq> dquote \<Longrightarrow> read_quoted (escape_quotes f @ dquote # c # r) = (f, c # r)"
  by (induction f) auto

lemma read_field_csv:
  assumes "c = CHR '','' \<or> c = newline"
  shows "read_field (csv_field f @ c # r) = (f, c # r)"
proof (cases "csv_needs_quotes f")
  case True
  then show ?thesis
    using assms read_quoted_escape [of c f r] by (auto simp: csv_field_def read_field_def)
next
  case False
  then have plain: "\<forall>x \<in> set f. x \<noteq> newline \<and> x \<noteq> dquote \<and> x \<noteq> CHR '',''"
    by (auto simp: csv_needs_quotes_def list_ex_iff split: if_splits)
  then have "takeWhile (\<lambda>x. x \<noteq> CHR '','' \<and> x \<noteq> newline) (f @ c # r) = f"
    "dropWhile (\<lambda>x. x \<noteq> CHR '','' \<and> x \<noteq> newline) (f @ c # r) = c # r"
    using assms by (auto simp: takeWhile_append2 dropWhile_append2)
  then show ?thesis
    using False assms plain by (cases f) (auto simp: csv_field_def read_field_def)
qed

lemma read_record_csv:
  "fs \<noteq> [] \<Longrightarrow> read_record (csv_fields fs @ newline # r) = (fs, r)"
proof (induction fs rule: csv_fields.induct)
  case (2 f)
  then show ?case by (subst read_record.simps) (simp add: read_field_csv)
next
  case (3 f g fs)
  then show ?case by (subst read_record.simps) (simp add: read_field_csv)
qed simp

lemma read_csv_records:
  assumes "\<forall>fs \<in> set rows. fs \<noteq> []"
  shows "read_csv (concat (map csv_record rows)) = rows"
  using assms
proof (induction rows)
  case (Cons fs rows)
  then show ?case
    by (subst read_csv.simps) (auto simp: csv_record_def [of fs] read_record_csv)
qed (simp add: read_csv.simps)

section \<open>The chain root of an export\<close>

lemma chain_root_linked:
  "chain_root_of all = (if linked all \<and> all \<noteq> [] then ThisHash (last all) else ZeroHash)"
proof (cases "linked all")
  case True
  have "length (ThisHash (last all)) = 32" if "all \<noteq> []"
    using True that by (auto simp: linked_def last_conv_nth)
  then show ?thesis using VerifyChain_linked [OF True] True by (auto simp: chain_root_of_def Let_def)
next
  case False
  then show ?thesis by (auto simp: chain_root_of_def Let_def elim!: VerifyChain_broken)
qed

lemma parseQuery_cursor: "parseQuery fl raw = Inr f \<Longrightarrow> f_Cursor f = no_cursor"
  by (auto simp: parseQuery_def zero_filter_def Let_def split: if_splits option.splits)

lemma selected_limit_irrelevant [simp]: "selected (f\<lparr>f_Limit := n\<rparr>) = selected f"
  by (simp add: fun_eq_iff selected_def in_window_def attrs_match_def)

lemma mem_RunJob:
  assumes "xd_Events deps = mem_event_store" and "mem_inv s" and "\<And>i. ctx i = None"
    and "\<forall>e \<in> set (mem_rows s). \<not> IsZero (TS e)" and "parseQuery fl (ej_Query job) = Inr flt"
  shows "RunJob fl deps env ctx (Some job) s w =
    Some (finish_job deps env job (filter (selected flt) (mem_rows s)) w)"
proof -
  have "f_Cursor (flt\<lparr>f_Limit := 10000\<rparr>) = no_cursor" using parseQuery_cursor [OF assms(5)] by simp
  from mem.collect_pages_complete [OF assms(2) TrueI assms(3,4) this] show ?thesis
    by (simp add: RunJob_def assms(1,5))
qed

section \<open>A concrete job\<close>

definition sample_export_deps :: "(mem_events, mem_anchors, mem_jobs, fake) export_deps" where
  "sample_export_deps = \<lparr>xd_Events = mem_event_store, xd_Anchors = mem_anchor_store,
     xd_Jobs = mem_export_store [], xd_Put = Fake_Put, xd_PayloadBucket = ''p'', xd_Signer = None,
     xd_DefaultRetentionDays = 30\<rparr>"

definition sample_job :: export_job where
  "sample_job = \<lparr>ej_ID = ''j'', ej_Query = [], ej_Format = ''CSV'', ej_RetentionDays = 0,
     ej_Status = ''PENDING'', ej_RowCount = 0, ej_PayloadRef = '''', ej_ChainRoot = [], ej_AnchorID = '''',
     ej_CreatedAt = 1, ej_CompletedAt = 0\<rparr>"

definition sample_export_env :: export_env where
  "sample_export_env = \<lparr>xe_Anchor = \<lparr>oe_Now = 7, oe_UUID = ''x''\<rparr>, xe_Generated = 8, xe_Put = 9, xe_Updated = 10\<rparr>"

definition sample_export_world :: "(mem_anchors, mem_jobs, fake) export_world" where
  "sample_export_world = \<lparr>xw_Anchors = [], xw_Jobs = [''j'' \<mapsto> sample_job], xw_Payloads = NewFake\<rparr>"

lemma sample_query: "parseQuery Some (ej_Query sample_job) = Inr zero_filter"
  by (simp add: parseQuery_def sample_job_def)

lemma sample_export_run:
  obtains w' where "RunJob Some sample_export_deps sample_export_env (\<lambda>_. None) (Some sample_job)
    NewEventStore sample_export_world = Some (None, w')"
proof -
  have run: "RunJob Some sample_export_deps sample_export_env (\<lambda>_. None) (Some sample_job)
      NewEventStore sample_export_world =
    Some (finish_job sample_export_deps sample_export_env sample_job [] sample_export_world)"
    using mem_RunJob [OF _ NewEventStore_inv _ _ sample_query, of sample_export_deps "\<lambda>_. None"
        sample_export_env sample_export_world]
    by (simp add: sample_export_deps_def)
  have "fst (finish_job sample_export_deps sample_export_env sample_job [] sample_export_world) = None"
    by (simp add: finish_job_def sample_job_def serialize_def serializeCSV_def sample_export_deps_def
        export_anchor_def Fake_Put_def mem_export_store_def ExportJobStore_UpdateJob_def
        sample_export_world_def NewFake_def Let_def)
  then show thesis using run that by (metis prod.collapse)
qed

section \<open>Properties\<close>

text \<open>
  C29: a completed export is complete. When a job over the in-memory stores ends without an
  error, the artifact under the job's key is read back as the manifest followed by the
  serialization of exactly the rows the query selects, each once and in chain order, is
  under Object Lock for the job's retention (or the default, or 2555 days), and the job
  records the number of rows, the key and the chain root.
\<close>

theorem export_complete:
  assumes "xd_Events deps = mem_event_store" and "xd_Jobs deps = mem_export_store order"
    and "xd_Put deps = Fake_Put" and "mem_inv s" and "\<And>i. ctx i = None"
    and "\<forall>e \<in> set (mem_rows s). \<not> IsZero (TS e)" and "parseQuery fl (ej_Query job) = Inr flt"
    and "RunJob fl deps env ctx (Some job) s w = Some (None, w')"
    and "rows = filter (selected flt) (mem_rows s)"
    and "key = ''exports/'' @ ej_ID job @ ''.'' @ extForFormat (ej_Format job)"
  shows "\<exists>body text ob j. serialize (ej_Format job) rows = Inr body \<and>
    Fake_Get (xd_PayloadBucket deps) key (xw_Payloads w') =
      Inr (bytes_of_string (text @ [newline]) @ body @ bytes_of_string [newline]) \<and>
    map_of (xw_Payloads w') (object_name (xd_PayloadBucket deps) key) = Some ob \<and>
    fo_retentionDays ob = retention_for (xd_DefaultRetentionDays deps) (ej_RetentionDays job) \<and>
    xw_Jobs w' (ej_ID job) = Some j \<and> ej_Status j = ''COMPLETE'' \<and> ej_RowCount j = int (length rows) \<and>
    ej_PayloadRef j = key \<and> ej_ChainRoot j = chain_root_of rows"
proof -
  have run: "finish_job deps env job rows w = (None, w')"
    using mem_RunJob [OF assms(1,4,5,6,7), where env = env and w = w] assms(8,9) by simp
  obtain body where body: "serialize (ej_Format job) rows = Inr body"
    using run by (auto simp: finish_job_def split: sum.splits)
  obtain anchorID t' where anchor: "export_anchor deps (xe_Anchor env) (chain_root_of rows)
      (int (length rows)) (xw_Anchors w) = (anchorID, t')" by fastforce
  let ?text = "manifestJSON (buildManifest (xe_Generated env) job rows (chain_root_of rows) anchorID)"
  show ?thesis
    using run body anchor assms(10)
    by (intro exI [of _ body] exI [of _ ?text])
      (auto simp: finish_job_def Let_def assms(2,3) mem_export_store_def Fake_Put_def Fake_Get_def
        map_of_map_put ExportJobStore_UpdateJob_def split: sum.splits prod.splits option.splits if_splits)
qed

theorem export_complete_witness:
  "\<exists>w' j. RunJob Some sample_export_deps sample_export_env (\<lambda>_. None) (Some sample_job)
      NewEventStore sample_export_world = Some (None, w') \<and>
    xw_Jobs w' ''j'' = Some j \<and> ej_Status j = ''COMPLETE'' \<and> ej_PayloadRef j = ''exports/j.csv''"
proof -
  obtain w' where run: "RunJob Some sample_export_deps sample_export_env (\<lambda>_. None) (Some sample_job)
      NewEventStore sample_export_world = Some (None, w')" by (rule sample_export_run)
  have d: "xd_Events sample_export_deps = mem_event_store" "xd_Jobs sample_export_deps = mem_export_store []"
    "xd_Put sample_export_deps = Fake_Put" by (simp_all add: sample_export_deps_def)
  from export_complete [OF d NewEventStore_inv _ _ sample_query run refl refl] run show ?thesis
    by (auto simp: sample_job_def extForFormat_def)
qed

text \<open>
  C30: a failed export over the in-memory stores is recorded. For a job that is in the job store,
  over an index whose rows have times and with a context that is not cancelled, a run always ends;
  when it ends with an error, no artifact was written, the job is marked as failed with no rows
  and no artifact, and no other job has changed.
\<close>

theorem export_failure_recorded:
  assumes "xd_Events deps = mem_event_store" and "xd_Jobs deps = mem_export_store order"
    and "xd_Put deps = Fake_Put" and "mem_inv s" and "\<And>i. ctx i = None"
    and "\<forall>e \<in> set (mem_rows s). \<not> IsZero (TS e)" and "xw_Jobs w (ej_ID job) \<noteq> None"
  shows "\<exists>err w'. RunJob fl deps env ctx (Some job) s w = Some (err, w') \<and>
    (err = None \<or> xw_Payloads w' = xw_Payloads w \<and>
      (\<exists>j. xw_Jobs w' (ej_ID job) = Some j \<and> ej_Status j = ''FAILED'' \<and> ej_RowCount j = 0 \<and> ej_PayloadRef j = '''') \<and>
      (\<forall>i. i \<noteq> ej_ID job \<longrightarrow> xw_Jobs w' i = xw_Jobs w i))"
proof -
  obtain j0 where j0: "xw_Jobs w (ej_ID job) = Some j0" using assms(7) by blast
  let ?recorded = "\<lambda>v. xw_Payloads v = xw_Payloads w \<and>
      (\<exists>j. xw_Jobs v (ej_ID job) = Some j \<and> ej_Status j = ''FAILED'' \<and> ej_RowCount j = 0 \<and> ej_PayloadRef j = '''') \<and>
      (\<forall>i. i \<noteq> ej_ID job \<longrightarrow> xw_Jobs v i = xw_Jobs w i)"
  have failed: "?recorded (fail_job deps env job v)" if "xw_Jobs v = xw_Jobs w" "xw_Payloads v = xw_Payloads w" for v
    using j0 that
    by (simp add: fail_job_def assms(2) mem_export_store_def ExportJobStore_UpdateJob_def Let_def)
  show ?thesis
  proof (cases "parseQuery fl (ej_Query job)")
    case (Inl e)
    then show ?thesis using failed [OF refl refl] by (simp add: RunJob_def)
  next
    case (Inr flt)
    let ?r = "finish_job deps env job (filter (selected flt) (mem_rows s)) w"
    have run: "RunJob fl deps env ctx (Some job) s w = Some (fst ?r, snd ?r)"
      using mem_RunJob [OF assms(1,4,5,6) Inr, where env = env and w = w] by simp
    have "?recorded (snd ?r)" if err: "fst ?r \<noteq> None"
    proof -
      obtain v where "snd ?r = fail_job deps env job v" "xw_Jobs v = xw_Jobs w" "xw_Payloads v = xw_Payloads w"
        using j0 err
        by (auto simp: finish_job_def Let_def assms(2,3) mem_export_store_def Fake_Put_def
            ExportJobStore_UpdateJob_def split: sum.splits prod.splits option.splits if_splits)
      with failed show ?thesis by metis
    qed
    then show ?thesis using run by (intro exI [of _ "fst ?r"] exI [of _ "snd ?r"]) blast
  qed
qed

text \<open>A job whose query is no JSON.\<close>

definition bad_job :: export_job where
  "bad_job = sample_job\<lparr>ej_Query := bytes_of_string ''x''\<rparr>"

theorem export_failure_recorded_witness:
  "\<exists>err w' j. RunJob Some sample_export_deps sample_export_env (\<lambda>_. None) (Some bad_job) NewEventStore sample_export_world =
      Some (Some err, w') \<and> xw_Jobs w' ''j'' = Some j \<and> ej_Status j = ''FAILED''"
proof -
  have d: "xd_Events sample_export_deps = mem_event_store" "xd_Jobs sample_export_deps = mem_export_store []"
    "xd_Put sample_export_deps = Fake_Put" by (simp_all add: sample_export_deps_def)
  have j: "xw_Jobs sample_export_world (ej_ID bad_job) \<noteq> None" "ej_ID bad_job = ''j''"
    by (simp_all add: sample_export_world_def sample_job_def bad_job_def)
  have "Unmarshal_map Some (bytes_of_string ''x'') = None" by code_simp
  then have "parseQuery Some (ej_Query bad_job) = Inl (ErrJson ''map[string]interface {}'' ''x'')"
    by (simp add: parseQuery_def bad_job_def)
  then have "\<exists>err w'. RunJob Some sample_export_deps sample_export_env (\<lambda>_. None) (Some bad_job) NewEventStore
      sample_export_world = Some (Some err, w')"
    by (simp add: RunJob_def)
  moreover note export_failure_recorded [OF d NewEventStore_inv _ _ j(1), where fl = Some and env = sample_export_env
      and ctx = "\<lambda>_. None"]
  ultimately show ?thesis using j(2) by fastforce
qed

lemma read_csv_serialized:
  "\<exists>b. serializeCSV events = Inr b \<and> read_csv (string_of_bytes b) = csv_header # map csv_row events"
proof -
  have "\<forall>fs \<in> set (csv_header # map csv_row events). fs \<noteq> []"
    by (auto simp: csv_header_def csv_row_def)
  from read_csv_records [OF this] show ?thesis by (simp add: serializeCSV_def)
qed

text \<open>
  What an export attests. The chain root of an export is the last row's hash when the
  exported rows form an unbroken chain; for every other selection, a filtered one in
  particular, the all-zero hash is signed and recorded in its place, and the job completes
  all the same.
\<close>

theorem export_chain_root:
  "chain_root_of rows = (if rows \<noteq> [] \<and> linked rows then ThisHash (last rows) else ZeroHash) \<and>
   length (chain_root_of rows) = 32"
proof
  show "length (chain_root_of rows) = 32" by (simp add: chain_root_of_def Let_def)
qed (auto simp: chain_root_linked)

end
