(* ===== verification/Kafka_Fake.thy ===== *)
theory Kafka_Fake
  imports Prelude
begin

text \<open>
  internal/kafka/kafka.go: the consumer interface and its in-memory implementation. The
  handler is a function on a state \<open>'w\<close>; \<open>None\<close> is a nil error, which commits the offset.

  The channel is the list of its messages with its capacity. \<^verbatim>\<open>Run\<close> chooses between the
  context and the channel at every turn; the choice is a parameter of the loop, a list of
  turns, so that the theorems hold for every schedule.
\<close>

record kafka_message =
  km_Topic :: string
  km_Partition :: int
  km_Offset :: int
  km_Key :: bytes
  km_Value :: bytes
  km_Headers :: "(string \<times> string) list"

type_synonym 'w handler = "kafka_message \<Rightarrow> 'w \<Rightarrow> go_error option \<times> 'w"

record kafka_fake =
  kf_feed :: "kafka_message list"
  kf_buffer :: nat
  kf_stopped :: bool
  kf_committed :: "int list"

definition NewFakeConsumer :: "int \<Rightarrow> kafka_fake" where
  "NewFakeConsumer buffer =
     \<lparr>kf_feed = [], kf_buffer = (if buffer \<le> 0 then 64 else nat buffer), kf_stopped = False, kf_committed = []\<rparr>"

definition Enqueue :: "kafka_message \<Rightarrow> kafka_fake \<Rightarrow> go_error option \<times> kafka_fake" where
  "Enqueue msg f =
     (if kf_stopped f then (Some (ErrMsg ''kafka: fake consumer stopped''), f)
      else if length (kf_feed f) < kf_buffer f then (None, f\<lparr>kf_feed := kf_feed f @ [msg]\<rparr>)
      else (Some (ErrMsg ''kafka: fake feed full''), f))"

text \<open>
  \<open>Enqueue\<close> gives up its mutex between the test and the send. The two halves; a send on the
  channel that \<^verbatim>\<open>Stop\<close> has closed panics, \<open>None\<close>.
\<close>

definition Enqueue_check :: "kafka_fake \<Rightarrow> go_error option" where
  "Enqueue_check f = (if kf_stopped f then Some (ErrMsg ''kafka: fake consumer stopped'') else None)"

definition Enqueue_send :: "kafka_message \<Rightarrow> kafka_fake \<Rightarrow> (go_error option \<times> kafka_fake) option" where
  "Enqueue_send msg f =
     (if kf_stopped f then None
      else if length (kf_feed f) < kf_buffer f then Some (None, f\<lparr>kf_feed := kf_feed f @ [msg]\<rparr>)
      else Some (Some (ErrMsg ''kafka: fake feed full''), f))"

definition Stop :: "kafka_fake \<Rightarrow> kafka_fake" where
  "Stop f = (if kf_stopped f then f else f\<lparr>kf_stopped := True\<rparr>)"

definition Committed :: "kafka_fake \<Rightarrow> int list" where
  "Committed f = kf_committed f"

definition Close :: "kafka_fake \<Rightarrow> kafka_fake" where
  "Close f = Stop f"

text \<open>
  \<^verbatim>\<open>PollFeed\<close>: a receive or the timeout, whichever the \<^verbatim>\<open>select\<close> takes when both are ready
  (\<open>timed_out\<close>). A closed channel that is empty yields the zero message and false.
\<close>

definition PollFeed :: "bool \<Rightarrow> kafka_fake \<Rightarrow> kafka_message option \<times> kafka_fake" where
  "PollFeed timed_out f =
     (case kf_feed f of
        [] \<Rightarrow> (None, f)
      | msg # feed \<Rightarrow> if timed_out then (None, f) else (Some msg, f\<lparr>kf_feed := feed\<rparr>))"

text \<open>One message: the handler runs, and the offset is committed when its error is nil.\<close>

definition handle_message :: "'w handler \<Rightarrow> kafka_message \<Rightarrow> kafka_fake \<times> 'w \<Rightarrow> kafka_fake \<times> 'w" where
  "handle_message handler msg st =
     (case st of (f, w) \<Rightarrow>
       (case handler msg w of
          (None, w') \<Rightarrow> (f\<lparr>kf_committed := kf_committed f @ [km_Offset msg]\<rparr>, w')
        | (Some _, w') \<Rightarrow> (f, w')))"

text \<open>
  The turns of \<^verbatim>\<open>Run\<close>: receive from the channel, or see the context done. The loop ends with
  the context's error, with nil when the channel is closed and empty, or it is still waiting
  when the turns are over (or the channel is empty), which is \<open>None\<close>.
\<close>

datatype turn = Receive | SeeDone go_error

fun Fake_Run :: "'w handler \<Rightarrow> turn list \<Rightarrow> kafka_fake \<times> 'w \<Rightarrow> go_error option option \<times> kafka_fake \<times> 'w" where
  "Fake_Run handler [] st = (None, st)"
| "Fake_Run handler (SeeDone err # ts) st = (Some (Some err), st)"
| "Fake_Run handler (Receive # ts) (f, w) =
     (case kf_feed f of
        [] \<Rightarrow> if kf_stopped f then (Some None, f, w) else (None, f, w)
      | msg # feed \<Rightarrow> Fake_Run handler ts (handle_message handler msg (f\<lparr>kf_feed := feed\<rparr>, w)))"

section \<open>Lemmas\<close>

lemma handle_message_feed [simp]:
  "kf_feed (fst (handle_message h m st)) = kf_feed (fst st)"
  "kf_stopped (fst (handle_message h m st)) = kf_stopped (fst st)"
  by (auto simp: handle_message_def split: prod.splits option.splits)

text \<open>
  Without a \<open>Stop\<close> in between the halves are \<open>Enqueue\<close>, also when a receive or another send comes
  between them; with a \<open>Stop\<close> in between the send panics.
\<close>

lemma Enqueue_halves:
  "(case Enqueue_check f of Some err \<Rightarrow> Some (Some err, f) | None \<Rightarrow> Enqueue_send msg f) = Some (Enqueue msg f)"
  by (simp add: Enqueue_check_def Enqueue_send_def Enqueue_def)

lemma enqueue_stop_race:
  assumes "Enqueue_check f = None"
  shows "Enqueue_send msg (Stop f) = None"
    and "\<not> kf_stopped g \<Longrightarrow> Enqueue_send msg g = Some (Enqueue msg g)"
  by (simp_all add: Enqueue_send_def Stop_def Enqueue_def)

text \<open>With a handler that never fails, what is received is committed, in order.\<close>

lemma Fake_Run_commits:
  assumes "\<And>m w. fst (handler m w) = None" and "Fake_Run handler ts st = (r, f', w')"
  shows "\<exists>n. kf_feed f' = drop n (kf_feed (fst st)) \<and>
    kf_committed f' = kf_committed (fst st) @ map km_Offset (take n (kf_feed (fst st))) \<and>
    w' = fold (\<lambda>m w. snd (handler m w)) (take n (kf_feed (fst st))) (snd st)"
  using assms
proof (induction handler ts st arbitrary: f' w' rule: Fake_Run.induct)
  case (3 handler ts f w)
  show ?case
  proof (cases "kf_feed f")
    case Nil
    then show ?thesis using "3.prems"(2) by (auto split: if_splits)
  next
    case (Cons msg feed)
    obtain w1 where h: "handler msg w = (None, w1)" using "3.prems"(1) [of msg w] by (metis fst_conv surj_pair)
    let ?st = "handle_message handler msg (f\<lparr>kf_feed := feed\<rparr>, w)"
    have st: "?st = (f\<lparr>kf_feed := feed, kf_committed := kf_committed f @ [km_Offset msg]\<rparr>, w1)"
      by (simp add: handle_message_def h)
    have "Fake_Run handler ts ?st = (r, f', w')" using "3.prems"(2) Cons by simp
    from "3.IH" [OF Cons "3.prems"(1) this] obtain n where
      "kf_feed f' = drop n feed" "kf_committed f' = kf_committed f @ [km_Offset msg] @ map km_Offset (take n feed)"
      "w' = fold (\<lambda>m w. snd (handler m w)) (take n feed) w1"
      by (auto simp: st)
    then show ?thesis by (intro exI [of _ "Suc n"]) (simp add: Cons h)
  qed
qed (auto intro: exI [of _ 0])

section \<open>Properties\<close>

text \<open>
  Commit on success. Each turn of the consumer takes the oldest message, runs the
  handler on it once, and commits its offset exactly when the handler's error is nil.
\<close>

theorem consumer_commits_on_success:
  assumes "kf_feed f = msg # feed" and "handler msg w = (err, w1)"
  shows "Fake_Run handler (Receive # ts) (f, w) =
    Fake_Run handler ts
      (f\<lparr>kf_feed := feed, kf_committed := kf_committed f @ (if err = None then [km_Offset msg] else [])\<rparr>, w1)"
  using assms by (cases err) (auto simp: handle_message_def)

theorem consumer_commits_on_success_witness:
  "kf_committed (fst (snd (Fake_Run (\<lambda>m w. (if km_Offset m = 7 then Some (ErrMsg ''no'') else None, w)) [Receive, Receive]
     (\<lparr>kf_feed = [\<lparr>km_Topic = '''', km_Partition = 0, km_Offset = 7, km_Key = [], km_Value = [], km_Headers = []\<rparr>,
        \<lparr>km_Topic = '''', km_Partition = 0, km_Offset = 8, km_Key = [], km_Value = [], km_Headers = []\<rparr>],
      kf_buffer = 4, kf_stopped = False, kf_committed = []\<rparr>, ())))) = [8]"
  by (simp add: consumer_commits_on_success [OF _ refl] del: Fake_Run.simps(3))

end
