(* ===== verification/App.thy ===== *)
theory App
  imports Api Ingest Export Redaction Kafka_Fake
begin

text \<open>
  internal/app: the composition root. \<open>Build\<close> chooses an implementation for each dependency
  from the configuration and wires the components; \<open>app_handler\<close>, \<open>app_anchor_tick\<close> and
  \<open>app_request\<close> are what the loops of \<^verbatim>\<open>startLoops\<close> and the HTTP server do with the wired
  server. The constructors of the real adapters (Postgres, S3, KMS, Kafka) are arguments: each
  returns an implementation or an error.
\<close>

section \<open>Wiring\<close>

record ('s, 'a, 'j, 'd) store_all =
  sa_Events :: "'s event_store"
  sa_Anchors :: "'a anchor_store"
  sa_Exports :: "'j export_job_store"
  sa_DeadLetters :: "'d dead_letter_store"

type_synonym signer = "bytes \<Rightarrow> (bytes \<times> string) result"

text \<open>What \<^verbatim>\<open>Build\<close> can construct: the fakes, and the adapters with their errors.\<close>

record ('s, 'a, 'j, 'd, 'p, 'c) constructors =
  ct_Memory :: "('s, 'a, 'j, 'd) store_all"
  ct_Postgres :: "string \<Rightarrow> ('s, 'a, 'j, 'd) store_all result"
  ct_FakeS3 :: "'p s3_client"
  ct_S3 :: "config \<Rightarrow> 'p s3_client result"
  ct_FakeKMS :: "string \<Rightarrow> signer"
  ct_KMS :: "string \<Rightarrow> signer result"
  ct_FakeKafka :: "int \<Rightarrow> 'c"
  ct_Kafka :: "config \<Rightarrow> 'c result"
  ct_Files :: "string \<Rightarrow> file_read"
  ct_Env :: environ

text \<open>
  The server. The redactor is the shared \<^verbatim>\<open>Reloader\<close>: it is state, so the parts of the
  pipeline's and the API's dependencies that use it are added when they run.
\<close>

record ('s, 'a, 'j, 'd, 'p, 'c) server =
  srv_Config :: config
  srv_Stores :: "('s, 'a, 'j, 'd) store_all"
  srv_Payloads :: "'p s3_client"
  srv_Signer :: signer
  srv_Redactor :: reloader
  srv_AnchorJob :: "('s, 'a) anchor_job"
  srv_Consumer :: 'c

text \<open>\<^verbatim>\<open>openPostgresOrFallback\<close>: an error is logged and the in-memory stores are used.\<close>

definition openPostgresOrFallback ::
  "('s, 'a, 'j, 'd) store_all result \<Rightarrow> ('s, 'a, 'j, 'd) store_all \<Rightarrow> ('s, 'a, 'j, 'd) store_all" where
  "openPostgresOrFallback opened mem = (case opened of Inl err \<Rightarrow> mem | Inr db \<Rightarrow> db)"

text \<open>An adapter that is tried when it is configured; an error is logged and the fake kept.\<close>

definition adapter_or_fake :: "bool \<Rightarrow> 'x result \<Rightarrow> 'x \<Rightarrow> 'x" where
  "adapter_or_fake configured made fake =
     (if configured then (case made of Inr x \<Rightarrow> x | Inl err \<Rightarrow> fake) else fake)"

definition Build ::
  "('s, 'a, 'j, 'd, 'p, 'c) constructors \<Rightarrow> config \<Rightarrow> ('s, 'a, 'j, 'd, 'p, 'c) server result" where
  "Build ct cfg =
     (let all = (if cfg_DBURL cfg \<noteq> '''' then openPostgresOrFallback (ct_Postgres ct (cfg_DBURL cfg)) (ct_Memory ct)
                 else ct_Memory ct);
          payloadStore = adapter_or_fake (cfg_PayloadBucket cfg \<noteq> '''' \<and> ct_Env ct ''AWS_REGION'' \<noteq> '''')
            (ct_S3 ct cfg) (ct_FakeS3 ct);
          signer = adapter_or_fake (cfg_KMSKeyID cfg \<noteq> '''' \<and> ct_Env ct ''AWS_REGION'' \<noteq> '''')
            (ct_KMS ct (cfg_KMSKeyID cfg)) (ct_FakeKMS ct (cfg_KMSKeyID cfg)) in
      case NewReloader (ct_Files ct) (cfg_RedactionPolicyPath cfg) of
        Inl err \<Rightarrow> Inl err
      | Inr redactor \<Rightarrow> Inr
          \<lparr>srv_Config = cfg, srv_Stores = all, srv_Payloads = payloadStore, srv_Signer = signer,
           srv_Redactor = redactor,
           srv_AnchorJob = \<lparr>aj_Events = sa_Events all, aj_Anchors = sa_Anchors all, aj_Signer = signer,
             aj_NotaryURL = cfg_ExternalNotaryURL cfg, aj_EventCount = None\<rparr>,
           srv_Consumer = adapter_or_fake (length (cfg_KafkaBrokers cfg) > 0) (ct_Kafka ct cfg) (ct_FakeKafka ct 256)\<rparr>)"

text \<open>The dependencies of the pipeline, with the reloader's current policy.\<close>

definition pipeline_deps ::
  "(string \<Rightarrow> string option) \<Rightarrow> (string \<Rightarrow> string) \<Rightarrow> ('s, 'a, 'j, 'd, 'p, 'c) server \<Rightarrow> reloader \<Rightarrow>
   ('s, 'p, 'd) ingest_deps" where
  "pipeline_deps fl uni srv r =
     \<lparr>id_Events = sa_Events (srv_Stores srv), id_Payloads = Some (PutAdapter (srv_Payloads srv)),
      id_PayloadBucket = cfg_PayloadBucket (srv_Config srv), id_StorageClass = cfg_PayloadStorageClass (srv_Config srv),
      id_RetentionDays = cfg_RetentionDays (srv_Config srv), id_LegalHoldDefault = cfg_LegalHoldDefault (srv_Config srv),
      id_Redactor = Some (Reloader_Apply fl uni r),
      id_DeadLetters = Some (ds_Append (sa_DeadLetters (srv_Stores srv))),
      id_Topic = cfg_KafkaTopic (srv_Config srv)\<rparr>"

text \<open>
  \<^verbatim>\<open>sweepVerifier.VerifyWindow\<close>. The anchors and the time are those of the moment of the
  request; \<open>None\<close> is a sweep that does not end.
\<close>

definition VerifyWindow ::
  "('s, 'a, 'j, 'd, 'p, 'c) server \<Rightarrow> 'a \<Rightarrow> (nat \<Rightarrow> go_error option) \<Rightarrow> time \<Rightarrow>
   time \<Rightarrow> time \<Rightarrow> 's \<Rightarrow> report result option" where
  "VerifyWindow srv anchors ctx now from_ts to_ts s =
     Sweep (sa_Events (srv_Stores srv)) s (Some (sa_Anchors (srv_Stores srv), anchors)) from_ts to_ts
       (Some (srv_Signer srv)) ctx now"

definition router_deps ::
  "(string \<Rightarrow> bool) \<Rightarrow> (string \<Rightarrow> string) \<Rightarrow> (metrics \<Rightarrow> string) \<Rightarrow> (string \<Rightarrow> file_read) \<Rightarrow>
   ('s, 'a, 'j, 'd, 'p, 'c) server \<Rightarrow> 'a \<Rightarrow> (nat \<Rightarrow> go_error option) \<Rightarrow> time \<Rightarrow>
   ('s, 'j, 'p, reloader) api_deps" where
  "router_deps uuid upper page fs srv anchors ctx now =
     \<lparr>ad_Events = sa_Events (srv_Stores srv), ad_Exports = sa_Exports (srv_Stores srv),
      ad_PresignGet = Some (sc_PresignGet (srv_Payloads srv)),
      ad_PayloadBucket = cfg_PayloadBucket (srv_Config srv),
      ad_LegalHold = Some (es_SetLegalHold (sa_Events (srv_Stores srv))),
      ad_Verifier = Some (VerifyWindow srv anchors ctx now),
      ad_RedactorReload = Some (Reload fs),
      ad_UUID = uuid, ad_Upper = upper, ad_MetricsPage = page\<rparr>"
section \<open>The running service\<close>

text \<open>
  The state of the stores, of the shared reloader and of the counters. \<open>sw_Clock\<close> counts the
  operations, so that each reads its own time and its own UUIDs.
\<close>

record ('s, 'a, 'j, 'd, 'p) service_world =
  sw_Events :: 's
  sw_Anchors :: 'a
  sw_Exports :: 'j
  sw_DeadLetters :: 'd
  sw_Payloads :: 'p
  sw_Redactor :: reloader
  sw_Metrics :: metrics
  sw_Clock :: nat

text \<open>What is outside: the texts and functions of the standard library, the clock, the files.\<close>

record outside =
  ou_Texts :: err_texts
  ou_Float :: "string \<Rightarrow> string option"
  ou_Lower :: "string \<Rightarrow> string"
  ou_Upper :: "string \<Rightarrow> string"
  ou_UUID :: "string \<Rightarrow> bool"
  ou_Page :: "metrics \<Rightarrow> string"
  ou_Env :: "nat \<Rightarrow> op_env"
  ou_Files :: "nat \<Rightarrow> string \<Rightarrow> file_read"
  ou_Ctx :: "nat \<Rightarrow> nat \<Rightarrow> go_error option"

definition ingest_world :: "('s, 'a, 'j, 'd, 'p) service_world \<Rightarrow> ('s, 'p, 'd) world" where
  "ingest_world W = \<lparr>w_Events = sw_Events W, w_Payloads = sw_Payloads W, w_DeadLetters = sw_DeadLetters W,
     w_Metrics = sw_Metrics W\<rparr>"

text \<open>
  The handler of the consumer loop: the message goes through the pipeline, the pipeline's
  result is discarded, and the handler returns nil.
\<close>

definition app_handler ::
  "outside \<Rightarrow> ('s, 'a, 'j, 'd, 'p, 'c) server \<Rightarrow> kafka_message \<Rightarrow> ('s, 'a, 'j, 'd, 'p) service_world \<Rightarrow>
   go_error option \<times> ('s, 'a, 'j, 'd, 'p) service_world" where
  "app_handler ou srv msg W =
     (case IngestMessage (ou_Texts ou) (pipeline_deps (ou_Float ou) (ou_Lower ou) srv (sw_Redactor W))
         (ou_Env ou (sw_Clock W))
         \<lparr>im_Topic = km_Topic msg, im_Partition = km_Partition msg, im_Offset = km_Offset msg,
          im_Key = km_Key msg, im_Value = km_Value msg\<rparr>
         (ingest_world W) of
        (_, w) \<Rightarrow> (None, W\<lparr>sw_Events := w_Events w, sw_Payloads := w_Payloads w,
          sw_DeadLetters := w_DeadLetters w, sw_Metrics := w_Metrics w, sw_Clock := Suc (sw_Clock W)\<rparr>))"

text \<open>A tick of the anchor loop: an error is logged at most.\<close>

definition app_anchor_tick ::
  "outside \<Rightarrow> ('s, 'a, 'j, 'd, 'p, 'c) server \<Rightarrow> ('s, 'a, 'j, 'd, 'p) service_world \<Rightarrow>
   ('s, 'a, 'j, 'd, 'p) service_world" where
  "app_anchor_tick ou srv W =
     (if cfg_ChainAnchorInterval (srv_Config srv) > 0 then
        (case AnchorJob_Run (srv_AnchorJob srv) (ou_Env ou (sw_Clock W)) (sw_Events W) (sw_Anchors W) of
           (_, s, t) \<Rightarrow> W\<lparr>sw_Events := s, sw_Anchors := t, sw_Clock := Suc (sw_Clock W)\<rparr>)
      else W)"

definition app_request ::
  "outside \<Rightarrow> ('s, 'a, 'j, 'd, 'p, 'c) server \<Rightarrow> request \<Rightarrow> ('s, 'a, 'j, 'd, 'p) service_world \<Rightarrow>
   (response \<times> ('s, 'a, 'j, 'd, 'p) service_world) option" where
  "app_request ou srv r W =
     (let n = sw_Clock W; env = ou_Env ou n in
      case serve (ou_Texts ou)
        (router_deps (ou_UUID ou) (ou_Upper ou) (ou_Page ou) (ou_Files ou n) srv (sw_Anchors W) (ou_Ctx ou n) (oe_Now env))
        env r \<lparr>aw_Events = sw_Events W, aw_Exports = sw_Exports W, aw_Payloads = sw_Payloads W,
          aw_Redactor = sw_Redactor W, aw_Metrics = sw_Metrics W\<rparr> of
        None \<Rightarrow> None
      | Some (resp, w) \<Rightarrow> Some (resp, W\<lparr>sw_Events := aw_Events w, sw_Exports := aw_Exports w,
          sw_Payloads := aw_Payloads w, sw_Redactor := aw_Redactor w, sw_Metrics := aw_Metrics w,
          sw_Clock := Suc n\<rparr>))"

text \<open>What can happen to the running service, and a sequence of it.\<close>

datatype happening = Delivered kafka_message | AnchorTick | Requested request

fun happen ::
  "outside \<Rightarrow> ('s, 'a, 'j, 'd, 'p, 'c) server \<Rightarrow> happening \<Rightarrow> ('s, 'a, 'j, 'd, 'p) service_world \<Rightarrow>
   ('s, 'a, 'j, 'd, 'p) service_world option" where
  "happen ou srv (Delivered msg) W = Some (snd (app_handler ou srv msg W))"
| "happen ou srv AnchorTick W = Some (app_anchor_tick ou srv W)"
| "happen ou srv (Requested r) W = map_option snd (app_request ou srv r W)"

fun happen_all ::
  "outside \<Rightarrow> ('s, 'a, 'j, 'd, 'p, 'c) server \<Rightarrow> happening list \<Rightarrow> ('s, 'a, 'j, 'd, 'p) service_world \<Rightarrow>
   ('s, 'a, 'j, 'd, 'p) service_world option" where
  "happen_all ou srv [] W = Some W"
| "happen_all ou srv (x # xs) W = (case happen ou srv x W of None \<Rightarrow> None | Some W' \<Rightarrow> happen_all ou srv xs W')"

section \<open>The service on the in-memory stores\<close>

definition memory_stores :: "string list \<Rightarrow> (mem_events, mem_anchors, mem_jobs, mem_dead_letters) store_all" where
  "memory_stores order = \<lparr>sa_Events = mem_event_store, sa_Anchors = mem_anchor_store,
     sa_Exports = mem_export_store order, sa_DeadLetters = mem_dead_letter_store\<rparr>"

text \<open>A server as \<open>Build\<close> wires it without any adapter, and the state it keeps sound.\<close>

definition in_memory :: "(mem_events, mem_anchors, mem_jobs, mem_dead_letters, fake, 'c) server \<Rightarrow> bool" where
  "in_memory srv \<longleftrightarrow> (\<exists>order. srv_Stores srv = memory_stores order) \<and> srv_Payloads srv = fake_client \<and>
     aj_Events (srv_AnchorJob srv) = mem_event_store \<and> aj_Anchors (srv_AnchorJob srv) = mem_anchor_store"

definition sound :: "(mem_events, mem_anchors, mem_jobs, mem_dead_letters, fake) service_world \<Rightarrow> bool" where
  "sound W \<longleftrightarrow> mem_inv (sw_Events W) \<and> (\<forall>e \<in> set (mem_rows (sw_Events W)). \<not> IsZero (TS e))"

section \<open>What one happening does\<close>

lemma Build_wires:
  assumes "Build ct cfg = Inr srv"
  shows "aj_Events (srv_AnchorJob srv) = sa_Events (srv_Stores srv)"
    and "aj_Anchors (srv_AnchorJob srv) = sa_Anchors (srv_Stores srv)" and "srv_Config srv = cfg"
  using assms by (auto simp: Build_def Let_def split: sum.splits)

lemma app_handler_events:
  assumes "app_handler ou srv msg W = (err, W')"
  shows "err = None \<and> (sw_Events W' = sw_Events W \<or>
    (\<exists>row r. es_Insert (sa_Events (srv_Stores srv)) row (sw_Events W) = (r, sw_Events W') \<and> \<not> IsZero (TS row)))"
proof -
  let ?deps = "pipeline_deps (ou_Float ou) (ou_Lower ou) srv (sw_Redactor W)"
  let ?msg = "\<lparr>im_Topic = km_Topic msg, im_Partition = km_Partition msg, im_Offset = km_Offset msg,
    im_Key = km_Key msg, im_Value = km_Value msg\<rparr>"
  obtain res w where run: "IngestMessage (ou_Texts ou) ?deps (ou_Env ou (sw_Clock W)) ?msg (ingest_world W) = (res, w)"
    by (metis surj_pair)
  then have "err = None" "sw_Events W' = w_Events w" using assms by (simp_all add: app_handler_def) auto
  with IngestMessage_events [OF run] show ?thesis by (simp add: pipeline_deps_def ingest_world_def)
qed

lemma app_anchor_tick_events:
  "sw_Events (app_anchor_tick ou srv W) = sw_Events W \<or>
    (\<exists>ts i mr. es_MarkAnchored (aj_Events (srv_AnchorJob srv)) ts i (sw_Events W) =
       (mr, sw_Events (app_anchor_tick ou srv W)))"
proof -
  obtain r s t where run: "AnchorJob_Run (srv_AnchorJob srv) (ou_Env ou (sw_Clock W)) (sw_Events W) (sw_Anchors W) = (r, s, t)"
    by (metis prod_cases3)
  from AnchorJob_Run_events [OF run] show ?thesis by (auto simp: app_anchor_tick_def run)
qed

lemma app_request_events:
  assumes "app_request ou srv r W = Some (resp, W')"
  shows "sw_Events W' = sw_Events W \<or>
    (\<exists>i h. sw_Events W' = snd (es_SetLegalHold (sa_Events (srv_Stores srv)) i h (sw_Events W)))"
proof -
  let ?d = "router_deps (ou_UUID ou) (ou_Upper ou) (ou_Page ou) (ou_Files ou (sw_Clock W)) srv (sw_Anchors W)
    (ou_Ctx ou (sw_Clock W)) (oe_Now (ou_Env ou (sw_Clock W)))"
  obtain w where run: "serve (ou_Texts ou) ?d (ou_Env ou (sw_Clock W)) r
      \<lparr>aw_Events = sw_Events W, aw_Exports = sw_Exports W, aw_Payloads = sw_Payloads W,
       aw_Redactor = sw_Redactor W, aw_Metrics = sw_Metrics W\<rparr> = Some (resp, w)" and W': "sw_Events W' = aw_Events w"
    using assms by (auto simp: app_request_def Let_def split: option.splits prod.splits)
  have "ad_LegalHold ?d = Some (es_SetLegalHold (sa_Events (srv_Stores srv)))" by (simp add: router_deps_def)
  with run show ?thesis by (cases rule: serve_events) (auto simp: W')
qed

lemma happen_reach:
  assumes "happen ou srv x W = Some W'" and "aj_Events (srv_AnchorJob srv) = sa_Events (srv_Stores srv)"
  shows "store_reach (sa_Events (srv_Stores srv)) (sw_Events W) (sw_Events W')"
proof (cases x)
  case (Delivered msg)
  obtain err where "app_handler ou srv msg W = (err, W')" using assms(1) Delivered by (cases "app_handler ou srv msg W") auto
  from app_handler_events [OF this] show ?thesis by (auto intro: reach_Insert [OF reach_start] reach_start)
next
  case AnchorTick
  then have "W' = app_anchor_tick ou srv W" using assms(1) by simp
  then show ?thesis
    using app_anchor_tick_events [of ou srv W] assms(2) by (auto intro: reach_MarkAnchored [OF reach_start] reach_start)
next
  case (Requested r)
  then obtain resp where "app_request ou srv r W = Some (resp, W')" using assms(1) by auto
  from app_request_events [OF this] show ?thesis
    by (auto intro: reach_SetLegalHold [OF reach_start prod.collapse [symmetric]] reach_start)
qed

lemma happen_all_reach:
  assumes "happen_all ou srv xs W = Some W'" and "aj_Events (srv_AnchorJob srv) = sa_Events (srv_Stores srv)"
  shows "store_reach (sa_Events (srv_Stores srv)) (sw_Events W) (sw_Events W')"
  using assms(1)
proof (induction xs arbitrary: W)
  case (Cons x xs)
  then obtain W1 where "happen ou srv x W = Some W1" "happen_all ou srv xs W1 = Some W'"
    by (auto split: option.splits)
  from store_reach_trans [OF Cons.IH [OF this(2)] happen_reach [OF this(1) assms(2)]] show ?case .
qed (simp add: reach_start)

section \<open>The service on the in-memory stores answers\<close>

lemma mem_times_kept:
  assumes "mem_inv s" and "es_Insert mem_event_store row s = (r, s')" and "\<not> IsZero (TS row)"
    and "\<forall>e \<in> set (mem_rows s). \<not> IsZero (TS e)"
  shows "mem_inv s' \<and> (\<forall>e \<in> set (mem_rows s'). \<not> IsZero (TS e))"
proof -
  have "set (mem_rows s') \<subseteq> insert row (set (mem_rows s))"
    using mem.Insert_contract [OF assms(1,2)] by (cases r) (simp_all add: set_insort_key subset_insertI split: if_splits)
  moreover have "mem_inv s'" using mem.Insert_contract [OF assms(1,2)] by simp
  ultimately show ?thesis using assms(3,4) by auto
qed

lemma mem_flags_kept:
  assumes "mem_inv s" and "\<forall>e \<in> set (mem_rows s). \<not> IsZero (TS e)"
  shows "es_SetLegalHold mem_event_store i h s = (hr, s') \<Longrightarrow> mem_inv s' \<and> (\<forall>e \<in> set (mem_rows s'). \<not> IsZero (TS e))"
    and "es_MarkAnchored mem_event_store t i s = (mr, s') \<Longrightarrow> mem_inv s' \<and> (\<forall>e \<in> set (mem_rows s'). \<not> IsZero (TS e))"
proof -
  have same: "\<forall>e \<in> set (map f es). \<not> IsZero (TS e)"
    if "\<And>e. TS (f e) = TS e" "\<forall>e \<in> set es. \<not> IsZero (TS e)" for f es using that by simp
  have flags: "TS (hold_row i h e) = TS e" "TS (mark_upto c e) = TS e" for e c
    by (simp_all add: hold_row_def mark_upto_def)
  show "mem_inv s' \<and> (\<forall>e \<in> set (mem_rows s'). \<not> IsZero (TS e))" if "es_SetLegalHold mem_event_store i h s = (hr, s')"
    using mem.SetLegalHold_contract [OF assms(1) that] assms(2) same [of "hold_row i h"] flags by (cases hr) simp_all
  show "mem_inv s' \<and> (\<forall>e \<in> set (mem_rows s'). \<not> IsZero (TS e))" if "es_MarkAnchored mem_event_store t i s = (mr, s')"
    using mem.MarkAnchored_contract [OF assms(1) that] assms(2) same [of "mark_upto (Cursor t i)"] flags
    by (cases mr) simp_all
qed

lemma request_answered:
  assumes "in_memory srv" and "sound W"
  shows "\<exists>resp W'. app_request ou srv r W = Some (resp, W')"
proof -
  let ?d = "router_deps (ou_UUID ou) (ou_Upper ou) (ou_Page ou) (ou_Files ou (sw_Clock W)) srv (sw_Anchors W)
    (ou_Ctx ou (sw_Clock W)) (oe_Now (ou_Env ou (sw_Clock W)))"
  let ?w = "\<lparr>aw_Events = sw_Events W, aw_Exports = sw_Exports W, aw_Payloads = sw_Payloads W,
       aw_Redactor = sw_Redactor W, aw_Metrics = sw_Metrics W\<rparr>"
  have ends: "VerifyWindow srv (sw_Anchors W) ctx now f t (sw_Events W) \<noteq> None" for ctx now f t
    using mem.Sweep_ends [of "sw_Events W", OF _ TrueI] assms
    by (auto simp: VerifyWindow_def in_memory_def memory_stores_def sound_def)
  then have "handleAdminVerifyChain (ou_Texts ou) ?d r ?w \<noteq> None"
    by (auto simp: handleAdminVerifyChain_def router_deps_def split: option.splits sum.splits)
  then have "handle_endpoint (ou_Texts ou) ?d (ou_Env ou (sw_Clock W)) ep r ?w \<noteq> None" for ep
    by (cases ep) simp_all
  then have "serve (ou_Texts ou) ?d (ou_Env ou (sw_Clock W)) r ?w \<noteq> None"
    by (simp add: serve_def Let_def split: option.split)
  then show ?thesis by (auto simp: app_request_def Let_def)
qed

lemma happen_answered:
  assumes "in_memory srv" and "sound W"
  shows "\<exists>W'. happen ou srv x W = Some W' \<and> sound W'"
proof -
  have ops: "sa_Events (srv_Stores srv) = mem_event_store" "aj_Events (srv_AnchorJob srv) = mem_event_store"
    using assms(1) by (auto simp: in_memory_def memory_stores_def)
  have inv: "mem_inv (sw_Events W)" "\<forall>e \<in> set (mem_rows (sw_Events W)). \<not> IsZero (TS e)"
    using assms(2) by (simp_all add: sound_def)
  show ?thesis
  proof (cases x)
    case (Delivered msg)
    obtain err W' where run: "app_handler ou srv msg W = (err, W')" by (cases "app_handler ou srv msg W")
    have "sound W'"
      using app_handler_events [OF run] mem_times_kept [OF inv(1) _ _ inv(2)] inv
      unfolding sound_def ops by metis
    then show ?thesis using Delivered run by simp
  next
    case AnchorTick
    have "sound (app_anchor_tick ou srv W)"
      using app_anchor_tick_events [of ou srv W] mem_flags_kept(2) [OF inv] inv
      unfolding sound_def ops by metis
    then show ?thesis using AnchorTick by simp
  next
    case (Requested r)
    obtain resp W' where run: "app_request ou srv r W = Some (resp, W')" using request_answered [OF assms] by blast
    have "sound W'"
      using app_request_events [OF run] mem_flags_kept(1) [OF inv prod.collapse [symmetric]] inv
      unfolding sound_def ops by metis
    then show ?thesis using Requested run by simp
  qed
qed

section \<open>A concrete server\<close>

definition sample_constructors ::
  "(mem_events, mem_anchors, mem_jobs, mem_dead_letters, fake, kafka_fake) constructors" where
  "sample_constructors =
     \<lparr>ct_Memory = memory_stores [], ct_Postgres = (\<lambda>_. Inl (ErrMsg ''down'')), ct_FakeS3 = fake_client,
      ct_S3 = (\<lambda>_. Inl (ErrMsg ''down'')), ct_FakeKMS = (\<lambda>i b. Inr (b, i)), ct_KMS = (\<lambda>_. Inl (ErrMsg ''down'')),
      ct_FakeKafka = NewFakeConsumer, ct_Kafka = (\<lambda>_. Inl (ErrMsg ''down'')),
      ct_Files = (\<lambda>_. NotExist), ct_Env = (\<lambda>_. '''')\<rparr>"

definition sample_config :: config where
  "sample_config = Load (\<lambda>n d. 0) id (\<lambda>k. if k = ''DB_URL'' then ''postgres:'' else '''')"

definition sample_outside :: outside where
  "sample_outside = \<lparr>ou_Texts = plain_texts, ou_Float = (\<lambda>_. None), ou_Lower = id, ou_Upper = id,
     ou_UUID = (\<lambda>_. True), ou_Page = (\<lambda>_. ''''), ou_Env = (\<lambda>n. \<lparr>oe_Now = int n + 1, oe_UUID = ''u''\<rparr>),
     ou_Files = (\<lambda>_ _. NotExist), ou_Ctx = (\<lambda>_ _. None)\<rparr>"

definition start_world :: "mem_events \<Rightarrow> (mem_events, mem_anchors, mem_jobs, mem_dead_letters, fake) service_world" where
  "start_world s = \<lparr>sw_Events = s, sw_Anchors = [], sw_Exports = Map.empty, sw_DeadLetters = [],
     sw_Payloads = NewFake, sw_Redactor = \<lparr>rl_policy = [], rl_path = ''''\<rparr>, sw_Metrics = no_metrics, sw_Clock = 0\<rparr>"

definition sample_kafka :: kafka_message where
  "sample_kafka = \<lparr>km_Topic = ''t'', km_Partition = 0, km_Offset = 7, km_Key = [],
     km_Value = im_Value the_message, km_Headers = []\<rparr>"

definition sample_server :: "(mem_events, mem_anchors, mem_jobs, mem_dead_letters, fake, kafka_fake) server" where
  "sample_server = projr (Build sample_constructors sample_config)"

lemma sample_server_built:
  "Build sample_constructors sample_config = Inr sample_server" "in_memory sample_server"
  by (auto simp: sample_server_def Build_def Let_def sample_constructors_def adapter_or_fake_def
      openPostgresOrFallback_def NewReloader_def LoadFile_def in_memory_def memory_stores_def)

section \<open>Properties\<close>

text \<open>
  The service is append-only over any store. A server as \<^verbatim>\<open>Build\<close> wires it, whatever
  messages are delivered, anchor ticks run and requests are served, in whatever order, touches
  its event store through \<^verbatim>\<open>Insert\<close>, \<^verbatim>\<open>SetLegalHold\<close> and \<^verbatim>\<open>MarkAnchored\<close> only. So over every
  store whose operations keep rows (the in-memory and the Postgres one do) no row disappears,
  none of its immutable columns changes and the anchored flag is never reset.
\<close>

theorem service_append_only:
  assumes "Build ct cfg = Inr srv" and "happen_all ou srv xs W = Some W'"
    and "append_only_store (sa_Events (srv_Stores srv)) ok rows" and "ok (sw_Events W)"
  shows "\<forall>e \<in> set (rows (sw_Events W)). row_kept (rows (sw_Events W')) e"
proof -
  have "store_reach (sa_Events (srv_Stores srv)) (sw_Events W) (sw_Events W')"
    by (rule happen_all_reach [OF assms(2) Build_wires(1) [OF assms(1)]])
  then show ?thesis
    using append_only_store.store_reach_append_only [OF assms(3) _ assms(4)] by blast
qed

theorem service_append_only_witness:
  "\<exists>W'. happen_all sample_outside sample_server [Delivered sample_kafka] (start_world one_row_store) = Some W' \<and>
     row_kept (mem_rows (sw_Events W')) (sample_row 9 ''a'')"
proof -
  obtain W' where run: "happen_all sample_outside sample_server [Delivered sample_kafka] (start_world one_row_store) = Some W'"
    by simp
  have "append_only_store (sa_Events (srv_Stores sample_server)) mem_inv mem_rows"
    using sample_server_built(2) mem.append_only_store_axioms by (auto simp: in_memory_def memory_stores_def)
  from service_append_only [OF sample_server_built(1) run this] run show ?thesis
    by (simp add: start_world_def NewEventStore_Insert)
qed

text \<open>
  C21: the in-memory service always answers. From a sound state, every sequence of messages,
  anchor ticks and requests, with any clock, any files and any cancelled request contexts, runs
  to its end in a sound state: every sweep and every handler returns.
\<close>

theorem memory_service_answers:
  assumes "in_memory srv" and "sound W"
  shows "\<exists>W'. happen_all ou srv xs W = Some W' \<and> sound W'"
  using assms(2)
proof (induction xs arbitrary: W)
  case (Cons x xs)
  from happen_answered [OF assms(1) Cons.prems] obtain W1 where "happen ou srv x W = Some W1" "sound W1"
    by blast
  with Cons.IH show ?case by simp
qed simp

theorem memory_service_answers_witness:
  "\<exists>W'. happen_all sample_outside sample_server
     [Delivered sample_kafka, Requested (sample_request ''POST'' [''v1'', ''admin'', ''verify-chain''] ''audit-admin'')]
     (start_world NewEventStore) = Some W' \<and> sound W'"
  by (rule memory_service_answers [OF sample_server_built(2)]) (simp add: sound_def start_world_def)

text \<open>
  A failed write loses the message. When a message passes the checks and the pipeline then
  reports an error (the chain head cannot be read, the payload cannot be written or the row
  cannot be inserted), the consumer commits its offset all the same and no dead letter is
  recorded; the index is as before, unless \<^verbatim>\<open>Insert\<close> itself failed on it.
\<close>

theorem failed_write_loses_message:
  assumes "kf_feed f = msg # rest"
    and "deps = pipeline_deps (ou_Float ou) (ou_Lower ou) srv (sw_Redactor W)"
    and "accepted (ou_Texts ou) deps im = Some (ev, body, red, ph)"
    and "im = \<lparr>im_Topic = km_Topic msg, im_Partition = km_Partition msg, im_Offset = km_Offset msg,
      im_Key = km_Key msg, im_Value = km_Value msg\<rparr>"
    and "IngestMessage (ou_Texts ou) deps (ou_Env ou (sw_Clock W)) im (ingest_world W) = (res, w)"
    and "ir_Reason res \<noteq> ''''"
  shows "\<exists>W'. Fake_Run (app_handler ou srv) [Receive] (f, W) =
      (None, f\<lparr>kf_feed := rest, kf_committed := kf_committed f @ [km_Offset msg]\<rparr>, W') \<and>
    sw_DeadLetters W' = sw_DeadLetters W \<and> \<not> ir_Inserted res \<and>
    (sw_Events W' = sw_Events W \<or> (\<exists>row err. es_Insert (id_Events deps) row (sw_Events W) = (Inl err, sw_Events W')))"
proof -
  obtain w1 where ix: "index_event (ou_Texts ou) deps (ou_Env ou (sw_Clock W)) ev body red ph (ingest_world W) = (res, w1)"
    and w: "w_Events w = w_Events w1" "w_DeadLetters w = w_DeadLetters w1"
    using assms(5) IngestMessage_accepted [OF assms(3), of "ou_Env ou (sw_Clock W)" "ingest_world W"]
    by (auto split: prod.splits)
  have "w_DeadLetters w1 = sw_DeadLetters W \<and> \<not> ir_Inserted res \<and>
      (w_Events w1 = sw_Events W \<or> (\<exists>row err. es_Insert (id_Events deps) row (sw_Events W) = (Inl err, w_Events w1)))"
    using ix
  proof (cases rule: index_event_cases)
    case (insert_called head ref p' row r s')
    then obtain err where "r = Inl err" "\<not> ir_Inserted res" using assms(6) by (cases r) auto
    moreover have "es_Insert (id_Events deps) row (sw_Events W) = (r, w_Events w1)" "w_DeadLetters w1 = sw_DeadLetters W"
      using insert_called(4,5,7) by (simp_all add: ingest_world_def)
    ultimately show ?thesis by blast
  qed (auto simp: ingest_world_def)
  moreover have "app_handler ou srv msg W = (None, W\<lparr>sw_Events := w_Events w, sw_Payloads := w_Payloads w,
      sw_DeadLetters := w_DeadLetters w, sw_Metrics := w_Metrics w, sw_Clock := Suc (sw_Clock W)\<rparr>)"
    using assms(5) by (simp add: app_handler_def assms(2,4))
  ultimately show ?thesis by (simp add: assms(1) handle_message_def w)
qed

text \<open>A server whose database cannot be read.\<close>

definition down_server :: "(mem_events, mem_anchors, mem_jobs, mem_dead_letters, fake, kafka_fake) server" where
  "down_server = sample_server\<lparr>srv_Stores := (memory_stores [])\<lparr>sa_Events :=
     mem_event_store\<lparr>es_ChainHead := (\<lambda>_. Inl (ErrMsg ''down''))\<rparr>\<rparr>\<rparr>"

lemma app_accepted:
  "accepted q (pipeline_deps fl uni srv r) the_message = Some (sample_envelope ''b'' the_ts, [], False, ZeroHash)"
proof -
  have "check_envelope q rd (sample_envelope ''b'' the_ts) = Inr (sample_envelope ''b'' the_ts, [], False, ZeroHash)" for rd
    using sample_hash_text
    by (simp add: check_envelope_def check_payload_hash_def redact_payload_def sample_envelope_def split: option.split)
  then show ?thesis by (simp add: accepted_def sample_decoded)
qed

definition one_message :: kafka_fake where
  "one_message = \<lparr>kf_feed = [sample_kafka], kf_buffer = 4, kf_stopped = False, kf_committed = []\<rparr>"

theorem failed_write_loses_message_witness:
  "\<exists>W'. Fake_Run (app_handler sample_outside down_server) [Receive] (one_message, start_world NewEventStore) =
      (None, one_message\<lparr>kf_feed := [], kf_committed := [7]\<rparr>, W') \<and> sw_DeadLetters W' = []"
proof -
  let ?W = "start_world NewEventStore"
  let ?deps = "pipeline_deps (ou_Float sample_outside) (ou_Lower sample_outside) down_server (sw_Redactor ?W)"
  let ?im = "\<lparr>im_Topic = km_Topic sample_kafka, im_Partition = km_Partition sample_kafka,
    im_Offset = km_Offset sample_kafka, im_Key = km_Key sample_kafka, im_Value = km_Value sample_kafka\<rparr>"
  have acc: "accepted q ?deps ?im = Some (sample_envelope ''b'' the_ts, [], False, ZeroHash)" for q
    using app_accepted [of q "ou_Float sample_outside" "ou_Lower sample_outside" down_server "sw_Redactor ?W"]
    by (simp add: accepted_def sample_kafka_def)
  obtain res w where run: "IngestMessage (ou_Texts sample_outside) ?deps (ou_Env sample_outside (sw_Clock ?W)) ?im
      (ingest_world ?W) = (res, w)"
    by (metis surj_pair)
  have "ir_Reason res \<noteq> ''''"
    using run unfolding IngestMessage_accepted [OF acc]
    by (auto simp: index_event_def pipeline_deps_def down_server_def Let_def)
  moreover have "kf_feed one_message = sample_kafka # []" by (simp add: one_message_def)
  ultimately have "\<exists>W'. Fake_Run (app_handler sample_outside down_server) [Receive] (one_message, ?W) =
      (None, one_message\<lparr>kf_feed := [], kf_committed := kf_committed one_message @ [km_Offset sample_kafka]\<rparr>, W') \<and>
    sw_DeadLetters W' = sw_DeadLetters ?W"
    using failed_write_loses_message [OF _ refl acc refl run, of one_message "[]"] by blast
  then show ?thesis by (simp add: one_message_def sample_kafka_def start_world_def)
qed

text \<open>
  The wiring falls back. \<^verbatim>\<open>Build\<close> fails exactly when the redaction policy cannot be loaded,
  with that error; otherwise an adapter whose constructor fails, or that is not configured, is
  replaced by its in-memory implementation, and the anchor job runs on the stores and with the
  signer that were chosen.
\<close>

theorem Build_falls_back:
  assumes "Build ct cfg = r"
  shows "(\<forall>err. r = Inl err \<longleftrightarrow> NewReloader (ct_Files ct) (cfg_RedactionPolicyPath cfg) = Inl err) \<and>
    (\<forall>srv. r = Inr srv \<longrightarrow>
      srv_Stores srv = (if cfg_DBURL cfg \<noteq> '''' \<and> is_ok (ct_Postgres ct (cfg_DBURL cfg))
        then projr (ct_Postgres ct (cfg_DBURL cfg)) else ct_Memory ct) \<and>
      srv_Payloads srv = (if cfg_PayloadBucket cfg \<noteq> '''' \<and> ct_Env ct ''AWS_REGION'' \<noteq> '''' \<and> is_ok (ct_S3 ct cfg)
        then projr (ct_S3 ct cfg) else ct_FakeS3 ct) \<and>
      srv_Consumer srv = (if cfg_KafkaBrokers cfg \<noteq> [] \<and> is_ok (ct_Kafka ct cfg)
        then projr (ct_Kafka ct cfg) else ct_FakeKafka ct 256) \<and>
      aj_Events (srv_AnchorJob srv) = sa_Events (srv_Stores srv) \<and> aj_Signer (srv_AnchorJob srv) = srv_Signer srv)"
proof (cases "NewReloader (ct_Files ct) (cfg_RedactionPolicyPath cfg)")
  case (Inl err)
  with assms have "r = Inl err" by (simp add: Build_def)
  with Inl show ?thesis by simp
next
  case (Inr rd)
  with assms obtain srv where r: "r = Inr srv" by (auto simp: Build_def Let_def)
  have "Build ct cfg = Inr srv" using assms r by simp
  then have "srv_Stores srv = (if cfg_DBURL cfg \<noteq> '''' then
        openPostgresOrFallback (ct_Postgres ct (cfg_DBURL cfg)) (ct_Memory ct) else ct_Memory ct)"
    and "srv_Payloads srv = adapter_or_fake (cfg_PayloadBucket cfg \<noteq> '''' \<and> ct_Env ct ''AWS_REGION'' \<noteq> '''')
        (ct_S3 ct cfg) (ct_FakeS3 ct)"
    and "srv_Consumer srv = adapter_or_fake (cfg_KafkaBrokers cfg \<noteq> []) (ct_Kafka ct cfg) (ct_FakeKafka ct 256)"
    and "aj_Events (srv_AnchorJob srv) = sa_Events (srv_Stores srv)" "aj_Signer (srv_AnchorJob srv) = srv_Signer srv"
    by (auto simp: Build_def Let_def Inr)
  with r Inr show ?thesis
    by (simp add: openPostgresOrFallback_def adapter_or_fake_def is_ok_def split: sum.split)
qed

theorem Build_falls_back_witness:
  "srv_Stores sample_server = memory_stores [] \<and> srv_Consumer sample_server = NewFakeConsumer 256"
  using Build_falls_back [OF sample_server_built(1)]
  by (auto simp: sample_constructors_def sample_config_def Load_def is_ok_def envOr_def splitCSV_def)

text \<open>
  Without a bucket no payload is kept. When \<^verbatim>\<open>PAYLOAD_BUCKET\<close> is not set, as in the default
  configuration, a message writes nothing to the object store, and the row that it inserts
  refers to no payload, whatever payload the message carries.
\<close>

theorem no_bucket_no_payload:
  assumes "Build ct cfg = Inr srv" and "cfg_PayloadBucket cfg = ''''"
    and "IngestMessage q (pipeline_deps fl uni srv rl) env msg w = (res, w')"
  shows "w_Payloads w' = w_Payloads w \<and> (\<forall>row. ir_Event res = Some row \<longrightarrow> PayloadRef row = '''')"
proof -
  let ?deps = "pipeline_deps fl uni srv rl"
  have put: "put_payload ?deps env k b p = (Inr '''', p)" for k b p
    using Build_wires(3) [OF assms(1)] assms(2) by (simp add: put_payload_def pipeline_deps_def)
  show ?thesis
  proof (cases "accepted q ?deps msg")
    case None
    then obtain reason svc label where "\<not> ir_Inserted res" "w_Payloads w' = w_Payloads w"
      using assms(3) by (elim IngestMessage_rejected [of q ?deps msg env w]) (auto simp: deadLetter_sel)
    moreover have "ir_Event res = None"
      using None assms(3) by (auto simp: accepted_def IngestMessage_def Let_def split: sum.splits prod.splits)
    ultimately show ?thesis by simp
  next
    case (Some x)
    obtain ev body red ph where x: "x = (ev, body, red, ph)" by (cases x)
    obtain w1 where ix: "index_event q ?deps env ev body red ph w = (res, w1)" and w': "w_Payloads w' = w_Payloads w1"
      using assms(3) IngestMessage_accepted [OF Some [unfolded x], of env w] by (auto split: prod.splits)
    from ix show ?thesis unfolding w'
      by (auto simp: index_event_def put Let_def split: sum.splits prod.splits bool.splits)
  qed
qed

theorem no_bucket_no_payload_witness:
  "w_Payloads (snd (IngestMessage plain_texts (pipeline_deps (\<lambda>_. None) id sample_server
     \<lparr>rl_policy = [], rl_path = ''''\<rparr>) sample_env the_message (world_of NewEventStore))) = NewFake"
  using no_bucket_no_payload [OF sample_server_built(1) _ prod.collapse [symmetric], of plain_texts "\<lambda>_. None" id
      "\<lparr>rl_policy = [], rl_path = ''''\<rparr>" sample_env the_message "world_of NewEventStore"]
  by (simp add: sample_config_def Load_def world_of_def)

end
