(* ===== verification/Postgres.thy ===== *)
theory Postgres
  imports Chain Export
begin

text \<open>
  internal/store/postgres: the store interfaces over a PostgreSQL database. The adapter is
  modelled as the code has it: the statements it sends, their parameters in order, and what it
  makes of the answers. The database is not part of the repository: it is the argument \<open>conn\<close>,
  and what the statements of the schema (internal/store/migrations) do is the locale
  \<open>audit_database\<close>, with an interpretation on tables held in lists. There the listing is proved
  to be that of the interface for filters whose times are whole microseconds, and what the
  column types do to other values is made explicit.
\<close>

section \<open>Statements\<close>

text \<open>A parameter or a column value. A Go string sent for a UUID column is a text.\<close>

datatype pg_cell = Txt string | Uid string | Tim time | Byt bytes | Bol bool | Num int | Nul

text \<open>
  The conditions that \<^verbatim>\<open>List\<close> appends to \<^verbatim>\<open>WHERE 1=1\<close>, with the number of their placeholder:
  \<^verbatim>\<open>ts >= $n\<close>, \<^verbatim>\<open>ts < $n\<close>, an equation of a column, and \<^verbatim>\<open>(ts, id) > ($n, $m)\<close>.
\<close>

datatype event_cmp = Ts_from | Ts_to | Eq_service | Eq_actor | Eq_action | Eq_target_type | Eq_target_id

datatype condition = Cmp event_cmp nat | After_key nat nat

datatype anchor_cmp = Anchored_from | Anchored_to

text \<open>One constructor per SQL text of the file, with what is formatted into it.\<close>

datatype statement =
    Insert_event
  | Select_event
  | Select_events "condition list" nat
  | Select_head
  | Update_hold
  | Update_anchored
  | Insert_anchor
  | Select_anchors "(anchor_cmp \<times> nat) list"
  | Select_anchor
  | Insert_job
  | Select_job
  | Update_job
  | Select_jobs
  | Insert_dead_letter
  | Select_dead_letters

text \<open>
  The connection pool: \<^verbatim>\<open>Exec\<close> returns the number of affected rows, \<^verbatim>\<open>Query\<close> the rows.
\<close>

record 'db pg_conn =
  pg_Exec :: "statement \<Rightarrow> pg_cell list \<Rightarrow> 'db \<Rightarrow> int result \<times> 'db"
  pg_Query :: "statement \<Rightarrow> pg_cell list \<Rightarrow> 'db \<Rightarrow> pg_cell list list result \<times> 'db"

text \<open>\<^verbatim>\<open>QueryRow\<close> and \<^verbatim>\<open>Scan\<close>: the first row, \<^verbatim>\<open>pgx.ErrNoRows\<close> or another error.\<close>

datatype row_result = NoRows | Row "pg_cell list" | RowErr go_error

definition QueryRow :: "'db pg_conn \<Rightarrow> statement \<Rightarrow> pg_cell list \<Rightarrow> 'db \<Rightarrow> row_result \<times> 'db" where
  "QueryRow conn q args s =
     (case pg_Query conn q args s of (r, s') \<Rightarrow>
       (case r of Inl err \<Rightarrow> RowErr err | Inr [] \<Rightarrow> NoRows | Inr (cells # _) \<Rightarrow> Row cells, s'))"

text \<open>The loop over \<^verbatim>\<open>rows.Next\<close>: every row is scanned, the first failure is returned.\<close>

fun scan_all :: "(pg_cell list \<Rightarrow> 'x result) \<Rightarrow> pg_cell list list \<Rightarrow> 'x list result" where
  "scan_all scan [] = Inr []"
| "scan_all scan (cells # rest) =
     (case scan cells of Inl err \<Rightarrow> Inl err
      | Inr x \<Rightarrow> (case scan_all scan rest of Inl err \<Rightarrow> Inl err | Inr xs \<Rightarrow> Inr (x # xs)))"

definition scan_error :: go_error where
  "scan_error = ErrMsg ''can't scan into dest''"

section \<open>Events\<close>

definition scanEvent :: "pg_cell list \<Rightarrow> event result" where
  "scanEvent cells =
     (case cells of
        [Uid i, Tim ts, Txt service, Txt actor, Txt action, Txt ttype, Txt tid,
         Byt ph, Txt ref, Byt prev, Byt this, Bol anchored, Bol hold, Bol red] \<Rightarrow>
          Inr \<lparr>ID = i, TS = ts, SourceService = service, ActorID = actor, Action = action,
               TargetType = ttype, TargetID = tid, PayloadHash = ph, PayloadRef = ref,
               PrevHash = prev, ThisHash = this, Anchored = anchored, LegalHold = hold, Redacted = red\<rparr>
      | _ \<Rightarrow> Inl scan_error)"

definition event_args :: "event \<Rightarrow> pg_cell list" where
  "event_args e =
     [Txt (ID e), Tim (TS e), Txt (SourceService e), Txt (ActorID e), Txt (Action e), Txt (TargetType e),
      Txt (TargetID e), Byt (PayloadHash e), Txt (PayloadRef e), Byt (PrevHash e), Byt (ThisHash e),
      Bol (Anchored e), Bol (LegalHold e), Bol (Redacted e)]"

definition pg_Insert :: "'db pg_conn \<Rightarrow> event \<Rightarrow> 'db \<Rightarrow> bool result \<times> 'db" where
  "pg_Insert conn e s =
     (case pg_Exec conn Insert_event (event_args e) s of
        (Inl err, s') \<Rightarrow> (Inl err, s')
      | (Inr n, s') \<Rightarrow> (Inr (n > 0), s'))"

definition pg_Get :: "'db pg_conn \<Rightarrow> string \<Rightarrow> 'db \<Rightarrow> event result" where
  "pg_Get conn i s =
     (case fst (QueryRow conn Select_event [Txt i] s) of
        RowErr err \<Rightarrow> Inl err
      | NoRows \<Rightarrow> Inl (StoreErrNotFound i)
      | Row cells \<Rightarrow> scanEvent cells)"

text \<open>
  The query builder of \<^verbatim>\<open>List\<close>: the conditions, the parameters, and the number \<open>n\<close> of the next
  placeholder. An optional condition takes the next number and appends its parameter.
\<close>

type_synonym 'c builder = "'c list \<times> pg_cell list \<times> nat"

definition add_cond :: "bool \<Rightarrow> (nat \<Rightarrow> 'c) \<Rightarrow> pg_cell \<Rightarrow> 'c builder \<Rightarrow> 'c builder" where
  "add_cond present cond arg st =
     (case st of (cs, args, n) \<Rightarrow> if present then (cs @ [cond n], args @ [arg], n + 1) else st)"

definition List_attrs :: "event_filter \<Rightarrow> condition builder" where
  "List_attrs f =
     (let st = ([], [], 1);
          st = add_cond (\<not> IsZero (f_From f)) (Cmp Ts_from) (Tim (f_From f)) st;
          st = add_cond (\<not> IsZero (f_To f)) (Cmp Ts_to) (Tim (f_To f)) st;
          st = add_cond (f_Service f \<noteq> '''') (Cmp Eq_service) (Txt (f_Service f)) st;
          st = add_cond (f_Actor f \<noteq> '''') (Cmp Eq_actor) (Txt (f_Actor f)) st;
          st = add_cond (f_Action f \<noteq> '''') (Cmp Eq_action) (Txt (f_Action f)) st;
          st = add_cond (f_TargetType f \<noteq> '''') (Cmp Eq_target_type) (Txt (f_TargetType f)) st
      in add_cond (f_TargetID f \<noteq> '''') (Cmp Eq_target_id) (Txt (f_TargetID f)) st)"

definition List_query :: "event_filter \<Rightarrow> condition list \<times> pg_cell list" where
  "List_query f =
     (case List_attrs f of (cs, args, n) \<Rightarrow>
       if \<not> IsZero (c_TS (f_Cursor f)) \<or> c_ID (f_Cursor f) \<noteq> ''''
       then (cs @ [After_key n (n + 1)], args @ [Tim (c_TS (f_Cursor f)), Txt (c_ID (f_Cursor f))])
       else (cs, args))"

text \<open>
  One row more than the limit is asked for; when it comes, the page is cut and the key of its
  last row is the next cursor.
\<close>

definition pg_List :: "'db pg_conn \<Rightarrow> event_filter \<Rightarrow> 'db \<Rightarrow> list_result result" where
  "pg_List conn f s =
     (let (cs, args) = List_query f; limit = page_limit f in
      case fst (pg_Query conn (Select_events cs (limit + 1)) args s) of
        Inl err \<Rightarrow> Inl err
      | Inr cells \<Rightarrow>
         (case scan_all scanEvent cells of
            Inl err \<Rightarrow> Inl err
          | Inr out \<Rightarrow> Inr
             (if length out > limit
              then \<lparr>lr_Events = take limit out, lr_NextCursor = Cursor (TS (out ! (limit - 1))) (ID (out ! (limit - 1)))\<rparr>
              else \<lparr>lr_Events = out, lr_NextCursor = no_cursor\<rparr>)))"

definition pg_ChainHead :: "'db pg_conn \<Rightarrow> 'db \<Rightarrow> event option result" where
  "pg_ChainHead conn s =
     (case fst (QueryRow conn Select_head [] s) of
        RowErr err \<Rightarrow> Inl err
      | NoRows \<Rightarrow> Inr None
      | Row cells \<Rightarrow> (case scanEvent cells of Inl err \<Rightarrow> Inl err | Inr e \<Rightarrow> Inr (Some e)))"

text \<open>\<^verbatim>\<open>Exec\<close> of an update of one row: no affected row is \<^verbatim>\<open>ErrNotFound\<close>.\<close>

definition exec_one :: "'db pg_conn \<Rightarrow> statement \<Rightarrow> pg_cell list \<Rightarrow> string \<Rightarrow> 'db \<Rightarrow> go_error option \<times> 'db" where
  "exec_one conn q args i s =
     (case pg_Exec conn q args s of
        (Inl err, s') \<Rightarrow> (Some err, s')
      | (Inr n, s') \<Rightarrow> (if n = 0 then Some (StoreErrNotFound i) else None, s'))"

definition pg_SetLegalHold :: "'db pg_conn \<Rightarrow> string \<Rightarrow> bool \<Rightarrow> 'db \<Rightarrow> go_error option \<times> 'db" where
  "pg_SetLegalHold conn i hold s = exec_one conn Update_hold [Txt i, Bol hold] i s"

definition pg_MarkAnchored :: "'db pg_conn \<Rightarrow> time \<Rightarrow> string \<Rightarrow> 'db \<Rightarrow> int result \<times> 'db" where
  "pg_MarkAnchored conn toTS toID s = pg_Exec conn Update_anchored [Tim toTS, Txt toID] s"

definition pg_event_store :: "'db pg_conn \<Rightarrow> 'db event_store" where
  "pg_event_store conn =
     \<lparr>es_Insert = pg_Insert conn, es_Get = pg_Get conn, es_List = pg_List conn, es_ChainHead = pg_ChainHead conn,
      es_SetLegalHold = pg_SetLegalHold conn, es_MarkAnchored = pg_MarkAnchored conn\<rparr>"

section \<open>Anchors\<close>

text \<open>A nullable column that is scanned through a pointer: NULL leaves the field's zero value.\<close>

definition scan_anchor :: "pg_cell list \<Rightarrow> anchor result" where
  "scan_anchor cells =
     (case cells of
        [Uid i, Tim anchored, Byt root, lastID, lastTS, Byt sig, Txt key, Txt url, Num n] \<Rightarrow>
          (case (case lastID of Nul \<Rightarrow> Some '''' | Uid u \<Rightarrow> Some u | _ \<Rightarrow> None,
                 case lastTS of Nul \<Rightarrow> Some 0 | Tim t \<Rightarrow> Some t | _ \<Rightarrow> None) of
             (Some u, Some t) \<Rightarrow> Inr \<lparr>an_ID = i, an_AnchoredAt = anchored, an_RootHash = root, an_LastEventID = u,
               an_LastEventTS = t, an_Signature = sig, an_KMSKeyID = key, an_NotaryURL = url, an_EventCount = n\<rparr>
           | _ \<Rightarrow> Inl scan_error)
      | _ \<Rightarrow> Inl scan_error)"

definition pg_InsertAnchor :: "'db pg_conn \<Rightarrow> op_env \<Rightarrow> anchor \<Rightarrow> 'db \<Rightarrow> string result \<times> 'db" where
  "pg_InsertAnchor conn env a s =
     (case QueryRow conn Insert_anchor
        [Uid (oe_UUID env), Tim (an_AnchoredAt a), Byt (an_RootHash a), Txt (an_LastEventID a), Tim (an_LastEventTS a),
         Byt (an_Signature a), Txt (an_KMSKeyID a), Txt (an_NotaryURL a), Num (an_EventCount a)] s of (row, s') \<Rightarrow>
       (case row of Row [Uid i] \<Rightarrow> Inr i | Row _ \<Rightarrow> Inl scan_error
        | NoRows \<Rightarrow> Inl (ErrMsg ''no rows in result set'') | RowErr err \<Rightarrow> Inl err, s'))"

definition ListAnchors_query :: "time \<Rightarrow> time \<Rightarrow> (anchor_cmp \<times> nat) builder" where
  "ListAnchors_query from_ts to_ts =
     add_cond (\<not> IsZero to_ts) (Pair Anchored_to) (Tim to_ts)
       (add_cond (\<not> IsZero from_ts) (Pair Anchored_from) (Tim from_ts) ([], [], 1))"

definition pg_ListAnchors :: "'db pg_conn \<Rightarrow> time \<Rightarrow> time \<Rightarrow> 'db \<Rightarrow> anchor list result" where
  "pg_ListAnchors conn from_ts to_ts s =
     (case ListAnchors_query from_ts to_ts of (cs, args, _) \<Rightarrow>
       (case fst (pg_Query conn (Select_anchors cs) args s) of
          Inl err \<Rightarrow> Inl err
        | Inr cells \<Rightarrow> scan_all scan_anchor cells))"

definition pg_GetAnchor :: "'db pg_conn \<Rightarrow> string \<Rightarrow> 'db \<Rightarrow> anchor result" where
  "pg_GetAnchor conn i s =
     (case fst (QueryRow conn Select_anchor [Txt i] s) of
        RowErr err \<Rightarrow> Inl err
      | NoRows \<Rightarrow> Inl (StoreErrNotFound i)
      | Row cells \<Rightarrow> scan_anchor cells)"

definition pg_anchor_store :: "'db pg_conn \<Rightarrow> 'db anchor_store" where
  "pg_anchor_store conn = \<lparr>as_InsertAnchor = pg_InsertAnchor conn, as_ListAnchors = pg_ListAnchors conn,
     as_GetAnchor = pg_GetAnchor conn\<rparr>"

section \<open>Export jobs\<close>

definition scan_job :: "pg_cell list \<Rightarrow> export_job result" where
  "scan_job cells =
     (case cells of
        [uid, Byt query, Txt format, Num days, Txt status, Num count, Txt ref, root, anchorID, Tim created, completed] \<Rightarrow>
          (case (case uid of Uid u \<Rightarrow> Some u | Nul \<Rightarrow> Some '''' | _ \<Rightarrow> None,
                 case root of Byt b \<Rightarrow> Some b | Nul \<Rightarrow> Some [] | _ \<Rightarrow> None,
                 case anchorID of Nul \<Rightarrow> Some '''' | Uid u \<Rightarrow> Some u | _ \<Rightarrow> None,
                 case completed of Nul \<Rightarrow> Some 0 | Tim t \<Rightarrow> Some t | _ \<Rightarrow> None) of
             (Some i, Some b, Some a, Some t) \<Rightarrow>
               Inr \<lparr>ej_ID = i, ej_Query = query, ej_Format = format, ej_RetentionDays = days, ej_Status = status,
                    ej_RowCount = count, ej_PayloadRef = ref, ej_ChainRoot = b, ej_AnchorID = a,
                    ej_CreatedAt = created, ej_CompletedAt = t\<rparr>
           | _ \<Rightarrow> Inl scan_error)
      | _ \<Rightarrow> Inl scan_error)"

definition pg_CreateJob :: "'db pg_conn \<Rightarrow> op_env \<Rightarrow> export_job \<Rightarrow> 'db \<Rightarrow> go_error option \<times> 'db" where
  "pg_CreateJob conn env j s =
     (case pg_Exec conn Insert_job
        [Txt (ej_ID j), Byt (ej_Query j), Txt (ej_Format j), Num (ej_RetentionDays j), Txt (ej_Status j),
         if \<not> IsZero (ej_CreatedAt j) then Tim (ej_CreatedAt j) else Nul] s of
        (Inl err, s') \<Rightarrow> (Some err, s')
      | (Inr _, s') \<Rightarrow> (None, s'))"

definition pg_GetJob :: "'db pg_conn \<Rightarrow> string \<Rightarrow> 'db \<Rightarrow> export_job result" where
  "pg_GetJob conn i s =
     (case fst (QueryRow conn Select_job [Txt i] s) of
        RowErr err \<Rightarrow> Inl err
      | NoRows \<Rightarrow> Inl (StoreErrNotFound i)
      | Row cells \<Rightarrow> scan_job cells)"

definition pg_UpdateJob :: "'db pg_conn \<Rightarrow> string \<Rightarrow> job_update \<Rightarrow> 'db \<Rightarrow> go_error option \<times> 'db" where
  "pg_UpdateJob conn i u s = exec_one conn Update_job
     [Txt i, Txt (ju_Status u), Num (ju_RowCount u), Txt (ju_PayloadRef u), Byt (ju_ChainRoot u),
      Txt (ju_AnchorID u), Tim (ju_CompletedAt u)] i s"

definition pg_ListJobs :: "'db pg_conn \<Rightarrow> int \<Rightarrow> 'db \<Rightarrow> export_job list result" where
  "pg_ListJobs conn limit s =
     (case fst (pg_Query conn Select_jobs [Num (if limit \<le> 0 then 100 else limit)] s) of
        Inl err \<Rightarrow> Inl err
      | Inr cells \<Rightarrow> scan_all scan_job cells)"

definition pg_export_job_store :: "'db pg_conn \<Rightarrow> 'db export_job_store" where
  "pg_export_job_store conn = \<lparr>js_CreateJob = pg_CreateJob conn, js_GetJob = pg_GetJob conn,
     js_UpdateJob = pg_UpdateJob conn, js_ListJobs = pg_ListJobs conn\<rparr>"

section \<open>Dead letters\<close>

definition scan_dead_letter :: "pg_cell list \<Rightarrow> dead_letter result" where
  "scan_dead_letter cells =
     (case cells of
        [Uid i, Txt topic, Num partition_no, Num offset, Txt key, Byt payload, Txt reason, Tim rejected] \<Rightarrow>
          Inr \<lparr>dl_ID = i, dl_Topic = topic, dl_Partition = partition_no, dl_Offset = offset, dl_Key = key,
               dl_Payload = payload, dl_Reason = reason, dl_RejectedAt = rejected\<rparr>
      | _ \<Rightarrow> Inl scan_error)"

definition pg_Append :: "'db pg_conn \<Rightarrow> op_env \<Rightarrow> dead_letter \<Rightarrow> 'db \<Rightarrow> go_error option \<times> 'db" where
  "pg_Append conn env dl s =
     (case pg_Exec conn Insert_dead_letter
        [Uid (oe_UUID env), Txt (dl_Topic dl), Num (dl_Partition dl), Num (dl_Offset dl), Txt (dl_Key dl),
         Byt (dl_Payload dl), Txt (dl_Reason dl)] s of
        (Inl err, s') \<Rightarrow> (Some err, s')
      | (Inr _, s') \<Rightarrow> (None, s'))"

definition pg_ListDeadLetters :: "'db pg_conn \<Rightarrow> int \<Rightarrow> 'db \<Rightarrow> dead_letter list result" where
  "pg_ListDeadLetters conn limit s =
     (case fst (pg_Query conn Select_dead_letters [Num (if limit \<le> 0 then 100 else limit)] s) of
        Inl err \<Rightarrow> Inl err
      | Inr cells \<Rightarrow> scan_all scan_dead_letter cells)"

definition pg_dead_letter_store :: "'db pg_conn \<Rightarrow> 'db dead_letter_store" where
  "pg_dead_letter_store conn = \<lparr>ds_Append = pg_Append conn, ds_List = pg_ListDeadLetters conn\<rparr>"

lemmas pg_store_defs = pg_event_store_def pg_anchor_store_def pg_export_job_store_def pg_dead_letter_store_def

section \<open>What the tables do\<close>

text \<open>
  The documented behaviour the adapter relies on. A \<^verbatim>\<open>TIMESTAMPTZ\<close> holds whole microseconds, and
  the driver cuts the rest off when it sends a time. A \<^verbatim>\<open>UUID\<close> accepts several spellings, refuses
  every other text, and prints one canonical form (\<open>uuid\<close>), whose order as a text is its order
  as a value. \<^verbatim>\<open>ON CONFLICT (id) DO NOTHING\<close> keeps the row that is there.
\<close>

definition pg_time :: "time \<Rightarrow> time" where
  "pg_time t = t div 1000 * 1000"

definition stored :: "(string \<Rightarrow> string option) \<Rightarrow> event \<Rightarrow> event option" where
  "stored uuid e = map_option (\<lambda>i. e\<lparr>ID := i, TS := pg_time (TS e)\<rparr>) (uuid (ID e))"

definition event_cells :: "event \<Rightarrow> pg_cell list" where
  "event_cells e =
     [Uid (ID e), Tim (TS e), Txt (SourceService e), Txt (ActorID e), Txt (Action e), Txt (TargetType e),
      Txt (TargetID e), Byt (PayloadHash e), Txt (PayloadRef e), Byt (PrevHash e), Byt (ThisHash e),
      Bol (Anchored e), Bol (LegalHold e), Bol (Redacted e)]"

fun cmp_holds :: "event_cmp \<Rightarrow> pg_cell \<Rightarrow> event \<Rightarrow> bool" where
  "cmp_holds Ts_from (Tim t) e \<longleftrightarrow> pg_time t \<le> TS e"
| "cmp_holds Ts_to (Tim t) e \<longleftrightarrow> TS e < pg_time t"
| "cmp_holds Eq_service (Txt v) e \<longleftrightarrow> SourceService e = v"
| "cmp_holds Eq_actor (Txt v) e \<longleftrightarrow> ActorID e = v"
| "cmp_holds Eq_action (Txt v) e \<longleftrightarrow> Action e = v"
| "cmp_holds Eq_target_type (Txt v) e \<longleftrightarrow> TargetType e = v"
| "cmp_holds Eq_target_id (Txt v) e \<longleftrightarrow> TargetID e = v"
| "cmp_holds _ _ e \<longleftrightarrow> False"

text \<open>Placeholders count from 1.\<close>

fun cond_holds :: "(string \<Rightarrow> string option) \<Rightarrow> pg_cell list \<Rightarrow> condition \<Rightarrow> event \<Rightarrow> bool" where
  "cond_holds uuid args (Cmp k n) e = cmp_holds k (args ! (n - 1)) e"
| "cond_holds uuid args (After_key n m) e =
     (case (args ! (n - 1), args ! (m - 1)) of
        (Tim t, Txt i) \<Rightarrow> (case uuid i of Some u \<Rightarrow> Cursor (pg_time t) u < ev_key e | None \<Rightarrow> False)
      | _ \<Rightarrow> False)"

text \<open>The placeholders, from 0, that stand for a UUID in a statement.\<close>

fun cond_uuid_params :: "condition \<Rightarrow> nat list" where
  "cond_uuid_params (After_key n m) = [m - 1]"
| "cond_uuid_params (Cmp k n) = []"

fun uuid_params :: "statement \<Rightarrow> nat list" where
  "uuid_params (Select_events cs k) = concat (map cond_uuid_params cs)"
| "uuid_params Update_anchored = [1]"
| "uuid_params Insert_anchor = [0, 3]"
| "uuid_params Update_job = [0, 5]"
| "uuid_params Select_head = []"
| "uuid_params (Select_anchors cs) = []"
| "uuid_params Select_jobs = []"
| "uuid_params Select_dead_letters = []"
| "uuid_params q = [0]"

locale audit_database =
  fixes conn :: "'db pg_conn" and uuid :: "string \<Rightarrow> string option"
    and inv :: "'db \<Rightarrow> bool" and rows :: "'db \<Rightarrow> event list"
  assumes rows_sorted: "inv s \<Longrightarrow> chain_sorted (rows s)"
    and rows_distinct: "inv s \<Longrightarrow> distinct (map ID (rows s))"
    and rows_stored: "inv s \<Longrightarrow> e \<in> set (rows s) \<Longrightarrow> stored uuid e = Some e"
    and bad_uuid: "inv s \<Longrightarrow> p \<in> set (uuid_params q) \<Longrightarrow> p < length args \<Longrightarrow> args ! p = Txt x \<Longrightarrow> uuid x = None \<Longrightarrow>
      (\<exists>err. pg_Exec conn q args s = (Inl err, s) \<and> pg_Query conn q args s = (Inl err, s))"
    and insert_effect: "inv s \<Longrightarrow> pg_Exec conn Insert_event (event_args e) s = (r, s') \<Longrightarrow> inv s' \<and>
      (case r of Inl _ \<Rightarrow> rows s' = rows s
       | Inr n \<Rightarrow> (case stored uuid e of None \<Rightarrow> False | Some e' \<Rightarrow>
           if ID e' \<in> ID ` set (rows s) then n = 0 \<and> rows s' = rows s
           else n = 1 \<and> rows s' = insort_key ev_key e' (rows s)))"
    and hold_effect: "inv s \<Longrightarrow> pg_Exec conn Update_hold [Txt i, Bol h] s = (r, s') \<Longrightarrow> inv s' \<and>
      (case r of Inl _ \<Rightarrow> rows s' = rows s
       | Inr n \<Rightarrow> (\<exists>u. uuid i = Some u \<and> rows s' = map (hold_row u h) (rows s) \<and>
           n = int (length (filter (\<lambda>e. ID e = u) (rows s)))))"
    and mark_effect: "inv s \<Longrightarrow> pg_Exec conn Update_anchored [Tim t, Txt i] s = (r, s') \<Longrightarrow> inv s' \<and>
      (case r of Inl _ \<Rightarrow> rows s' = rows s
       | Inr n \<Rightarrow> (\<exists>u. uuid i = Some u \<and> rows s' = map (mark_upto (Cursor (pg_time t) u)) (rows s) \<and>
           n = int (length (filter (\<lambda>e. ev_key e \<le> Cursor (pg_time t) u \<and> \<not> Anchored e) (rows s)))))"
    and select_events: "inv s \<Longrightarrow> pg_Query conn (Select_events cs k) args s = (Inr cells, s') \<Longrightarrow>
      cells = map event_cells (take k (filter (\<lambda>e. \<forall>c \<in> set cs. cond_holds uuid args c e) (rows s)))"
    and select_event: "inv s \<Longrightarrow> pg_Query conn Select_event [Txt i] s = (Inr cells, s') \<Longrightarrow>
      cells = map event_cells (filter (\<lambda>e. uuid i = Some (ID e)) (rows s))"
    and select_head: "inv s \<Longrightarrow> pg_Query conn Select_head [] s = (Inr cells, s') \<Longrightarrow>
      cells = (if rows s = [] then [] else [event_cells (last (rows s))])"

text \<open>A database that answers: the reads whose UUID parameters are well-formed do not fail.\<close>

locale reliable_database = audit_database +
  assumes query_answers: "inv s \<Longrightarrow> q \<in> {Select_event, Select_head} \<union> range (case_prod Select_events) \<Longrightarrow>
      (\<And>p. p \<in> set (uuid_params q) \<Longrightarrow> \<exists>x. p < length args \<and> args ! p = Txt x \<and> uuid x \<noteq> None) \<Longrightarrow> is_ok (fst (pg_Query conn q args s))"

section \<open>The query builder\<close>

text \<open>
  The builder keeps the placeholders in step with the parameters, so that the conditions it has
  gathered mean what was asked for.
\<close>

fun cond_below :: "nat \<Rightarrow> condition \<Rightarrow> bool" where
  "cond_below n (Cmp k m) \<longleftrightarrow> 0 < m \<and> m < n"
| "cond_below n (After_key a b) \<longleftrightarrow> False"

definition in_step :: "condition builder \<Rightarrow> bool" where
  "in_step st = (case st of (cs, args, n) \<Rightarrow> n = length args + 1 \<and> (\<forall>c \<in> set cs. cond_below n c))"

definition meaning :: "condition builder \<Rightarrow> event \<Rightarrow> bool" where
  "meaning st e = (case st of (cs, args, n) \<Rightarrow> \<forall>c \<in> set cs. cond_holds Some args c e)"

lemma cond_holds_append:
  "cond_below (length args + 1) c \<Longrightarrow> cond_holds uuid (args @ extra) c e = cond_holds uuid' args c e"
  by (cases c) (auto simp: nth_append)

lemma in_step_start [simp]: "in_step ([], [], 1)" "in_step ([], [], Suc 0)"
  "meaning ([], [], n) e"
  by (simp_all add: in_step_def meaning_def)

lemma add_cond_step [simp]:
  assumes "in_step st"
  shows "in_step (add_cond b (Cmp k) a st)"
    and "meaning (add_cond b (Cmp k) a st) e \<longleftrightarrow> meaning st e \<and> (b \<longrightarrow> cmp_holds k a e)"
proof -
  obtain cs args n where st: "st = (cs, args, n)" by (cases st)
  have n: "n = length args + 1" and below: "c \<in> set cs \<Longrightarrow> cond_below n c" for c
    using assms by (auto simp: in_step_def st)
  have "cond_below (Suc n) c" if "c \<in> set cs" for c using below [OF that] by (cases c) auto
  then show "in_step (add_cond b (Cmp k) a st)"
    using assms by (auto simp: in_step_def add_cond_def st n)
  have "cond_holds Some (args @ [a]) c e = cond_holds Some args c e" if "c \<in> set cs" for c
    using cond_holds_append below [OF that] n by blast
  then show "meaning (add_cond b (Cmp k) a st) e \<longleftrightarrow> meaning st e \<and> (b \<longrightarrow> cmp_holds k a e)"
    by (auto simp: meaning_def add_cond_def st n nth_append)
qed

definition whole_micros :: "time \<Rightarrow> bool" where
  "whole_micros t \<longleftrightarrow> t mod 1000 = 0"

lemma pg_time_whole [simp]: "whole_micros t \<Longrightarrow> pg_time t = t"
  by (auto simp: whole_micros_def pg_time_def)

lemma whole_pg_time [simp]: "whole_micros (pg_time t)"
  by (simp add: whole_micros_def pg_time_def)

text \<open>A filter whose times are whole microseconds and whose cursor is none or a key of the table.\<close>

definition exact_filter :: "(string \<Rightarrow> string option) \<Rightarrow> event_filter \<Rightarrow> bool" where
  "exact_filter uuid f \<longleftrightarrow> whole_micros (f_From f) \<and> whole_micros (f_To f) \<and> (f_Cursor f = no_cursor \<or>
     whole_micros (c_TS (f_Cursor f)) \<and> uuid (c_ID (f_Cursor f)) = Some (c_ID (f_Cursor f)))"

lemma List_attrs_meaning:
  assumes "whole_micros (f_From f)" and "whole_micros (f_To f)"
  shows "in_step (List_attrs f)" and "meaning (List_attrs f) e \<longleftrightarrow> selected f e"
  using assms by (auto simp: List_attrs_def Let_def selected_def in_window_def attrs_match_def)

lemma List_query_selects:
  assumes "exact_filter uuid f" and "List_query f = (cs, args)"
  shows "(\<forall>c \<in> set cs. cond_holds uuid args c e) \<longleftrightarrow> selected f e \<and> after_cursor (f_Cursor f) e"
    and "i \<in> set (uuid_params (Select_events cs k)) \<Longrightarrow> \<exists>t. i < length args \<and> args ! i = Txt t \<and> uuid t \<noteq> None"
proof -
  obtain cs' args' n where st: "List_attrs f = (cs', args', n)" by (cases "List_attrs f")
  have step: "in_step (cs', args', n)" and mean: "meaning (cs', args', n) e \<longleftrightarrow> selected f e"
    using List_attrs_meaning(1) [of f] List_attrs_meaning(2) [of f e] assms(1) by (auto simp: exact_filter_def st)
  have n: "n = length args' + 1" and below: "c \<in> set cs' \<Longrightarrow> cond_below (length args' + 1) c" for c
    using step by (auto simp: in_step_def)
  have old: "(\<forall>c \<in> set cs'. cond_holds uuid (args' @ extra) c e) \<longleftrightarrow> selected f e" for extra
    using cond_holds_append [OF below, where uuid' = Some] mean by (auto simp: meaning_def)
  have none: "cond_uuid_params c = []" if "c \<in> set cs'" for c
    using below [OF that] by (cases c) auto
  show "(\<forall>c \<in> set cs. cond_holds uuid args c e) \<longleftrightarrow> selected f e \<and> after_cursor (f_Cursor f) e"
  proof (cases "f_Cursor f = no_cursor")
    case True
    then have "cs = cs'" "args = args' @ []" using assms(2) by (auto simp: List_query_def st)
    then show ?thesis using old [of "[]"] True by (simp add: after_cursor_def)
  next
    case False
    then have q: "cs = cs' @ [After_key n (n + 1)]"
        "args = args' @ [Tim (c_TS (f_Cursor f)), Txt (c_ID (f_Cursor f))]"
      using assms(2) by (cases "f_Cursor f"; auto simp: List_query_def st)+
    have "cond_holds uuid args (After_key n (n + 1)) e \<longleftrightarrow> f_Cursor f < ev_key e"
      using assms(1) False by (simp add: q n nth_append exact_filter_def)
    then show ?thesis using old False by (auto simp: q after_cursor_def)
  qed
  show "\<exists>t. i < length args \<and> args ! i = Txt t \<and> uuid t \<noteq> None" if "i \<in> set (uuid_params (Select_events cs k))"
  proof -
    have "i \<in> set (concat (map cond_uuid_params cs))" using that by simp
    then obtain c where c: "c \<in> set cs" "i \<in> set (cond_uuid_params c)" by auto
    with none have "c \<notin> set cs'" by auto
    with c assms(2) have "f_Cursor f \<noteq> no_cursor" "i = Suc (length args')"
        "args = args' @ [Tim (c_TS (f_Cursor f)), Txt (c_ID (f_Cursor f))]"
      by (auto simp: List_query_def st n split: if_splits)
    then show ?thesis using assms(1) by (auto simp: exact_filter_def nth_append)
  qed
qed

section \<open>The event store over the tables\<close>

lemma scanEvent_cells [simp]: "scanEvent (event_cells e) = Inr e"
  by (simp add: scanEvent_def event_cells_def)

lemma scan_all_cells [simp]: "scan_all scanEvent (map event_cells es) = Inr es"
  by (induction es) auto

lemma exact_filter_start: "whole_micros t \<Longrightarrow> whole_micros t' \<Longrightarrow> exact_filter uuid (zero_filter\<lparr>f_From := t, f_To := t', f_Limit := n\<rparr>)"
  by (simp add: exact_filter_def zero_filter_def)

lemma distinct_id_filter:
  "distinct (map ID es) \<Longrightarrow> e \<in> set es \<Longrightarrow> filter (\<lambda>x. ID x = ID e) es = [e]"
proof (induction es)
  case (Cons x es)
  show ?case
  proof (cases "e = x")
    case True
    with Cons.prems have "ID y \<noteq> ID e" if "y \<in> set es" for y using that by (metis distinct.simps(2) image_eqI list.set_map list.simps(9))
    with True show ?thesis by (auto simp: filter_empty_conv)
  next
    case False
    with Cons show ?thesis by auto
  qed
qed simp

context audit_database
begin

lemma rows_canonical:
  assumes "inv s" and "e \<in> set (rows s)"
  shows "uuid (ID e) = Some (ID e)" and "whole_micros (TS e)"
proof -
  obtain i where "uuid (ID e) = Some i" "e\<lparr>ID := i, TS := pg_time (TS e)\<rparr> = e"
    using rows_stored [OF assms] by (auto simp: stored_def)
  then have "i = ID e" "pg_time (TS e) = TS e" by (metis event.select_convs(1) event.surjective event.update_convs(1,2), metis event.select_convs(2) event.surjective event.update_convs(1,2))
  with \<open>uuid (ID e) = Some i\<close> show "uuid (ID e) = Some (ID e)" and "whole_micros (TS e)"
    by (simp, metis whole_pg_time)
qed

text \<open>An insertion fails and changes nothing, finds the id, or adds the row in its stored form.\<close>

lemma pg_Insert_cases:
  assumes "inv s" and "pg_Insert conn e s = (r, s')"
  obtains (failed) err where "r = Inl err" "inv s'" "rows s' = rows s"
  | (known) e' where "r = Inr False" "inv s'" "stored uuid e = Some e'" "ID e' \<in> ID ` set (rows s)" "rows s' = rows s"
  | (new) e' where "r = Inr True" "inv s'" "stored uuid e = Some e'" "ID e' \<notin> ID ` set (rows s)"
      "rows s' = insort_key ev_key e' (rows s)"
proof -
  obtain r0 where run: "pg_Exec conn Insert_event (event_args e) s = (r0, s')"
    and r: "r = (case r0 of Inl err \<Rightarrow> Inl err | Inr n \<Rightarrow> Inr (0 < n))"
    using assms(2) by (auto simp: pg_Insert_def split: prod.splits sum.splits)
  from insert_effect [OF assms(1) run] show thesis
    by (cases r0) (auto simp: r split: if_splits option.splits intro: failed known new)
qed

lemma pg_Get_found:
  assumes "inv s" and "pg_Get conn i s = Inr e"
  shows "e \<in> set (rows s) \<and> uuid i = Some (ID e)"
proof -
  obtain c cs s' where run: "pg_Query conn Select_event [Txt i] s = (Inr (c # cs), s')" and e: "scanEvent c = Inr e"
    using assms(2) by (auto simp: pg_Get_def QueryRow_def split: prod.splits sum.splits list.splits)
  from select_event [OF assms(1) run] obtain x where "c = event_cells x" "x \<in> set (rows s)" "uuid i = Some (ID x)"
    by (auto simp: Cons_eq_map_conv filter_eq_Cons_iff)
  with e show ?thesis by simp
qed

lemma pg_Get_stored:
  assumes "inv s" and "e \<in> set (rows s)" and "is_ok (fst (pg_Query conn Select_event [Txt i] s))" and "uuid i = Some (ID e)"
  shows "pg_Get conn i s = Inr e"
proof -
  obtain cells s' where run: "pg_Query conn Select_event [Txt i] s = (Inr cells, s')"
    using assms(3) by (cases "pg_Query conn Select_event [Txt i] s") (auto simp: is_ok_def split: sum.splits)
  have "cells = map event_cells (filter (\<lambda>x. ID x = ID e) (rows s))"
    using select_event [OF assms(1) run] assms(4) by (simp add: eq_commute)
  then have "cells = [event_cells e]"
    by (simp add: distinct_id_filter [OF rows_distinct [OF assms(1)] assms(2)])
  then show ?thesis by (simp add: pg_Get_def QueryRow_def run)
qed

lemma pg_ChainHead_last:
  assumes "inv s" and "pg_ChainHead conn s = Inr h"
  shows "h = (if rows s = [] then None else Some (last (rows s)))"
proof -
  obtain cells s' where run: "pg_Query conn Select_head [] s = (Inr cells, s')"
    using assms(2) by (auto simp: pg_ChainHead_def QueryRow_def split: prod.splits sum.splits)
  show ?thesis
    using assms(2) select_head [OF assms(1) run] by (auto simp: pg_ChainHead_def QueryRow_def run split: if_splits)
qed

lemma pg_SetLegalHold_rows:
  assumes "inv s" and "pg_SetLegalHold conn i h s = (hr, s')"
  shows "inv s' \<and> (rows s' = rows s \<or> (\<exists>u. uuid i = Some u \<and> rows s' = map (hold_row u h) (rows s)))"
  using assms(2) hold_effect [OF assms(1), of i h]
  by (auto simp: pg_SetLegalHold_def exec_one_def split: prod.splits sum.splits)

lemma pg_MarkAnchored_rows:
  assumes "inv s" and "pg_MarkAnchored conn t i s = (mr, s')"
  shows "inv s' \<and> (rows s' = rows s \<or> (\<exists>u. uuid i = Some u \<and> rows s' = map (mark_upto (Cursor (pg_time t) u)) (rows s)))"
  using assms(2) mark_effect [OF assms(1), of t i] by (auto simp: pg_MarkAnchored_def split: sum.splits)

text \<open>With the look-ahead row the page is cut at the limit and carries the key to go on from.\<close>

lemma pg_List_page:
  assumes "inv s" and "exact_filter uuid f" and "pg_List conn f s = Inr res"
    and sel: "sel = filter (\<lambda>e. selected f e \<and> after_cursor (f_Cursor f) e) (rows s)"
  shows "lr_Events res = take (page_limit f) sel"
    and "lr_NextCursor res = (if page_limit f < length sel then ev_key (sel ! (page_limit f - 1)) else no_cursor)"
proof -
  obtain cs args where q: "List_query f = (cs, args)" by (cases "List_query f")
  obtain cells s' where run: "pg_Query conn (Select_events cs (page_limit f + 1)) args s = (Inr cells, s')"
    using assms(3) by (cases "pg_Query conn (Select_events cs (page_limit f + 1)) args s")
      (auto simp: pg_List_def q Let_def split: sum.splits)
  have cells: "cells = map event_cells (take (page_limit f + 1) sel)"
    using select_events [OF assms(1) run] List_query_selects(1) [OF assms(2) q] by (simp add: sel)
  note run' = run [folded Suc_eq_plus1]
  have res: "res = (if length (take (page_limit f + 1) sel) > page_limit f
      then \<lparr>lr_Events = take (page_limit f) sel, lr_NextCursor = ev_key (sel ! (page_limit f - 1))\<rparr>
      else \<lparr>lr_Events = sel, lr_NextCursor = no_cursor\<rparr>)"
    using assms(3) by (auto simp: pg_List_def q Let_def run' cells ev_key_def min_def split: if_splits)
  show "lr_Events res = take (page_limit f) sel"
    and "lr_NextCursor res = (if page_limit f < length sel then ev_key (sel ! (page_limit f - 1)) else no_cursor)"
    by (auto simp: res)
qed

text \<open>A text that is no UUID in a UUID column: the statement is refused.\<close>

lemma refused:
  assumes "inv s" and "p \<in> set (uuid_params q)" and "p < length args" and "args ! p = Txt x" and "uuid x = None"
  obtains err where "pg_Exec conn q args s = (Inl err, s)" "pg_Query conn q args s = (Inl err, s)"
  using bad_uuid [OF assms] by blast

lemma pg_UpdateJob_refused:
  assumes "inv s" and "uuid (ju_AnchorID u) = None"
  shows "\<exists>err. pg_UpdateJob conn i u s = (Some err, s)"
proof (rule refused [OF assms(1) _ _ _ assms(2), of 5 Update_job "[Txt i, Txt (ju_Status u), Num (ju_RowCount u),
    Txt (ju_PayloadRef u), Byt (ju_ChainRoot u), Txt (ju_AnchorID u), Tim (ju_CompletedAt u)]"])
qed (auto simp: pg_UpdateJob_def exec_one_def)

lemma pg_InsertAnchor_refused:
  assumes "inv s" and "uuid (an_LastEventID a) = None"
  shows "\<exists>err. pg_InsertAnchor conn env a s = (Inl err, s)"
proof (rule refused [OF assms(1) _ _ _ assms(2), of 3 Insert_anchor "[Uid (oe_UUID env), Tim (an_AnchoredAt a),
    Byt (an_RootHash a), Txt (an_LastEventID a), Tim (an_LastEventTS a), Byt (an_Signature a), Txt (an_KMSKeyID a),
    Txt (an_NotaryURL a), Num (an_EventCount a)]"])
qed (auto simp: pg_InsertAnchor_def QueryRow_def)

end

section \<open>The contracts of the adapter\<close>

text \<open>
  Over a database that answers, the adapter keeps the listing laws of the interface for exact
  filters, so the pagination of the sweep and of the export is complete over it, too; and its
  mutators keep the rows.
\<close>

sublocale reliable_database \<subseteq> event_listing "pg_event_store conn" inv rows "exact_filter uuid"
proof
  fix s
  assume "inv s"
  then show "chain_sorted (rows s)" by (rule rows_sorted)
next
  fix s f res and sel :: "event list"
  assume a: "inv s" "exact_filter uuid f" "es_List (pg_event_store conn) f s = Inr res"
    and sel: "sel = filter (\<lambda>e. selected f e \<and> after_cursor (f_Cursor f) e) (rows s)"
  from a(3) have l: "pg_List conn f s = Inr res" by (simp add: pg_event_store_def)
  have pos: "0 < page_limit f" by simp
  show "lr_Events res = take (page_limit f) sel \<and>
      (lr_NextCursor res = no_cursor \<and> length sel \<le> page_limit f \<or>
       sel \<noteq> [] \<and> lr_NextCursor res = ev_key (last (lr_Events res)))"
  proof (cases "page_limit f < length sel")
    case True
    then have "last (take (page_limit f) sel) = sel ! (page_limit f - 1)"
      using pos by (subst last_conv_nth) (auto simp: min_def)
    with True show ?thesis using pg_List_page [OF a(1,2) l sel] by auto
  next
    case False
    then show ?thesis using pg_List_page [OF a(1,2) l sel] by auto
  qed
next
  fix s f
  assume a: "inv s" "exact_filter uuid f"
  obtain cs args where q: "List_query f = (cs, args)" by (cases "List_query f")
  have "is_ok (fst (pg_Query conn (Select_events cs (page_limit f + 1)) args s))"
    using List_query_selects(2) [OF a(2) q] by (intro query_answers [OF a(1)]) auto
  then obtain cells s' where run: "pg_Query conn (Select_events cs (page_limit f + 1)) args s = (Inr cells, s')"
    by (cases "pg_Query conn (Select_events cs (page_limit f + 1)) args s") (auto simp: is_ok_def split: sum.splits)
  note run' = run [folded Suc_eq_plus1]
  from select_events [OF a(1) run] obtain es where "cells = map event_cells es" by blast
  then show "is_ok (es_List (pg_event_store conn) f s)"
    by (simp add: pg_event_store_def pg_List_def q Let_def run')
next
  fix s f e
  assume "inv s" "exact_filter uuid f" "e \<in> set (rows s)"
  with rows_canonical show "exact_filter uuid (f\<lparr>f_Cursor := ev_key e\<rparr>)"
    by (simp add: exact_filter_def)
qed

sublocale audit_database \<subseteq> append_only_store "pg_event_store conn" inv rows
proof
  fix s s' e r
  assume a: "inv s" "es_Insert (pg_event_store conn) e s = (r, s')"
  then have "pg_Insert conn e s = (r, s')" by (simp add: pg_event_store_def)
  from a(1) this show "inv s' \<and> (\<forall>x \<in> set (rows s). row_kept (rows s') x)"
    by (cases rule: pg_Insert_cases) (auto simp: row_kept_self set_insort_key)
next
  fix s s' i h hr
  assume a: "inv s" "es_SetLegalHold (pg_event_store conn) i h s = (hr, s')"
  then show "inv s' \<and> (\<forall>x \<in> set (rows s). row_kept (rows s') x)"
    using pg_SetLegalHold_rows [of s i h hr s']
    by (auto simp: pg_event_store_def row_kept_self hold_row_keeps)
next
  fix s s' t i mr
  assume a: "inv s" "es_MarkAnchored (pg_event_store conn) t i s = (mr, s')"
  then show "inv s' \<and> (\<forall>x \<in> set (rows s). row_kept (rows s') x)"
    using pg_MarkAnchored_rows [of s t i mr s']
    by (auto simp: pg_event_store_def row_kept_self mark_upto_keeps)
qed

text \<open>
  A chain over Postgres: an id is canonical or refused, and the time of an event that is not
  refused is in whole microseconds.
\<close>

definition exact_key :: "(string \<Rightarrow> string option) \<Rightarrow> cursor \<Rightarrow> bool" where
  "exact_key uuid c \<longleftrightarrow> (case uuid (c_ID c) of None \<Rightarrow> True | Some u \<Rightarrow> u = c_ID c \<and> whole_micros (c_TS c))"

lemma stored_exact: "exact_key uuid (ev_key e) \<Longrightarrow> stored uuid e = Some e' \<Longrightarrow> e' = e"
  by (auto simp: exact_key_def stored_def ev_key_def)

sublocale audit_database \<subseteq> chain_store "pg_event_store conn" inv rows "exact_key uuid"
proof
  fix s s' e r
  assume a: "inv s" "exact_key uuid (ev_key e)" "es_Insert (pg_event_store conn) e s = (r, s')"
  then have "pg_Insert conn e s = (r, s')" by (simp add: pg_event_store_def)
  from a(1) this
  show "inv s' \<and> (rows s' = rows s \<or> ID e \<notin> ID ` set (rows s) \<and> rows s' = insort_key ev_key e (rows s))"
    by (cases rule: pg_Insert_cases) (auto dest: stored_exact [OF a(2)])
next
  fix s h
  assume "inv s" "es_ChainHead (pg_event_store conn) s = Inr h"
  then show "h = (if rows s = [] then None else Some (last (rows s)))"
    using pg_ChainHead_last by (simp add: pg_event_store_def)
qed

section \<open>Tables held in a list\<close>

text \<open>
  An instance of the contract: the event table as its rows in chain order, UUIDs in the
  8-4-4-4-12 form in either case. Statements on the other tables fail here, as they do when a
  table is missing.
\<close>

definition uuid_digit :: "char \<Rightarrow> bool" where
  "uuid_digit c \<longleftrightarrow> c \<in> set ''0123456789abcdefABCDEF''"

definition lower_hex :: "char \<Rightarrow> char" where
  "lower_hex c = (case map_of (zip ''ABCDEF'' ''abcdef'') c of Some d \<Rightarrow> d | None \<Rightarrow> c)"

definition list_uuid :: "string \<Rightarrow> string option" where
  "list_uuid s =
     (if length s = 36 \<and> list_all (\<lambda>i. if i \<in> {8, 13, 18, 23} then s ! i = CHR ''-'' else uuid_digit (s ! i)) [0..<36]
      then Some (map lower_hex s) else None)"

definition has_bad_uuid :: "statement \<Rightarrow> pg_cell list \<Rightarrow> bool" where
  "has_bad_uuid q args = list_ex (\<lambda>p. p < length args \<and>
     (case args ! p of Txt x \<Rightarrow> list_uuid x = None | _ \<Rightarrow> False)) (uuid_params q)"

definition list_missing :: go_error where
  "list_missing = ErrMsg ''relation does not exist''"

definition list_insert :: "pg_cell list \<Rightarrow> event list \<Rightarrow> int result \<times> event list" where
  "list_insert args s =
     (case args of Txt i # rest \<Rightarrow>
        (case scanEvent (Uid i # rest) of
           Inl err \<Rightarrow> (Inl err, s)
         | Inr e \<Rightarrow> (case stored list_uuid e of
             None \<Rightarrow> (Inl list_missing, s)
           | Some e' \<Rightarrow> if ID e' \<in> ID ` set s then (Inr 0, s) else (Inr 1, insort_key ev_key e' s)))
      | _ \<Rightarrow> (Inl list_missing, s))"

definition list_exec :: "statement \<Rightarrow> pg_cell list \<Rightarrow> event list \<Rightarrow> int result \<times> event list" where
  "list_exec q args s =
     (if has_bad_uuid q args then (Inl (ErrMsg ''invalid input syntax for type uuid''), s)
      else case (q, args) of
        (Insert_event, _) \<Rightarrow> list_insert args s
      | (Update_hold, [Txt i, Bol h]) \<Rightarrow>
          (let u = the (list_uuid i) in (Inr (int (length (filter (\<lambda>e. ID e = u) s))), map (hold_row u h) s))
      | (Update_anchored, [Tim t, Txt i]) \<Rightarrow>
          (let c = Cursor (pg_time t) (the (list_uuid i)) in
           (Inr (int (length (filter (\<lambda>e. ev_key e \<le> c \<and> \<not> Anchored e) s))), map (mark_upto c) s))
      | _ \<Rightarrow> (Inl list_missing, s))"

definition list_query :: "statement \<Rightarrow> pg_cell list \<Rightarrow> event list \<Rightarrow> pg_cell list list result \<times> event list" where
  "list_query q args s =
     (if has_bad_uuid q args then (Inl (ErrMsg ''invalid input syntax for type uuid''), s)
      else (case (q, args) of
        (Select_events cs k, _) \<Rightarrow>
          Inr (map event_cells (take k (filter (\<lambda>e. \<forall>c \<in> set cs. cond_holds list_uuid args c e) s)))
      | (Select_event, Txt i # _) \<Rightarrow> Inr (map event_cells (filter (\<lambda>e. list_uuid i = Some (ID e)) s))
      | (Select_head, _) \<Rightarrow> Inr (if s = [] then [] else [event_cells (last s)])
      | _ \<Rightarrow> Inl list_missing, s))"

definition list_conn :: "event list pg_conn" where
  "list_conn = \<lparr>pg_Exec = list_exec, pg_Query = list_query\<rparr>"

definition list_inv :: "event list \<Rightarrow> bool" where
  "list_inv s \<longleftrightarrow> chain_sorted s \<and> distinct (map ID s) \<and> (\<forall>e \<in> set s. stored list_uuid e = Some e)"

lemma lower_hex_props:
  "uuid_digit c \<Longrightarrow> uuid_digit (lower_hex c)" "lower_hex (lower_hex c) = lower_hex c" "lower_hex CHR ''-'' = CHR ''-''"
  by (auto simp: uuid_digit_def lower_hex_def)

lemma list_uuid_idem: "list_uuid s = Some u \<Longrightarrow> list_uuid u = Some u"
proof -
  assume "list_uuid s = Some u"
  then have s: "length s = 36" "u = map lower_hex s"
      "\<And>i. i < 36 \<Longrightarrow> if i \<in> {8, 13, 18, 23} then s ! i = CHR ''-'' else uuid_digit (s ! i)"
    by (auto simp: list_uuid_def list_all_iff split: if_splits)
  have "if i \<in> {8, 13, 18, 23} then u ! i = CHR ''-'' else uuid_digit (u ! i)" if "i < 36" for i
    using s(3) [OF that] that s(1) by (auto simp: s(2) lower_hex_props split: if_splits)
  moreover have "length u = 36" "map lower_hex u = u" by (simp_all add: s lower_hex_props comp_def)
  ultimately show "list_uuid u = Some u" by (simp add: list_uuid_def list_all_iff)
qed

lemma stored_idem:
  assumes "stored list_uuid e = Some e'"
  shows "stored list_uuid e' = Some e'"
  using assms list_uuid_idem by (auto simp: stored_def)

lemma has_bad_uuidI:
  "p \<in> set (uuid_params q) \<Longrightarrow> p < length args \<Longrightarrow> args ! p = Txt x \<Longrightarrow> list_uuid x = None \<Longrightarrow> has_bad_uuid q args"
  by (force simp: has_bad_uuid_def list_ex_iff)

lemma list_inv_insert:
  assumes "list_inv s" and "stored list_uuid e = Some e'" and "ID e' \<notin> ID ` set s"
  shows "list_inv (insort_key ev_key e' s)"
proof -
  have "ev_key e' \<notin> ev_key ` set s" using assms(3) by (auto simp: ev_key_def)
  then have "chain_sorted (insort_key ev_key e' s)"
    using assms(1) by (intro sorted_wrt_insort_key) (simp_all add: list_inv_def)
  moreover have "distinct (map ID (insort_key ev_key e' s))"
    using assms(1,3) insort_key_split [of s ev_key e'] by (auto simp: list_inv_def)
  ultimately show ?thesis
    using assms(1) stored_idem [OF assms(2)] by (auto simp: list_inv_def set_insort_key)
qed

lemma list_inv_map:
  assumes "list_inv s" and "\<And>e. ev_key (f e) = ev_key e" and "\<And>e. stored list_uuid e = Some e \<Longrightarrow> stored list_uuid (f e) = Some (f e)"
  shows "list_inv (map f s)"
proof -
  have "ID (f e) = ID e" for e using assms(2) [of e] by (simp add: ev_key_def)
  then show ?thesis
    using assms by (auto simp: list_inv_def sorted_wrt_map comp_def)
qed

lemma flags_stored [simp]:
  "ev_key (hold_row u h e) = ev_key e" "ev_key (mark_upto c e) = ev_key e"
  "stored list_uuid e = Some e \<Longrightarrow> stored list_uuid (hold_row u h e) = Some (hold_row u h e)"
  "stored list_uuid e = Some e \<Longrightarrow> stored list_uuid (mark_upto c e) = Some (mark_upto c e)"
  by (auto simp: hold_row_def mark_upto_def ev_key_def stored_def) (metis event.surjective event.update_convs)+

lemma list_conn_simps [simp]: "pg_Exec list_conn = list_exec" "pg_Query list_conn = list_query"
  by (simp_all add: list_conn_def)

lemma list_insert_event:
  "list_insert (event_args e) s = (case stored list_uuid e of
      None \<Rightarrow> (Inl list_missing, s)
    | Some e' \<Rightarrow> if ID e' \<in> ID ` set s then (Inr 0, s) else (Inr 1, insort_key ev_key e' s))"
proof -
  obtain rest where "event_args e = Txt (ID e) # rest" "scanEvent (Uid (ID e) # rest) = Inr e"
    by (simp add: event_args_def scanEvent_def)
  then show ?thesis by (simp add: list_insert_def)
qed

interpretation tables: reliable_database list_conn list_uuid list_inv "\<lambda>s. s"
proof
  fix s s' :: "event list" and e r
  assume a: "list_inv s" "pg_Exec list_conn Insert_event (event_args e) s = (r, s')"
  then have run: "list_exec Insert_event (event_args e) s = (r, s')" by simp
  show "list_inv s' \<and> (case r of Inl _ \<Rightarrow> s' = s
       | Inr n \<Rightarrow> (case stored list_uuid e of None \<Rightarrow> False | Some e' \<Rightarrow>
           if ID e' \<in> ID ` set s then n = 0 \<and> s' = s else n = 1 \<and> s' = insort_key ev_key e' s))"
  proof (cases "stored list_uuid e")
    case None
    with run a(1) show ?thesis by (auto simp: list_exec_def list_insert_event split: if_splits)
  next
    case (Some e')
    with run a(1) list_inv_insert [OF a(1) Some] show ?thesis
      by (auto simp: list_exec_def list_insert_event split: if_splits)
  qed
next
  fix s s' :: "event list" and i h r
  assume a: "list_inv s" "pg_Exec list_conn Update_hold [Txt i, Bol h] s = (r, s')"
  then show "list_inv s' \<and> (case r of Inl _ \<Rightarrow> s' = s
     | Inr n \<Rightarrow> (\<exists>u. list_uuid i = Some u \<and> s' = map (hold_row u h) s \<and> n = int (length (filter (\<lambda>e. ID e = u) s))))"
    using list_inv_map [OF a(1), of "hold_row (the (list_uuid i)) h"]
    by (auto simp: list_exec_def has_bad_uuid_def split: if_splits)
next
  fix s s' :: "event list" and i t r
  assume a: "list_inv s" "pg_Exec list_conn Update_anchored [Tim t, Txt i] s = (r, s')"
  then show "list_inv s' \<and> (case r of Inl _ \<Rightarrow> s' = s
     | Inr n \<Rightarrow> (\<exists>u. list_uuid i = Some u \<and> s' = map (mark_upto (Cursor (pg_time t) u)) s \<and>
         n = int (length (filter (\<lambda>e. ev_key e \<le> Cursor (pg_time t) u \<and> \<not> Anchored e) s))))"
    using list_inv_map [OF a(1), of "mark_upto (Cursor (pg_time t) (the (list_uuid i)))"]
    by (auto simp: list_exec_def has_bad_uuid_def Let_def split: if_splits)
next
  fix s :: "event list" and p q args x
  assume "p \<in> set (uuid_params q)" "p < length args" "args ! p = Txt x" "list_uuid x = None"
  from has_bad_uuidI [OF this]
  show "\<exists>err. pg_Exec list_conn q args s = (Inl err, s) \<and> pg_Query list_conn q args s = (Inl err, s)"
    by (simp add: list_exec_def list_query_def)
next
  fix s :: "event list" and q args
  assume q: "q \<in> {Select_event, Select_head} \<union> range (case_prod Select_events)"
    and ok: "\<And>p. p \<in> set (uuid_params q) \<Longrightarrow> \<exists>x. p < length args \<and> args ! p = Txt x \<and> list_uuid x \<noteq> None"
  have "\<not> (case args ! p of Txt x \<Rightarrow> list_uuid x = None | _ \<Rightarrow> False)" if "p \<in> set (uuid_params q)" for p
    using ok [OF that] by auto
  then have fine: "\<not> has_bad_uuid q args" by (auto simp: has_bad_uuid_def list_ex_iff)
  show "is_ok (fst (pg_Query list_conn q args s))"
  proof (cases "q = Select_event")
    case True
    with ok [of 0] obtain i rest where "args = Txt i # rest" by (cases args) auto
    with True fine show ?thesis by (simp add: list_query_def)
  next
    case False
    with q fine show ?thesis by (auto simp: list_query_def)
  qed
qed (auto simp: list_inv_def list_query_def split: if_splits)

section \<open>Properties\<close>

context audit_database
begin

lemma pg_rows_survive:
  "store_reach (pg_event_store conn) s s' \<Longrightarrow> inv s \<Longrightarrow> e \<in> set (rows s) \<Longrightarrow> row_kept (rows s') e"
  by (rule store_reach_append_only)

lemma pg_chain_store: "chain_store (pg_event_store conn) inv rows (exact_key uuid)"
  by (rule chain_store_axioms)

end

context reliable_database
begin

lemma pg_listing: "event_listing (pg_event_store conn) inv rows (exact_filter uuid)"
  by (rule event_listing_axioms)

lemma pg_Sweep:
  assumes "inv s" and "whole_micros f" and "whole_micros t" and "\<forall>e \<in> set (rows s). \<not> IsZero (TS e)" and "\<And>i. ctx i = None"
  shows "Sweep (pg_event_store conn) s anchors f t signer ctx now =
     Some (Inr (sweep_report (pg_event_store conn) s anchors f t signer now (window_rows f t (rows s))))"
  by (rule Sweep_collects [OF assms(1) _ assms(5,4)]) (simp add: exact_filter_start assms)

lemma pg_collects:
  assumes "inv s" and "exact_filter uuid f" and "f_Cursor f = no_cursor" and "\<forall>e \<in> set (rows s). \<not> IsZero (TS e)"
  shows "collect_pages (pg_event_store conn) s (\<lambda>_. None) f 0 [] = Some (Inr (filter (selected f) (rows s)))"
  by (rule collect_pages_complete [OF assms(1,2) refl assms(4,3)])

end


definition sample_uuid :: string where
  "sample_uuid = ''0190b0c4-0000-7000-8000-0000000000aa''"

lemma sample_uuid_canonical: "list_uuid sample_uuid = Some sample_uuid"
  by (code_simp)

definition sample_table :: "event list" where
  "sample_table = [sample_row 1000 sample_uuid]"

lemma sample_table_inv: "list_inv sample_table"
  by (simp add: list_inv_def sample_table_def stored_def sample_uuid_canonical whole_micros_def sample_row_def)


text \<open>
  C11: the two implementations of the listing agree. Over a database that answers, and for a
  filter whose times are in whole microseconds and whose cursor is empty or the key of a row (the
  cursors that listings hand out), the Postgres adapter and the in-memory store that hold the
  same rows both succeed and return the same events: the first page of the selected rows. They
  return the same next cursor, but for one case: when the selected rows fill the page exactly, the
  in-memory store returns the key of the last row and the adapter, which looks one row ahead,
  returns none.
\<close>

theorem pg_List_agrees:
  assumes "reliable_database conn uuid ok rows" and "ok s" and "exact_filter uuid f" and "rows s = mem_rows m"
    and "sel = filter (\<lambda>e. selected f e \<and> after_cursor (f_Cursor f) e) (rows s)"
  shows "\<exists>res res'. pg_List conn f s = Inr res \<and> EventStore_List f m = Inr res' \<and>
    lr_Events res = take (page_limit f) sel \<and> lr_Events res' = lr_Events res \<and>
    (if length sel = page_limit f
     then lr_NextCursor res = no_cursor \<and> lr_NextCursor res' = ev_key (last sel)
     else lr_NextCursor res' = lr_NextCursor res)"
proof -
  have db: "audit_database conn uuid ok rows"
    using assms(1) by (simp add: reliable_database_def)
  obtain res where res: "pg_List conn f s = Inr res"
    using event_listing.listing_total [OF reliable_database.pg_listing [OF assms(1)] assms(2,3)]
    by (auto simp: pg_event_store_def is_ok_def split: sum.splits)
  obtain res' where res': "EventStore_List f m = Inr res'"
    by (simp add: EventStore_List_def Let_def)
  note pg = audit_database.pg_List_page [OF db assms(2,3) res assms(5)]
  note mem = mem_list_page [OF res' assms(5) [unfolded assms(4)]]
  have "page_limit f < length sel \<Longrightarrow> last (take (page_limit f) sel) = sel ! (page_limit f - 1)"
    using page_limit_pos [of f] by (subst last_conv_nth) (auto simp del: page_limit_pos)
  then show ?thesis using pg mem
    by (intro exI [of _ res] exI [of _ res']) (auto simp: res res')
qed

theorem pg_List_agrees_witness:
  "\<exists>res res'. pg_List list_conn zero_filter sample_table = Inr res \<and>
     EventStore_List zero_filter (store_of sample_table) = Inr res' \<and>
     lr_Events res = sample_table \<and> lr_Events res' = sample_table"
proof -
  have f: "exact_filter list_uuid zero_filter" by (simp add: exact_filter_def zero_filter_def whole_micros_def)
  have sel: "filter (\<lambda>e. selected zero_filter e \<and> after_cursor (f_Cursor zero_filter) e) sample_table = sample_table"
    by (simp add: sample_table_def selected_def after_cursor_def zero_filter_def in_window_def attrs_match_def)
  have "take (page_limit zero_filter) sample_table = sample_table"
    by (simp add: page_limit_def zero_filter_def sample_table_def)
  with pg_List_agrees [OF tables.reliable_database_axioms sample_table_inv f store_of_rows [symmetric] refl]
  show ?thesis unfolding sel by metis
qed

text \<open>
  The event table is append-only. Whatever sequence of the adapter's mutators runs, and
  whichever of their statements fail, no row of the table disappears, none of its hashed or
  descriptive columns changes, and the anchored flag is never reset.
\<close>

theorem pg_append_only:
  assumes "audit_database conn uuid ok rows" and "ok s" and "store_reach (pg_event_store conn) s s'"
    and "e \<in> set (rows s)"
  shows "row_kept (rows s') e"
  by (rule audit_database.pg_rows_survive [OF assms(1,3,2,4)])

theorem pg_append_only_witness:
  "row_kept (snd (es_SetLegalHold (pg_event_store list_conn) sample_uuid True sample_table)) (sample_row 1000 sample_uuid)"
proof -
  have "store_reach (pg_event_store list_conn) sample_table
      (snd (es_SetLegalHold (pg_event_store list_conn) sample_uuid True sample_table))"
    by (rule reach_SetLegalHold [OF reach_start prod.collapse [symmetric]])
  from pg_append_only [OF tables.audit_database_axioms sample_table_inv this, of "sample_row 1000 sample_uuid"]
  show ?thesis by (simp add: sample_table_def)
qed

text \<open>
  A time below the microsecond breaks its row. A row whose hash was right when it was
  ingested, but whose time is not a whole number of microseconds, is read back from Postgres
  with its time cut off, and the verifier reports it as broken (or a SHA-256 collision has been
  found): nobody has touched the table.
\<close>

lemma cut_time_message:
  assumes "\<not> whole_micros (TS e)"
  shows "EventMessage (e\<lparr>TS := pg_time (TS e)\<rparr>) \<noteq> EventMessage e"
proof
  assume "EventMessage (e\<lparr>TS := pg_time (TS e)\<rparr>) = EventMessage e"
  then have "UnixNano (pg_time (TS e)) = UnixNano (TS e)"
    unfolding EventMessage_append by (simp add: be64_prefix_inject)
  then have "(2 ^ 64 :: int) dvd TS e - pg_time (TS e)"
    by (simp only: UnixNano_eq_iff mod_eq_dvd_iff) (simp add: dvd_diff_commute)
  moreover have "TS e - pg_time (TS e) = TS e mod 1000" by (simp add: pg_time_def minus_div_mult_eq_mod)
  moreover have "0 < TS e mod 1000" "TS e mod 1000 < 1000"
    using assms by (auto simp: whole_micros_def order_less_le)
  ultimately show False using zdvd_imp_le [of "2 ^ 64" "TS e mod 1000"] by simp
qed

lemma pg_changed_row:
  assumes "audit_database conn uuid ok rows" and "ok s" and "stored uuid e = Some x"
    and "ThisHash e = EventHash e" and "EventMessage x \<noteq> EventMessage e"
    and "pg_Insert conn e s = (Inr True, s')" and "pg_Get conn (ID e) s' = Inr e'"
  shows "vr_Status (VerifyEvent e' prev) = StatusBroken \<or> collision e e'"
proof -
  note db = assms(1)
  from assms(2,6) have "ID x \<notin> ID ` set (rows s) \<and> rows s' = insort_key ev_key x (rows s) \<and> ok s'"
    by (cases rule: audit_database.pg_Insert_cases [OF db]) (use assms(3) in auto)
  then have x: "ID x \<notin> ID ` set (rows s)" "rows s' = insort_key ev_key x (rows s)" and inv': "ok s'" by blast+
  have xe: "uuid (ID e) = Some (ID x)" "ThisHash x = ThisHash e" using assms(3) by (auto simp: stored_def)
  from audit_database.pg_Get_found [OF db inv' assms(7)] have "e' \<in> set (rows s')" "ID e' = ID x" by (auto simp: xe)
  moreover from this have "e' \<notin> set (rows s)" using x(1) by (metis imageI)
  ultimately have e': "e' = x" using x(2) by (simp add: set_insort_key)
  show ?thesis
  proof (cases "EventHash e' = ThisHash e'")
    case True
    then have "sha256 (EventMessage e') = sha256 (EventMessage e)" using assms(4) by (simp add: e' xe EventHash_message)
    then show ?thesis using assms(5) by (auto simp: collision_def e')
  qed (simp add: VerifyEvent_status)
qed

theorem pg_cut_time_breaks_row:
  assumes "audit_database conn uuid ok rows" and "ok s" and "uuid (ID e) = Some (ID e)"
    and "ThisHash e = EventHash e" and "\<not> whole_micros (TS e)"
    and "pg_Insert conn e s = (Inr True, s')" and "pg_Get conn (ID e) s' = Inr e'"
  shows "vr_Status (VerifyEvent e' prev) = StatusBroken \<or> collision e e'"
proof -
  have "stored uuid e = Some (e\<lparr>TS := pg_time (TS e)\<rparr>)" using assms(3) by (simp add: stored_def)
  from pg_changed_row [OF assms(1,2) this assms(4) cut_time_message [OF assms(5)] assms(6,7)] show ?thesis .
qed

text \<open>
  So does an id in another spelling. A row whose hash was right when it was ingested, but whose
  id is a UUID in a form that is not canonical (in capitals, say), is read back with the
  canonical id, which is not the text that was hashed.
\<close>

lemma pg_respelled_id_breaks_row:
  assumes "audit_database conn uuid ok rows" and "ok s" and "uuid (ID e) = Some u" and "u \<noteq> ID e"
    and "fits u" and "fits (ID e)" and "ThisHash e = EventHash e"
    and "pg_Insert conn e s = (Inr True, s')" and "pg_Get conn (ID e) s' = Inr e'"
  shows "vr_Status (VerifyEvent e' prev) = StatusBroken \<or> collision e e'"
proof -
  let ?x = "e\<lparr>ID := u, TS := pg_time (TS e)\<rparr>"
  have "EventMessage ?x \<noteq> EventMessage e"
    using assms(4) unfolding EventMessage_append by (simp add: prefixed_string_inject [OF assms(5,6)])
  moreover have "stored uuid e = Some ?x" using assms(3) by (simp add: stored_def)
  ultimately show ?thesis using pg_changed_row [OF assms(1,2) _ assms(7) _ assms(8,9)] by blast
qed

definition nano_row :: event where
  "nano_row = (let e = sample_row 1001 sample_uuid in e\<lparr>ThisHash := EventHash e\<rparr>)"

lemma nano_row_sel: "ID nano_row = sample_uuid" "TS nano_row = 1001" "ThisHash nano_row = EventHash nano_row"
  by (simp_all add: nano_row_def Let_def EventHash_def sample_row_def)

lemma nano_row_stored: "stored list_uuid nano_row = Some (nano_row\<lparr>TS := 1000\<rparr>)"
  by (simp add: stored_def sample_uuid_canonical pg_time_def nano_row_def Let_def sample_row_def)

theorem pg_cut_time_breaks_row_witness:
  "\<exists>s' e'. pg_Insert list_conn nano_row [] = (Inr True, s') \<and> pg_Get list_conn sample_uuid s' = Inr e' \<and>
     (vr_Status (VerifyEvent e' None) = StatusBroken \<or> collision nano_row e')"
proof -
  have i: "list_inv []" by (simp add: list_inv_def)
  have "\<not> has_bad_uuid Insert_event (event_args nano_row)" "\<not> has_bad_uuid Select_event [Txt sample_uuid]"
    by (simp_all add: has_bad_uuid_def event_args_def nano_row_sel sample_uuid_canonical)
  then have ins: "pg_Insert list_conn nano_row [] = (Inr True, [nano_row\<lparr>TS := 1000\<rparr>])"
    and get: "pg_Get list_conn sample_uuid [nano_row\<lparr>TS := 1000\<rparr>] = Inr (nano_row\<lparr>TS := 1000\<rparr>)"
    by (simp_all add: pg_Insert_def pg_Get_def QueryRow_def list_exec_def list_query_def list_insert_event
        nano_row_stored nano_row_sel sample_uuid_canonical)
  from pg_cut_time_breaks_row [OF tables.audit_database_axioms i _ nano_row_sel(3) _ ins, of "nano_row\<lparr>TS := 1000\<rparr>" None]
    ins get show ?thesis by (auto simp: nano_row_sel sample_uuid_canonical whole_micros_def)
qed

text \<open>
  No export is ever recorded over Postgres. \<^verbatim>\<open>RunJob\<close> hands the stores an empty event id and
  an empty anchor id, which the two UUID columns refuse: its anchor is not inserted, no update
  of its job succeeds, and a run that ends has returned an error, even when the artifact has
  been written. The job stays as it was created.
\<close>

theorem pg_export_never_recorded:
  assumes "audit_database conn uuid ok rows" and "ok (xw_Jobs w)" and "ok (xw_Anchors w)" and "uuid '''' = None"
    and "xd_Anchors deps = pg_anchor_store conn" and "xd_Jobs deps = pg_export_job_store conn"
    and "RunJob fl deps env ctx jobp s w = Some (err, w')"
  shows "err \<noteq> None \<and> xw_Jobs w' = xw_Jobs w \<and> xw_Anchors w' = xw_Anchors w"
proof -
  note db = assms(1)
  have upd: "\<exists>err. js_UpdateJob (xd_Jobs deps) i u (xw_Jobs w) = (Some err, xw_Jobs w)" if "ju_AnchorID u = ''''" for i u
    using audit_database.pg_UpdateJob_refused [OF db assms(2), of u i] that assms(4)
    by (auto simp: assms(6) pg_export_job_store_def)
  have fail: "xw_Jobs (fail_job deps env job v) = xw_Jobs w \<and> xw_Anchors (fail_job deps env job v) = xw_Anchors v"
    if "xw_Jobs v = xw_Jobs w" for job v
    using upd [of "\<lparr>ju_Status = ''FAILED'', ju_RowCount = 0, ju_PayloadRef = '''', ju_ChainRoot = [],
      ju_AnchorID = '''', ju_CompletedAt = xe_Updated env\<rparr>" "ej_ID job"] that
    by (auto simp: fail_job_def)
  have anchor: "export_anchor deps oe root n (xw_Anchors w) = ('''', xw_Anchors w)" for oe root n
  proof -
    have "\<exists>err. as_InsertAnchor (xd_Anchors deps) oe a (xw_Anchors w) = (Inl err, xw_Anchors w)"
      if "an_LastEventID a = ''''" for a
      using audit_database.pg_InsertAnchor_refused [OF db assms(3), of a oe] that assms(4)
      by (auto simp: assms(5) pg_anchor_store_def)
    then have ins: "\<exists>err. as_InsertAnchor (xd_Anchors deps) oe
        \<lparr>an_ID = '''', an_AnchoredAt = 0, an_RootHash = root, an_LastEventID = '''', an_LastEventTS = 0,
         an_Signature = sig, an_KMSKeyID = key, an_NotaryURL = '''', an_EventCount = n\<rparr> (xw_Anchors w) =
        (Inl err, xw_Anchors w)" for sig key by simp
    show ?thesis
    proof (cases "xd_Signer deps")
      case (Some sign)
      show ?thesis
      proof (cases "sign root")
        case (Inr p)
        with ins [of "fst p" "snd p"] Some show ?thesis by (cases p) (auto simp: export_anchor_def)
      qed (simp add: export_anchor_def Some)
    qed (simp add: export_anchor_def)
  qed
  have finish: "fst (finish_job deps env job all w) \<noteq> None \<and>
      xw_Jobs (snd (finish_job deps env job all w)) = xw_Jobs w \<and>
      xw_Anchors (snd (finish_job deps env job all w)) = xw_Anchors w" for job all
  proof -
    obtain e where "js_UpdateJob (xd_Jobs deps) (ej_ID job)
       \<lparr>ju_Status = ''COMPLETE'', ju_RowCount = int (length all),
        ju_PayloadRef = ''exports/'' @ ej_ID job @ ''.'' @ extForFormat (ej_Format job),
        ju_ChainRoot = chain_root_of all, ju_AnchorID = '''', ju_CompletedAt = xe_Updated env\<rparr> (xw_Jobs w) =
       (Some e, xw_Jobs w)" using upd by fastforce
    then show ?thesis using fail
      by (auto simp: finish_job_def anchor Let_def split: sum.split prod.split)
  qed
  have ended: "e \<noteq> None \<and> xw_Jobs v = xw_Jobs w \<and> xw_Anchors v = xw_Anchors w"
    if "finish_job deps env job all w = (e, v)" for job all e v
    using finish [where job = job and all = all] that by simp
  show ?thesis
    using assms(7) fail [OF refl]
    by (auto simp: RunJob_def split: option.splits sum.splits collect_stop.splits dest: ended)
qed

definition pg_export_deps :: "(event list, event list, event list, fake) export_deps" where
  "pg_export_deps = \<lparr>xd_Events = pg_event_store list_conn, xd_Anchors = pg_anchor_store list_conn,
     xd_Jobs = pg_export_job_store list_conn, xd_Put = Fake_Put, xd_PayloadBucket = ''b'',
     xd_Signer = None, xd_DefaultRetentionDays = 1\<rparr>"

theorem pg_export_never_recorded_witness:
  "\<exists>err w'. RunJob Some pg_export_deps sample_export_env (\<lambda>_. None) (Some sample_job) sample_table
      \<lparr>xw_Anchors = sample_table, xw_Jobs = sample_table, xw_Payloads = NewFake\<rparr> = Some (err, w') \<and> err \<noteq> None"
proof -
  let ?w = "\<lparr>xw_Anchors = sample_table, xw_Jobs = sample_table, xw_Payloads = NewFake\<rparr>"
  obtain r where run: "RunJob Some pg_export_deps sample_export_env (\<lambda>_. None) (Some sample_job) sample_table ?w = Some r"
  proof (cases "parseQuery Some (ej_Query sample_job)")
    case (Inl e)
    with that show thesis by (simp add: RunJob_def)
  next
    case (Inr f)
    then have "exact_filter list_uuid (f\<lparr>f_Limit := 10000\<rparr>)"
      by (auto simp: sample_job_def parseQuery_def exact_filter_def zero_filter_def whole_micros_def)
    moreover have "f_Cursor (f\<lparr>f_Limit := 10000\<rparr>) = no_cursor"
      using Inr by (auto simp: sample_job_def parseQuery_def zero_filter_def)
    ultimately have "collect_pages (pg_event_store list_conn) sample_table (\<lambda>_. None) (f\<lparr>f_Limit := 10000\<rparr>) 0 [] =
        Some (Inr (filter (selected (f\<lparr>f_Limit := 10000\<rparr>)) sample_table))"
      by (rule tables.pg_collects [OF sample_table_inv]) (simp add: sample_table_def)
    with that Inr show thesis by (simp add: RunJob_def pg_export_deps_def)
  qed
  have "list_uuid '''' = None" by (simp add: list_uuid_def)
  from pg_export_never_recorded [OF tables.audit_database_axioms _ _ this, of ?w pg_export_deps Some sample_export_env
      "\<lambda>_. None" "Some sample_job" sample_table "fst r" "snd r"] run sample_table_inv
  show ?thesis by (cases r) (simp add: pg_export_deps_def)
qed

end
