(* ===== verification/Migrations.thy ===== *)
theory Migrations
  imports GoTime
begin

text \<open>
  internal/store/migrations and cmd/migrate: the embedded SQL files are paired by version and
  applied in order of the version, or reverted in reverse order. The runner's two functions are
  arguments, as in the code; what the table \<^verbatim>\<open>schema_migrations\<close> does is the locale
  \<open>migration_tables\<close>, with an interpretation on a list of versions and a log of scripts.
\<close>

section \<open>The embedded files\<close>

record file_entry =
  fe_Name :: string
  fe_IsDir :: bool
  fe_Content :: "string result"

record migration =
  mg_Version :: string
  mg_Up :: string
  mg_Down :: string

definition HasSuffix :: "string \<Rightarrow> string \<Rightarrow> bool" where
  "HasSuffix s sfx \<longleftrightarrow> length sfx \<le> length s \<and> drop (length s - length sfx) s = sfx"

definition TrimSuffix :: "string \<Rightarrow> string \<Rightarrow> string" where
  "TrimSuffix s sfx = (if HasSuffix s sfx then take (length s - length sfx) s else s)"

lemma HasSuffix_append [simp]: "HasSuffix (v @ sfx) sfx" "TrimSuffix (v @ sfx) sfx = v"
  by (simp_all add: HasSuffix_def TrimSuffix_def)

lemma HasSuffix_split: "HasSuffix s sfx \<longleftrightarrow> s = TrimSuffix s sfx @ sfx"
  by (metis HasSuffix_append(1) HasSuffix_def TrimSuffix_def append_take_drop_id)

text \<open>The map \<^verbatim>\<open>byVersion\<close>, as its entries in the order of insertion: the entry of a version is changed or created.\<close>

fun put_version :: "string \<Rightarrow> (migration \<Rightarrow> migration) \<Rightarrow> migration list \<Rightarrow> migration list" where
  "put_version v f [] = [f \<lparr>mg_Version = v, mg_Up = '''', mg_Down = ''''\<rparr>]"
| "put_version v f (m # ms) = (if mg_Version m = v then f m # ms else m # put_version v f ms)"

fun read_entries :: "file_entry list \<Rightarrow> migration list \<Rightarrow> migration list result" where
  "read_entries [] ms = Inr ms"
| "read_entries (e # es) ms =
     (if fe_IsDir e then read_entries es ms
      else if HasSuffix (fe_Name e) ''_up.sql'' then
        (case fe_Content e of Inl err \<Rightarrow> Inl err
         | Inr b \<Rightarrow> read_entries es (put_version (TrimSuffix (fe_Name e) ''_up.sql'') (\<lambda>m. m\<lparr>mg_Up := b\<rparr>) ms))
      else if HasSuffix (fe_Name e) ''_down.sql'' then
        (case fe_Content e of Inl err \<Rightarrow> Inl err
         | Inr b \<Rightarrow> read_entries es (put_version (TrimSuffix (fe_Name e) ''_down.sql'') (\<lambda>m. m\<lparr>mg_Down := b\<rparr>) ms))
      else read_entries es ms)"

fun check_pairs :: "migration list \<Rightarrow> migration list result" where
  "check_pairs [] = Inr []"
| "check_pairs (m # ms) =
     (if mg_Up m = '''' \<or> mg_Down m = ''''
      then Inl (ErrMsg (''migrations: version '' @ mg_Version m @ '' missing up or down''))
      else (case check_pairs ms of Inl err \<Rightarrow> Inl err | Inr out \<Rightarrow> Inr (m # out)))"

definition AllMigrations :: "file_entry list result \<Rightarrow> migration list result" where
  "AllMigrations dir =
     (case dir of Inl err \<Rightarrow> Inl err
      | Inr entries \<Rightarrow> (case read_entries entries [] of Inl err \<Rightarrow> Inl err
        | Inr ms \<Rightarrow> check_pairs (sort_key mg_Version ms)))"

section \<open>The runner\<close>

text \<open>The statements of the runner: the table, a script, and the record of a version.\<close>

datatype migration_sql = Create_versions | Script string | Record_version string time | Forget_version string

record 'db runner =
  rn_Exec :: "migration_sql \<Rightarrow> 'db \<Rightarrow> go_error option \<times> 'db"
  rn_Query :: "(string \<Rightarrow> 'db \<Rightarrow> bool result) option"

text \<open>Whether a version is recorded; without a query function the answer is the default.\<close>

definition version_applied :: "'db runner \<Rightarrow> bool \<Rightarrow> string \<Rightarrow> 'db \<Rightarrow> bool result" where
  "version_applied rn unknown v s = (case rn_Query rn of None \<Rightarrow> Inr unknown | Some query \<Rightarrow> query v s)"

fun up_loop :: "'db runner \<Rightarrow> (string \<Rightarrow> time) \<Rightarrow> migration list \<Rightarrow> 'db \<Rightarrow> go_error option \<times> 'db" where
  "up_loop rn now [] s = (None, s)"
| "up_loop rn now (m # ms) s =
     (case version_applied rn False (mg_Version m) s of
        Inl err \<Rightarrow> (Some err, s)
      | Inr True \<Rightarrow> up_loop rn now ms s
      | Inr False \<Rightarrow>
         (case rn_Exec rn (Script (mg_Up m)) s of
            (Some err, s') \<Rightarrow> (Some (ErrWrap (''migrations: apply '' @ mg_Version m @ '': '') err), s')
          | (None, s') \<Rightarrow>
             (case rn_Exec rn (Record_version (mg_Version m) (now (mg_Version m))) s' of
                (Some err, s'') \<Rightarrow> (Some (ErrWrap (''migrations: record '' @ mg_Version m @ '': '') err), s'')
              | (None, s'') \<Rightarrow> up_loop rn now ms s'')))"

definition Up :: "'db runner \<Rightarrow> (string \<Rightarrow> time) \<Rightarrow> file_entry list result \<Rightarrow> 'db \<Rightarrow> go_error option \<times> 'db" where
  "Up rn now dir s =
     (case rn_Exec rn Create_versions s of
        (Some err, s') \<Rightarrow> (Some (ErrWrap ''migrations: create schema_migrations: '' err), s')
      | (None, s') \<Rightarrow> (case AllMigrations dir of Inl err \<Rightarrow> (Some err, s') | Inr migs \<Rightarrow> up_loop rn now migs s'))"

text \<open>The loop of \<^verbatim>\<open>Down\<close> runs over the versions from the last one.\<close>

fun down_loop :: "'db runner \<Rightarrow> migration list \<Rightarrow> 'db \<Rightarrow> go_error option \<times> 'db" where
  "down_loop rn [] s = (None, s)"
| "down_loop rn (m # ms) s =
     (case version_applied rn True (mg_Version m) s of
        Inl err \<Rightarrow> (Some err, s)
      | Inr False \<Rightarrow> down_loop rn ms s
      | Inr True \<Rightarrow>
         (case rn_Exec rn (Script (mg_Down m)) s of
            (Some err, s') \<Rightarrow> (Some (ErrWrap (''migrations: revert '' @ mg_Version m @ '': '') err), s')
          | (None, s') \<Rightarrow>
             (case rn_Exec rn (Forget_version (mg_Version m)) s' of
                (Some err, s'') \<Rightarrow> (Some err, s'')
              | (None, s'') \<Rightarrow> down_loop rn ms s'')))"

definition Down :: "'db runner \<Rightarrow> file_entry list result \<Rightarrow> 'db \<Rightarrow> go_error option \<times> 'db" where
  "Down rn dir s = (case AllMigrations dir of Inl err \<Rightarrow> (Some err, s) | Inr migs \<Rightarrow> down_loop rn (rev migs) s)"

text \<open>
  cmd/migrate: the flags, the address, opening and pinging the pool, and the runner; the exit
  status of the process.
\<close>

definition migrate_main ::
  "bool \<Rightarrow> bool \<Rightarrow> string \<Rightarrow> go_error option \<Rightarrow> 'db runner \<Rightarrow> (string \<Rightarrow> time) \<Rightarrow> file_entry list result \<Rightarrow> 'db \<Rightarrow> int \<times> 'db" where
  "migrate_main up down dsn opened rn now dir s =
     (if \<not> up \<and> \<not> down then (2, s)
      else if dsn = '''' then (1, s)
      else if opened \<noteq> None then (1, s)
      else if up then (case Up rn now dir s of (err, s') \<Rightarrow> (if err \<noteq> None then 1 else 0, s'))
      else (case Down rn dir s of (err, s') \<Rightarrow> (if err \<noteq> None then 1 else 0, s')))"

section \<open>The versions\<close>

lemma check_pairs_ok: "check_pairs ms = Inr out \<longleftrightarrow> out = ms \<and> (\<forall>m \<in> set ms. mg_Up m \<noteq> '''' \<and> mg_Down m \<noteq> '''')"
  by (induction ms arbitrary: out) (auto split: sum.splits)

lemma put_version_versions:
  assumes "\<And>m. mg_Version (f m) = mg_Version m"
  shows "map mg_Version (put_version v f ms) = (if v \<in> mg_Version ` set ms then map mg_Version ms else map mg_Version ms @ [v])"
  using assms by (induction ms) auto

text \<open>What the map holds for a version, empty when there is no entry.\<close>

definition entry_of :: "migration list \<Rightarrow> string \<Rightarrow> migration" where
  "entry_of ms v = (case find (\<lambda>m. mg_Version m = v) ms of Some m \<Rightarrow> m | None \<Rightarrow> \<lparr>mg_Version = v, mg_Up = '''', mg_Down = ''''\<rparr>)"

lemma entry_of_put:
  assumes "\<And>m. mg_Version (f m) = mg_Version m"
  shows "entry_of (put_version v f ms) w = (if w = v then f (entry_of ms v) else entry_of ms w)"
  using assms by (induction ms) (auto simp: entry_of_def)

lemma entry_of_member:
  "distinct (map mg_Version ms) \<Longrightarrow> m \<in> set ms \<Longrightarrow> entry_of ms (mg_Version m) = m"
  by (induction ms) (auto simp: entry_of_def image_iff)

lemma entry_of_nonempty: "mg_Up (entry_of ms v) \<noteq> '''' \<Longrightarrow> entry_of ms v \<in> set ms \<and> mg_Version (entry_of ms v) = v"
  by (induction ms) (auto simp: entry_of_def)

text \<open>The content a directory holds under a name.\<close>

definition file_text :: "file_entry list \<Rightarrow> string \<Rightarrow> string option" where
  "file_text es n = (case find (\<lambda>e. \<not> fe_IsDir e \<and> fe_Name e = n) es of
     Some e \<Rightarrow> (case fe_Content e of Inr b \<Rightarrow> Some b | Inl _ \<Rightarrow> None) | None \<Rightarrow> None)"

definition text_or :: "string \<Rightarrow> string option \<Rightarrow> string" where
  "text_or d t = (case t of None \<Rightarrow> d | Some b \<Rightarrow> b)"

lemma suffixes_differ: "v @ ''_up.sql'' \<noteq> w @ ''_down.sql''"
proof
  assume "v @ ''_up.sql'' = w @ ''_down.sql''"
  then have "rev (v @ ''_up.sql'') = rev (w @ ''_down.sql'')" by simp
  then show False by simp
qed

lemma file_text_Cons:
  "file_text (e # es) n = (if \<not> fe_IsDir e \<and> fe_Name e = n
     then (case fe_Content e of Inr b \<Rightarrow> Some b | Inl _ \<Rightarrow> None) else file_text es n)"
  by (simp add: file_text_def)

lemma file_text_absent: "n \<notin> fe_Name ` set es \<Longrightarrow> file_text es n = None"
  by (induction es) (auto simp: file_text_def)

lemma up_name: "fe_Name e = v @ ''_up.sql'' \<longleftrightarrow> HasSuffix (fe_Name e) ''_up.sql'' \<and> v = TrimSuffix (fe_Name e) ''_up.sql''"
  using HasSuffix_split [of "fe_Name e" "''_up.sql''"] by auto

lemma down_name: "fe_Name e = v @ ''_down.sql'' \<longleftrightarrow> HasSuffix (fe_Name e) ''_down.sql'' \<and> v = TrimSuffix (fe_Name e) ''_down.sql''"
  using HasSuffix_split [of "fe_Name e" "''_down.sql''"] by auto

lemma not_both: "HasSuffix s ''_up.sql'' \<Longrightarrow> \<not> HasSuffix s ''_down.sql''"
  by (metis HasSuffix_split suffixes_differ)

text \<open>After the loop the map holds, for every version, the texts of its two files.\<close>

lemma read_entries_texts:
  assumes "read_entries es ms = Inr out" and "distinct (map fe_Name es)" and "distinct (map mg_Version ms)"
  shows "distinct (map mg_Version out) \<and>
     (\<forall>v. mg_Up (entry_of out v) = text_or (mg_Up (entry_of ms v)) (file_text es (v @ ''_up.sql'')) \<and>
          mg_Down (entry_of out v) = text_or (mg_Down (entry_of ms v)) (file_text es (v @ ''_down.sql'')))"
  using assms
proof (induction es arbitrary: ms)
  case Nil
  then show ?case by (simp add: file_text_def text_or_def)
next
  case (Cons e es)
  have none: "file_text es (fe_Name e) = None" using Cons.prems(2) by (simp add: file_text_absent)
  consider (dir) "fe_IsDir e \<or> \<not> HasSuffix (fe_Name e) ''_up.sql'' \<and> \<not> HasSuffix (fe_Name e) ''_down.sql''"
    | (up) b where "\<not> fe_IsDir e" "HasSuffix (fe_Name e) ''_up.sql''" "fe_Content e = Inr b"
    | (down) b where "\<not> fe_IsDir e" "HasSuffix (fe_Name e) ''_down.sql''" "\<not> HasSuffix (fe_Name e) ''_up.sql''" "fe_Content e = Inr b"
    using Cons.prems(1) by (auto split: if_splits sum.splits)
  then show ?case
  proof cases
    case dir
    then have "read_entries es ms = Inr out" using Cons.prems(1) by (auto split: if_splits)
    from Cons.IH [OF this _ Cons.prems(3)] Cons.prems(2) dir show ?thesis
      by (auto simp: file_text_Cons up_name down_name)
  next
    case up
    let ?v = "TrimSuffix (fe_Name e) ''_up.sql''" and ?f = "\<lambda>m. m\<lparr>mg_Up := b\<rparr>"
    have "read_entries es (put_version ?v ?f ms) = Inr out" using Cons.prems(1) up by simp
    moreover have "distinct (map mg_Version (put_version ?v ?f ms))"
      using Cons.prems(3) by (auto simp: put_version_versions)
    ultimately have ih: "distinct (map mg_Version out) \<and>
       (\<forall>v. mg_Up (entry_of out v) = text_or (mg_Up (entry_of (put_version ?v ?f ms) v)) (file_text es (v @ ''_up.sql'')) \<and>
          mg_Down (entry_of out v) = text_or (mg_Down (entry_of (put_version ?v ?f ms) v)) (file_text es (v @ ''_down.sql'')))"
      using Cons.IH Cons.prems(2) by simp
    have "file_text es (?v @ ''_up.sql'') = None" using none up(2) up_name [of e ?v] by simp
    with ih up not_both show ?thesis
      by (auto simp: entry_of_put file_text_Cons up_name down_name text_or_def split: option.split)
  next
    case down
    let ?v = "TrimSuffix (fe_Name e) ''_down.sql''" and ?f = "\<lambda>m. m\<lparr>mg_Down := b\<rparr>"
    have "read_entries es (put_version ?v ?f ms) = Inr out" using Cons.prems(1) down by simp
    moreover have "distinct (map mg_Version (put_version ?v ?f ms))"
      using Cons.prems(3) by (auto simp: put_version_versions)
    ultimately have ih: "distinct (map mg_Version out) \<and>
       (\<forall>v. mg_Up (entry_of out v) = text_or (mg_Up (entry_of (put_version ?v ?f ms) v)) (file_text es (v @ ''_up.sql'')) \<and>
          mg_Down (entry_of out v) = text_or (mg_Down (entry_of (put_version ?v ?f ms) v)) (file_text es (v @ ''_down.sql'')))"
      using Cons.IH Cons.prems(2) by simp
    have "file_text es (?v @ ''_down.sql'') = None" using none down(2) down_name [of e ?v] by simp
    with ih down show ?thesis
      by (auto simp: entry_of_put file_text_Cons up_name down_name text_or_def split: option.split)
  qed
qed

lemma AllMigrations_pairs:
  assumes "AllMigrations (Inr es) = Inr ms" and "distinct (map fe_Name es)"
  shows "sorted_wrt (<) (map mg_Version ms)"
    and "m \<in> set ms \<longleftrightarrow> mg_Up m \<noteq> '''' \<and> mg_Down m \<noteq> '''' \<and>
      file_text es (mg_Version m @ ''_up.sql'') = Some (mg_Up m) \<and>
      file_text es (mg_Version m @ ''_down.sql'') = Some (mg_Down m)"
proof -
  obtain out where out: "read_entries es [] = Inr out" "check_pairs (sort_key mg_Version out) = Inr ms"
    using assms(1) by (auto simp: AllMigrations_def split: sum.splits)
  have ms: "ms = sort_key mg_Version out" "\<And>m. m \<in> set out \<Longrightarrow> mg_Up m \<noteq> '''' \<and> mg_Down m \<noteq> ''''"
    using out(2) by (auto simp: check_pairs_ok)
  have d: "distinct (map mg_Version out)"
    and up: "\<And>v. mg_Up (entry_of out v) = text_or '''' (file_text es (v @ ''_up.sql''))"
    and down: "\<And>v. mg_Down (entry_of out v) = text_or '''' (file_text es (v @ ''_down.sql''))"
    using read_entries_texts [OF out(1) assms(2)] by (simp_all add: entry_of_def)
  have "distinct (map mg_Version ms)"
    using d by (simp add: ms(1) distinct_map inj_on_def)
  then show "sorted_wrt (<) (map mg_Version ms)"
    by (simp add: ms(1) strict_sorted_iff)
  show "m \<in> set ms \<longleftrightarrow> mg_Up m \<noteq> '''' \<and> mg_Down m \<noteq> '''' \<and>
      file_text es (mg_Version m @ ''_up.sql'') = Some (mg_Up m) \<and>
      file_text es (mg_Version m @ ''_down.sql'') = Some (mg_Down m)" (is "_ \<longleftrightarrow> ?files")
  proof
    assume "m \<in> set ms"
    then have "m \<in> set out" by (simp add: ms(1))
    with entry_of_member [OF d this] ms(2) [OF this] up [of "mg_Version m"] down [of "mg_Version m"] show ?files
      by (auto simp: text_or_def split: option.splits)
  next
    assume f: ?files
    then have e: "mg_Up (entry_of out (mg_Version m)) = mg_Up m" "mg_Down (entry_of out (mg_Version m)) = mg_Down m"
      using up [of "mg_Version m"] down [of "mg_Version m"] by (auto simp: text_or_def)
    with f entry_of_nonempty [of out "mg_Version m"] have "entry_of out (mg_Version m) \<in> set out"
      "mg_Version (entry_of out (mg_Version m)) = mg_Version m" by auto
    with e have "m \<in> set out" by (metis migration.equality unit.exhaust)
    then show "m \<in> set ms" by (simp add: ms(1))
  qed
qed

section \<open>What a run does\<close>

text \<open>
  What the runner needs of its database: \<open>applied s\<close> are the recorded versions and \<open>ran s\<close> the
  scripts that have been executed. A statement that fails changes nothing (a script of several
  statements is one transaction).
\<close>

locale migration_tables =
  fixes rn :: "'db runner" and applied :: "'db \<Rightarrow> string set" and ran :: "'db \<Rightarrow> string list"
  assumes recorded: "version_applied rn d v s = Inr b \<Longrightarrow> b = (v \<in> applied s)"
    and failed: "rn_Exec rn q s = (Some err, s') \<Longrightarrow> s' = s"
    and created: "rn_Exec rn Create_versions s = (None, s') \<Longrightarrow> applied s' = applied s \<and> ran s' = ran s"
    and script: "rn_Exec rn (Script x) s = (None, s') \<Longrightarrow> applied s' = applied s \<and> ran s' = ran s @ [x]"
    and record_done: "rn_Exec rn (Record_version v t) s = (None, s') \<Longrightarrow> applied s' = insert v (applied s) \<and> ran s' = ran s"
    and forget_done: "rn_Exec rn (Forget_version v) s = (None, s') \<Longrightarrow> applied s' = applied s - {v} \<and> ran s' = ran s"

definition pending :: "string set \<Rightarrow> migration list \<Rightarrow> migration list" where
  "pending done_versions ms = filter (\<lambda>m. mg_Version m \<notin> done_versions) ms"

lemma pending_Cons:
  "pending d (m # ms) = (if mg_Version m \<in> d then pending d ms else m # pending d ms)"
  by (simp add: pending_def)

lemma pending_insert: "v \<notin> mg_Version ` set ms \<Longrightarrow> pending (insert v d) ms = pending d ms"
  by (auto simp: pending_def intro!: filter_cong)

context migration_tables
begin

text \<open>
  A run executes the pending scripts in order, recording each, up to the first failure; the
  last script may have been executed without being recorded.
\<close>

lemma up_loop_runs:
  assumes "up_loop rn now ms s = (err, s')" and "distinct (map mg_Version ms)"
  shows "\<exists>j k. ran s' = ran s @ map mg_Up (take k (pending (applied s) ms)) \<and>
    applied s' = applied s \<union> mg_Version ` set (take j (pending (applied s) ms)) \<and> j \<le> k \<and> k \<le> Suc j \<and>
    (err = None \<longrightarrow> j = length (pending (applied s) ms))"
  using assms
proof (induction ms arbitrary: s)
  case Nil
  then show ?case by (intro exI [of _ 0]) (simp add: pending_def)
next
  case (Cons m ms)
  show ?case
  proof (cases "version_applied rn False (mg_Version m) s")
    case (Inl e)
    with Cons.prems show ?thesis by (intro exI [of _ 0]) auto
  next
    case (Inr b)
    show ?thesis
    proof (cases b)
      case True
      with Inr recorded have "mg_Version m \<in> applied s" by blast
      with Cons Inr True show ?thesis by (simp add: pending_Cons)
    next
      case False
      with Inr recorded have new: "mg_Version m \<notin> applied s" by blast
      obtain e1 s1 where ex: "rn_Exec rn (Script (mg_Up m)) s = (e1, s1)" by (metis surj_pair)
      show ?thesis
      proof (cases e1)
        case (Some e)
        with ex failed have "s1 = s" by blast
        with Cons.prems Inr False ex Some show ?thesis by (intro exI [of _ 0]) auto
      next
        case None
        with ex script have s1: "applied s1 = applied s" "ran s1 = ran s @ [mg_Up m]" by blast+
        obtain e2 s2 where rec: "rn_Exec rn (Record_version (mg_Version m) (now (mg_Version m))) s1 = (e2, s2)"
          by (metis surj_pair)
        show ?thesis
        proof (cases e2)
          case (Some e)
          with rec failed have "s2 = s1" by blast
          with Cons.prems(1) Inr False ex None rec Some s1 new show ?thesis
            by (intro exI [of _ 0] exI [of _ 1]) (auto simp: pending_Cons)
        next
          case None2: None
          with rec record_done have s2: "applied s2 = insert (mg_Version m) (applied s)" "ran s2 = ran s @ [mg_Up m]"
            using s1 by auto
          have "up_loop rn now ms s2 = (err, s')" using Cons.prems(1) Inr False ex None rec None2 by simp
          from Cons.IH [OF this] Cons.prems(2) obtain j k where
            "ran s' = ran s2 @ map mg_Up (take k (pending (applied s2) ms))"
            "applied s' = applied s2 \<union> mg_Version ` set (take j (pending (applied s2) ms))" "j \<le> k" "k \<le> Suc j"
            "err = None \<longrightarrow> j = length (pending (applied s2) ms)" by auto
          moreover have "pending (applied s2) ms = pending (applied s) ms"
            using Cons.prems(2) by (simp add: s2 pending_insert)
          ultimately show ?thesis
            using new s2 by (intro exI [of _ "Suc j"] exI [of _ "Suc k"]) (auto simp: pending_Cons)
        qed
      qed
    qed
  qed
qed

lemma Up_runs:
  assumes "Up rn now dir s = (err, s')" and "AllMigrations dir = Inr ms" and "distinct (map mg_Version ms)"
  shows "\<exists>j k. ran s' = ran s @ map mg_Up (take k (pending (applied s) ms)) \<and>
    applied s' = applied s \<union> mg_Version ` set (take j (pending (applied s) ms)) \<and> j \<le> k \<and> k \<le> Suc j \<and>
    (err = None \<longrightarrow> j = length (pending (applied s) ms))"
proof -
  obtain e1 s1 where cr: "rn_Exec rn Create_versions s = (e1, s1)" by (metis surj_pair)
  show ?thesis
  proof (cases e1)
    case (Some e)
    with cr failed have "s1 = s" by blast
    with assms(1) cr Some show ?thesis by (intro exI [of _ 0]) (auto simp: Up_def)
  next
    case None
    with cr created have s1: "applied s1 = applied s" "ran s1 = ran s" by blast+
    have "up_loop rn now ms s1 = (err, s')" using assms(1,2) cr None by (simp add: Up_def)
    from up_loop_runs [OF this assms(3)] show ?thesis by (simp add: s1)
  qed
qed

lemma down_loop_reverts:
  assumes "down_loop rn ms s = (None, s')" and "distinct (map mg_Version ms)"
  shows "ran s' = ran s @ map mg_Down (filter (\<lambda>m. mg_Version m \<in> applied s) ms) \<and>
    applied s' = applied s - mg_Version ` set ms"
  using assms
proof (induction ms arbitrary: s)
  case (Cons m ms)
  then obtain b where b: "version_applied rn True (mg_Version m) s = Inr b" by (auto split: sum.splits)
  show ?case
  proof (cases b)
    case False
    with b recorded have "mg_Version m \<notin> applied s" by blast
    with Cons b False show ?thesis by auto
  next
    case True
    with b recorded have old: "mg_Version m \<in> applied s" by blast
    obtain s1 s2 where ex: "rn_Exec rn (Script (mg_Down m)) s = (None, s1)" "rn_Exec rn (Forget_version (mg_Version m)) s1 = (None, s2)"
      and rest: "down_loop rn ms s2 = (None, s')"
      using Cons.prems(1) b True by (auto split: prod.splits option.splits)
    have s2: "applied s2 = applied s - {mg_Version m}" "ran s2 = ran s @ [mg_Down m]"
      using script [OF ex(1)] forget_done [OF ex(2)] by auto
    have "filter (\<lambda>m. mg_Version m \<in> applied s2) ms = filter (\<lambda>m. mg_Version m \<in> applied s) ms"
      using Cons.prems(2) by (intro filter_cong) (auto simp: s2 image_iff)
    with Cons.IH [OF rest] Cons.prems(2) old show ?thesis by (auto simp: s2)
  qed
qed simp

end

section \<open>Tables held in lists\<close>

record versions_db =
  vd_Table :: bool
  vd_Applied :: "string list"
  vd_Ran :: "string list"

fun list_migrate :: "migration_sql \<Rightarrow> versions_db \<Rightarrow> go_error option \<times> versions_db" where
  "list_migrate Create_versions s = (None, s\<lparr>vd_Table := True\<rparr>)"
| "list_migrate (Script x) s = (None, s\<lparr>vd_Ran := vd_Ran s @ [x]\<rparr>)"
| "list_migrate (Record_version v t) s =
     (if vd_Table s then (None, s\<lparr>vd_Applied := List.insert v (vd_Applied s)\<rparr>) else (Some (ErrMsg ''relation does not exist''), s))"
| "list_migrate (Forget_version v) s =
     (if vd_Table s then (None, s\<lparr>vd_Applied := filter (\<lambda>w. w \<noteq> v) (vd_Applied s)\<rparr>) else (Some (ErrMsg ''relation does not exist''), s))"

definition list_runner :: "versions_db runner" where
  "list_runner = \<lparr>rn_Exec = list_migrate, rn_Query = Some (\<lambda>v s.
     if vd_Table s then Inr (v \<in> set (vd_Applied s)) else Inl (ErrMsg ''relation does not exist''))\<rparr>"

interpretation versions: migration_tables list_runner "\<lambda>s. set (vd_Applied s)" vd_Ran
proof
  fix q err s s'
  assume "rn_Exec list_runner q s = (Some err, s')"
  then show "s' = s" by (cases q) (auto simp: list_runner_def split: if_splits)
qed (auto simp: list_runner_def version_applied_def split: if_splits)

section \<open>Properties\<close>

lemma read_entries_distinct:
  "read_entries es ms = Inr out \<Longrightarrow> distinct (map mg_Version ms) \<Longrightarrow> distinct (map mg_Version out)"
proof (induction es arbitrary: ms)
  case (Cons e es)
  have "distinct (map mg_Version (put_version v f ms))" if "\<And>m. mg_Version (f m) = mg_Version m" for v f
    using Cons.prems(2) put_version_versions [of f v ms, OF that] by auto
  then have "\<And>v b. distinct (map mg_Version (put_version v (\<lambda>m. m\<lparr>mg_Up := b\<rparr>) ms))"
    "\<And>v b. distinct (map mg_Version (put_version v (\<lambda>m. m\<lparr>mg_Down := b\<rparr>) ms))" by simp_all
  with Cons show ?case by (auto split: if_splits sum.splits)
qed simp

lemma AllMigrations_distinct:
  assumes "AllMigrations dir = Inr ms"
  shows "distinct (map mg_Version ms)"
proof -
  obtain es out where "read_entries es [] = Inr out" and ms: "ms = sort_key mg_Version out"
    using assms by (auto simp: AllMigrations_def check_pairs_ok split: sum.splits)
  from read_entries_distinct [OF this(1)] show ?thesis by (simp add: ms distinct_map inj_on_def)
qed

text \<open>The versions are those with an up file.\<close>

lemma put_version_set:
  assumes "\<And>m. mg_Version (f m) = mg_Version m"
  shows "mg_Version ` set (put_version v f ms) = insert v (mg_Version ` set ms)"
  using assms by (induction ms) auto

lemma read_entries_versions:
  assumes "read_entries es ms = Inr out"
  shows "mg_Version ` set ms \<subseteq> mg_Version ` set out \<and>
    (\<forall>e \<in> set es. \<not> fe_IsDir e \<longrightarrow> HasSuffix (fe_Name e) ''_up.sql'' \<longrightarrow>
       TrimSuffix (fe_Name e) ''_up.sql'' \<in> mg_Version ` set out)"
  using assms
proof (induction es arbitrary: ms)
  case (Cons e es)
  have "mg_Version ` set ms \<subseteq> mg_Version ` set (put_version v f ms)"
    "v \<in> mg_Version ` set (put_version v f ms)" if "\<And>m. mg_Version (f m) = mg_Version m" for v f
    using put_version_set [of f v ms, OF that] by auto
  then have up: "\<And>v b. insert v (mg_Version ` set ms) \<subseteq> mg_Version ` set (put_version v (\<lambda>m. m\<lparr>mg_Up := b\<rparr>) ms)"
    and down: "\<And>v b. mg_Version ` set ms \<subseteq> mg_Version ` set (put_version v (\<lambda>m. m\<lparr>mg_Down := b\<rparr>) ms)" by simp_all
  show ?case
  proof (cases "fe_IsDir e \<or> \<not> HasSuffix (fe_Name e) ''_up.sql''")
    case True
    then obtain ms' where "read_entries es ms' = Inr out" "mg_Version ` set ms \<subseteq> mg_Version ` set ms'"
      using Cons.prems down by (auto split: if_splits sum.splits)
    with Cons.IH True show ?thesis by fastforce
  next
    case False
    then obtain b where "read_entries es (put_version (TrimSuffix (fe_Name e) ''_up.sql'') (\<lambda>m. m\<lparr>mg_Up := b\<rparr>) ms) = Inr out"
      using Cons.prems by (auto split: sum.splits)
    from Cons.IH [OF this] up [of "TrimSuffix (fe_Name e) ''_up.sql''" b] show ?thesis by fastforce
  qed
qed simp

lemma AllMigrations_versions:
  assumes "AllMigrations (Inr es) = Inr ms" and "distinct (map fe_Name es)"
  shows "mg_Version ` set ms = {v. file_text es (v @ ''_up.sql'') \<noteq> None}"
proof
  show "mg_Version ` set ms \<subseteq> {v. file_text es (v @ ''_up.sql'') \<noteq> None}"
    using AllMigrations_pairs(2) [OF assms] by auto
next
  obtain out where out: "read_entries es [] = Inr out" "ms = sort_key mg_Version out"
    using assms(1) by (auto simp: AllMigrations_def check_pairs_ok split: sum.splits)
  show "{v. file_text es (v @ ''_up.sql'') \<noteq> None} \<subseteq> mg_Version ` set ms"
  proof
    fix v
    assume "v \<in> {v. file_text es (v @ ''_up.sql'') \<noteq> None}"
    then obtain e where "e \<in> set es" "\<not> fe_IsDir e" "fe_Name e = v @ ''_up.sql''"
      unfolding mem_Collect_eq file_text_def
      by (cases "find (\<lambda>e. \<not> fe_IsDir e \<and> fe_Name e = v @ ''_up.sql'') es") (force simp: find_Some_iff)+
    then show "v \<in> mg_Version ` set ms"
      using read_entries_versions [OF out(1)] HasSuffix_append [of v "''_up.sql''"] by (auto simp: out(2))
  qed
qed

text \<open>
  The embedded files are paired. When \<^verbatim>\<open>All\<close> succeeds its versions are strictly ascending,
  and a migration is in the list exactly when the directory holds an up and a down file for its
  version, neither of them empty, with these texts: no file is lost, none is attached to
  another version.
\<close>

theorem migrations_are_paired:
  assumes "AllMigrations (Inr es) = Inr ms" and "distinct (map fe_Name es)"
  shows "sorted_wrt (<) (map mg_Version ms) \<and>
    (\<forall>m. m \<in> set ms \<longleftrightarrow> mg_Up m \<noteq> '''' \<and> mg_Down m \<noteq> '''' \<and>
      file_text es (mg_Version m @ ''_up.sql'') = Some (mg_Up m) \<and>
      file_text es (mg_Version m @ ''_down.sql'') = Some (mg_Down m))"
  using AllMigrations_pairs [OF assms] by blast

definition sample_files :: "file_entry list" where
  "sample_files =
     [\<lparr>fe_Name = ''0001_init_down.sql'', fe_IsDir = False, fe_Content = Inr ''DROP''\<rparr>,
      \<lparr>fe_Name = ''0001_init_up.sql'', fe_IsDir = False, fe_Content = Inr ''CREATE''\<rparr>,
      \<lparr>fe_Name = ''migrations.go'', fe_IsDir = False, fe_Content = Inr ''''\<rparr>]"

definition sample_migration :: migration where
  "sample_migration = \<lparr>mg_Version = ''0001_init'', mg_Up = ''CREATE'', mg_Down = ''DROP''\<rparr>"

lemma sample_files_all: "AllMigrations (Inr sample_files) = Inr [sample_migration]"
  by (simp add: AllMigrations_def sample_files_def sample_migration_def HasSuffix_def TrimSuffix_def)

theorem migrations_are_paired_witness:
  "file_text sample_files (mg_Version sample_migration @ ''_up.sql'') = Some ''CREATE''"
proof -
  have "distinct (map fe_Name sample_files)" by (simp add: sample_files_def)
  from migrations_are_paired [OF sample_files_all this]
  have "file_text sample_files (mg_Version sample_migration @ ''_up.sql'') = Some (mg_Up sample_migration)"
    by (metis list.set_intros(1))
  then show ?thesis by (simp add: sample_migration_def)
qed

text \<open>
  C36: a run of \<^verbatim>\<open>Up\<close> executes a prefix of the pending scripts in the order of their versions.
  Over a directory of files with distinct names that pair up, the pending scripts are those of
  the versions that are not recorded: their versions ascend strictly, and they are the texts of
  the up files of exactly the versions that have an up file and are not recorded. Whether the
  run fails or not, it executes a prefix of them, each is recorded before the next one starts
  (so at most the last one executed is not recorded), and when the run succeeds all are.
\<close>

theorem Up_runs_pending_prefix:
  assumes "migration_tables rn applied history" and "AllMigrations (Inr es) = Inr ms" and "distinct (map fe_Name es)"
    and "Up rn now (Inr es) s = (err, s')"
  shows "\<exists>(todo :: migration list) j k. sorted_wrt (<) (map mg_Version todo) \<and>
    (\<forall>m \<in> set todo. file_text es (mg_Version m @ ''_up.sql'') = Some (mg_Up m)) \<and>
    mg_Version ` set todo = {v. file_text es (v @ ''_up.sql'') \<noteq> None \<and> v \<notin> applied s} \<and>
    history s' = history s @ map mg_Up (take k todo) \<and>
    applied s' = applied s \<union> mg_Version ` set (take j todo) \<and> j \<le> k \<and> k \<le> Suc j \<and>
    (err = None \<longrightarrow> j = length todo)"
proof -
  define todo where "todo = pending (applied s) ms"
  note pairs = AllMigrations_pairs [OF assms(2,3)]
  have "sorted_wrt (<) (map mg_Version todo)"
    using pairs(1) by (simp add: todo_def pending_def sorted_wrt_map sorted_wrt_filter)
  moreover have "\<forall>m \<in> set todo. file_text es (mg_Version m @ ''_up.sql'') = Some (mg_Up m)"
    using pairs(2) by (simp add: todo_def pending_def)
  moreover have "mg_Version ` set todo = {v. file_text es (v @ ''_up.sql'') \<noteq> None \<and> v \<notin> applied s}"
    using AllMigrations_versions [OF assms(2,3)] by (auto simp: todo_def pending_def)
  moreover obtain j k where "history s' = history s @ map mg_Up (take k todo)"
    "applied s' = applied s \<union> mg_Version ` set (take j todo)" "j \<le> k" "k \<le> Suc j" "err = None \<longrightarrow> j = length todo"
    using migration_tables.Up_runs [OF assms(1,4,2) AllMigrations_distinct [OF assms(2)]] unfolding todo_def by blast
  ultimately show ?thesis by blast
qed

definition empty_versions :: versions_db where
  "empty_versions = \<lparr>vd_Table = False, vd_Applied = [], vd_Ran = []\<rparr>"

text \<open>Two versions, the later one read first.\<close>

definition two_versions :: "file_entry list" where
  "two_versions =
     [\<lparr>fe_Name = ''2_b_up.sql'', fe_IsDir = False, fe_Content = Inr ''ALTER''\<rparr>,
      \<lparr>fe_Name = ''2_b_down.sql'', fe_IsDir = False, fe_Content = Inr ''REVERT''\<rparr>] @ sample_files"

lemma two_versions_all:
  "AllMigrations (Inr two_versions) =
     Inr [sample_migration, \<lparr>mg_Version = ''2_b'', mg_Up = ''ALTER'', mg_Down = ''REVERT''\<rparr>]"
proof -
  have "read_entries two_versions [] =
      Inr [\<lparr>mg_Version = ''2_b'', mg_Up = ''ALTER'', mg_Down = ''REVERT''\<rparr>, sample_migration]"
    by (simp add: two_versions_def sample_files_def sample_migration_def HasSuffix_def TrimSuffix_def)
  then show ?thesis
    by (simp add: AllMigrations_def sample_migration_def less_eq_char_def)
qed

theorem Up_runs_pending_prefix_witness:
  "\<exists>(todo :: migration list) k. sorted_wrt (<) (map mg_Version todo) \<and> ''2_b'' \<in> mg_Version ` set todo \<and>
     vd_Ran (snd (Up list_runner (\<lambda>_. 1) (Inr two_versions) empty_versions)) = map mg_Up (take k todo)"
proof -
  have "distinct (map fe_Name two_versions)" by (simp add: two_versions_def sample_files_def)
  moreover have "file_text two_versions (''2_b'' @ ''_up.sql'') \<noteq> None"
    by (simp add: two_versions_def file_text_def)
  moreover have "vd_Ran empty_versions = []" "''2_b'' \<notin> set (vd_Applied empty_versions)"
    by (simp_all add: empty_versions_def)
  moreover obtain todo :: "migration list" and j k where "sorted_wrt (<) (map mg_Version todo)"
    "mg_Version ` set todo = {v. file_text two_versions (v @ ''_up.sql'') \<noteq> None \<and> v \<notin> set (vd_Applied empty_versions)}"
    "vd_Ran (snd (Up list_runner (\<lambda>_. 1) (Inr two_versions) empty_versions)) =
       vd_Ran empty_versions @ map mg_Up (take k todo)"
    using Up_runs_pending_prefix [OF versions.migration_tables_axioms two_versions_all calculation(1) prod.collapse [symmetric],
        where now = "\<lambda>_. 1" and s = empty_versions]
    by (elim exE conjE) (rule that, assumption+)
  ultimately have "''2_b'' \<in> mg_Version ` set todo"
    "vd_Ran (snd (Up list_runner (\<lambda>_. 1) (Inr two_versions) empty_versions)) = map mg_Up (take k todo)"
    by simp_all
  with \<open>sorted_wrt (<) (map mg_Version todo)\<close> show ?thesis by blast
qed

text \<open>
  Migrating twice is migrating once, and down undoes up. A second \<^verbatim>\<open>Up\<close> executes no script;
  a \<^verbatim>\<open>Down\<close> after it executes the down script of every version in reverse order and leaves none of
  them recorded.
\<close>

theorem Up_Up_Down:
  assumes "migration_tables rn applied history" and "AllMigrations dir = Inr ms"
    and "Up rn now dir s = (None, s1)" and "Up rn now' dir s1 = (None, s2)" and "Down rn dir s2 = (None, s3)"
  shows "history s2 = history s1 \<and> applied s2 = applied s1 \<and> applied s1 = applied s \<union> mg_Version ` set ms \<and>
    history s3 = history s2 @ rev (map mg_Down ms) \<and> applied s3 = applied s - mg_Version ` set ms"
proof -
  note d = AllMigrations_distinct [OF assms(2)]
  have up: "applied t' = applied t \<union> mg_Version ` set ms \<and> (mg_Version ` set ms \<subseteq> applied t \<longrightarrow> history t' = history t)"
    if u: "Up rn clock dir t = (None, t')" for clock t t'
  proof -
    obtain j k where jk: "history t' = history t @ map mg_Up (take k (pending (applied t) ms))"
      "applied t' = applied t \<union> mg_Version ` set (take j (pending (applied t) ms))"
      "j = length (pending (applied t) ms)"
      using migration_tables.Up_runs [OF assms(1) u assms(2) d] by auto
    have "applied t' = applied t \<union> mg_Version ` set ms" using jk(2,3) by (auto simp: pending_def)
    moreover have "history t' = history t" if "mg_Version ` set ms \<subseteq> applied t"
    proof -
      have "pending (applied t) ms = []" using that by (auto simp: pending_def filter_empty_conv)
      then show ?thesis using jk(1) by simp
    qed
    ultimately show ?thesis by blast
  qed
  have down: "down_loop rn (rev ms) s2 = (None, s3)" using assms(2,5) by (simp add: Down_def)
  have a: "applied s1 = applied s \<union> mg_Version ` set ms" "applied s2 = applied s1" "history s2 = history s1"
    using up [OF assms(3)] up [OF assms(4)] by auto
  have "filter (\<lambda>m. mg_Version m \<in> applied s2) (rev ms) = rev ms"
    using a by (intro filter_True) auto
  moreover have "distinct (map mg_Version (rev ms))" using d by (simp add: rev_map [symmetric])
  ultimately have "history s3 = history s2 @ map mg_Down (rev ms)" "applied s3 = applied s2 - mg_Version ` set ms"
    using migration_tables.down_loop_reverts [OF assms(1) down] by auto
  then show ?thesis using a by (auto simp: rev_map)
qed

theorem Up_Up_Down_witness:
  "\<exists>s1 s2 s3. Up list_runner (\<lambda>_. 1) (Inr sample_files) empty_versions = (None, s1) \<and>
     Up list_runner (\<lambda>_. 2) (Inr sample_files) s1 = (None, s2) \<and> Down list_runner (Inr sample_files) s2 = (None, s3) \<and>
     vd_Ran s2 = vd_Ran s1 \<and> vd_Applied s3 = []"
proof -
  note run = Up_def Down_def sample_files_all list_runner_def version_applied_def empty_versions_def
  obtain s1 where s1: "Up list_runner (\<lambda>_. 1) (Inr sample_files) empty_versions = (None, s1)"
    "vd_Table s1" "vd_Applied s1 = [''0001_init'']" by (simp add: run sample_migration_def)
  obtain s2 where s2: "Up list_runner (\<lambda>_. 2) (Inr sample_files) s1 = (None, s2)"
    "vd_Table s2" "vd_Applied s2 = [''0001_init'']" using s1(2,3) by (simp add: run sample_migration_def)
  obtain s3 where s3: "Down list_runner (Inr sample_files) s2 = (None, s3)"
    using s2(2,3) by (simp add: run sample_migration_def)
  from Up_Up_Down [OF versions.migration_tables_axioms sample_files_all s1(1) s2(1) s3] s1(1) s2(1) s3 show ?thesis
    by (auto simp: sample_migration_def empty_versions_def)
qed

text \<open>
  Down needs up. On a database without the table of versions \<^verbatim>\<open>Down\<close> is no no-op: its first
  query fails, and \<^verbatim>\<open>migrate --down\<close> ends with status 1.
\<close>

theorem Down_without_table:
  assumes "AllMigrations dir = Inr (ms @ [m])" and "version_applied rn True (mg_Version m) s = Inl err"
  shows "Down rn dir s = (Some err, s) \<and> (dsn \<noteq> '''' \<longrightarrow> migrate_main False True dsn None rn now dir s = (1, s))"
  using assms by (simp add: Down_def migrate_main_def)

theorem Down_without_table_witness:
  "fst (migrate_main False True ''postgres:'' None list_runner (\<lambda>_. 1) (Inr sample_files) empty_versions) = 1"
proof -
  have "AllMigrations (Inr sample_files) = Inr ([] @ [sample_migration])" by (simp add: sample_files_all)
  from Down_without_table [OF this, of list_runner empty_versions _ "''postgres:''" "\<lambda>_. 1"] show ?thesis
    by (simp add: list_runner_def version_applied_def empty_versions_def)
qed

end
