(* ===== verification/Cli.thy ===== *)
theory Cli
  imports App Postgres Migrations
begin

text \<open>
  internal/cli, and the \<^verbatim>\<open>verify-chain\<close> command of cmd/audit-event-log: the flags, the opening of
  the database, the sweep over a store of which only \<^verbatim>\<open>List\<close> and \<^verbatim>\<open>Get\<close> are available, the
  report and the exit status.
\<close>

section \<open>Opening the database\<close>

text \<open>
  \<^verbatim>\<open>migrate\<close>: the two functions of the runner over the pool, one that drops the command tag and
  one that scans whether a version is recorded.
\<close>

definition pool_runner ::
  "(migration_sql \<Rightarrow> 'db \<Rightarrow> int result \<times> 'db) \<Rightarrow> (string \<Rightarrow> 'db \<Rightarrow> bool result) \<Rightarrow> 'db runner" where
  "pool_runner exec exists_version =
     \<lparr>rn_Exec = (\<lambda>q s. case exec q s of (Inl err, s') \<Rightarrow> (Some err, s') | (Inr _, s') \<Rightarrow> (None, s')),
      rn_Query = Some exists_version\<rparr>"

definition pg_migrate ::
  "(migration_sql \<Rightarrow> 'db \<Rightarrow> int result \<times> 'db) \<Rightarrow> (string \<Rightarrow> 'db \<Rightarrow> bool result) \<Rightarrow> (string \<Rightarrow> time) \<Rightarrow>
   file_entry list result \<Rightarrow> 'db \<Rightarrow> go_error option \<times> 'db" where
  "pg_migrate exec exists_version now dir s = Up (pool_runner exec exists_version) now dir s"

text \<open>
  \<^verbatim>\<open>postgres.Open\<close>: the errors of the pool and of the ping, then the migrations; the stores share
  the pool.
\<close>

definition pg_Open ::
  "go_error option \<Rightarrow> go_error option \<Rightarrow> (migration_sql \<Rightarrow> 'db \<Rightarrow> int result \<times> 'db) \<Rightarrow>
   (string \<Rightarrow> 'db \<Rightarrow> bool result) \<Rightarrow> (string \<Rightarrow> time) \<Rightarrow> file_entry list result \<Rightarrow> 'db \<Rightarrow>
   go_error option \<times> 'db" where
  "pg_Open pool_err ping_err exec exists_version now dir s =
     (case pool_err of Some err \<Rightarrow> (Some (ErrWrap ''postgres: open: '' err), s)
      | None \<Rightarrow> (case ping_err of Some err \<Rightarrow> (Some (ErrWrap ''postgres: ping: '' err), s)
        | None \<Rightarrow> pg_migrate exec exists_version now dir s))"

definition pg_All :: "'db pg_conn \<Rightarrow> ('db, 'db, 'db, 'db) store_all" where
  "pg_All conn = \<lparr>sa_Events = pg_event_store conn, sa_Anchors = pg_anchor_store conn,
     sa_Exports = pg_export_job_store conn, sa_DeadLetters = pg_dead_letter_store conn\<rparr>"

section \<open>Flags\<close>

record verify_flags =
  vf_From :: string
  vf_To :: string
  vf_DBURL :: string
  vf_Output :: string
  vf_Sign :: bool
  vf_KMSKeyID :: string

text \<open>
  \<^verbatim>\<open>flag.FlagSet.Parse\<close>: one or two dashes, a name, and a value after an equals sign or, for a
  string flag, in the next argument. Parsing stops at the first other argument, after a double
  dash, or with an error.
\<close>

datatype flag_error = ErrHelp | FlagError string

datatype flag_kind = StringFlag "string \<Rightarrow> verify_flags \<Rightarrow> verify_flags" | BoolFlag "bool \<Rightarrow> verify_flags \<Rightarrow> verify_flags"

datatype flag_syntax = NoFlag | BadSyntax | Named string "string option"

definition split_value :: "string \<Rightarrow> string \<times> string option" where
  "split_value name =
     (if CHR ''='' \<in> set (tl name)
      then (hd name # takeWhile (\<lambda>c. c \<noteq> CHR ''='') (tl name), Some (tl (dropWhile (\<lambda>c. c \<noteq> CHR ''='') (tl name))))
      else (name, None))"

definition flag_syntax_of :: "string \<Rightarrow> flag_syntax" where
  "flag_syntax_of s =
     (if length s < 2 \<or> hd s \<noteq> CHR ''-'' \<or> s = ''--'' then NoFlag
      else let name = (if s ! 1 = CHR ''-'' then drop 2 s else drop 1 s) in
        if name = '''' \<or> hd name = CHR ''-'' \<or> hd name = CHR ''='' then BadSyntax
        else (case split_value name of (n, v) \<Rightarrow> Named n v))"

definition ParseBool :: "string \<Rightarrow> bool option" where
  "ParseBool s =
     (if s \<in> {''1'', ''t'', ''T'', ''TRUE'', ''true'', ''True''} then Some True
      else if s \<in> {''0'', ''f'', ''F'', ''FALSE'', ''false'', ''False''} then Some False else None)"

definition formal_flag :: "string \<Rightarrow> flag_kind option" where
  "formal_flag n =
     (if n = ''from'' then Some (StringFlag (\<lambda>v f. f\<lparr>vf_From := v\<rparr>))
      else if n = ''to'' then Some (StringFlag (\<lambda>v f. f\<lparr>vf_To := v\<rparr>))
      else if n = ''db'' then Some (StringFlag (\<lambda>v f. f\<lparr>vf_DBURL := v\<rparr>))
      else if n = ''out'' then Some (StringFlag (\<lambda>v f. f\<lparr>vf_Output := v\<rparr>))
      else if n = ''sign'' then Some (BoolFlag (\<lambda>v f. f\<lparr>vf_Sign := v\<rparr>))
      else if n = ''kms-key'' then Some (StringFlag (\<lambda>v f. f\<lparr>vf_KMSKeyID := v\<rparr>))
      else None)"

fun parse_flags :: "string list \<Rightarrow> verify_flags \<Rightarrow> flag_error + verify_flags" where
  "parse_flags [] f = Inr f"
| "parse_flags (s # args) f =
     (case flag_syntax_of s of
        NoFlag \<Rightarrow> Inr f
      | BadSyntax \<Rightarrow> Inl (FlagError (''bad flag syntax: '' @ s))
      | Named n value \<Rightarrow>
         (case formal_flag n of
            None \<Rightarrow> Inl (if n = ''help'' \<or> n = ''h'' then ErrHelp else FlagError (''flag provided but not defined: -'' @ n))
          | Some (BoolFlag set_to) \<Rightarrow>
             (case value of None \<Rightarrow> parse_flags args (set_to True f)
              | Some v \<Rightarrow> (case ParseBool v of None \<Rightarrow> Inl (FlagError (''invalid boolean value for -'' @ n))
                | Some b \<Rightarrow> parse_flags args (set_to b f)))
          | Some (StringFlag set_to) \<Rightarrow>
             (case value of Some v \<Rightarrow> parse_flags args (set_to v f)
              | None \<Rightarrow> (case args of [] \<Rightarrow> Inl (FlagError (''flag needs an argument: -'' @ n))
                | v # rest \<Rightarrow> parse_flags rest (set_to v f)))))"

definition ParseVerifyChainFlags :: "environ \<Rightarrow> string list \<Rightarrow> flag_error + verify_flags" where
  "ParseVerifyChainFlags env args =
     parse_flags args \<lparr>vf_From = '''', vf_To = '''', vf_DBURL = env ''DB_URL'', vf_Output = '''', vf_Sign = False,
       vf_KMSKeyID = env ''KMS_KEY_ID''\<rparr>"

section \<open>The report\<close>

text \<open>\<^verbatim>\<open>listOnlyStore\<close>\<close>

definition list_only_error :: go_error where
  "list_only_error = ErrMsg ''cli: list-only store''"

definition listOnlyStore :: "'s event_store \<Rightarrow> 's event_store" where
  "listOnlyStore op =
     \<lparr>es_Insert = (\<lambda>e s. (Inl list_only_error, s)), es_Get = es_Get op, es_List = es_List op,
      es_ChainHead = (\<lambda>s. Inl list_only_error), es_SetLegalHold = (\<lambda>i h s. (Some list_only_error, s)),
      es_MarkAnchored = (\<lambda>t i s. (Inl list_only_error, s))\<rparr>"

definition report_line :: "string \<Rightarrow> string \<Rightarrow> string" where
  "report_line label v = label @ v @ [newline]"

text \<open>
  The text of the report. The window is printed in the location its times were parsed with,
  which the times of the model do not carry: \<open>fmt\<close> prints it.
\<close>

definition report_text :: "(time \<Rightarrow> string) \<Rightarrow> report \<Rightarrow> string" where
  "report_text fmt r =
     report_line ''Audit Event Log - Chain Integrity Report'' '''' @
     report_line ''=========================================='' '''' @
     report_line ''Window:  '' (fmt (rp_From r) @ '' -> '' @ fmt (rp_To r)) @
     report_line ''Events:  '' (itoa (rp_EventCount r)) @
     report_line ''Status:  '' (status_text (rp_Status r)) @
     (if rp_FirstBroken r \<noteq> ''''
      then report_line ''First broken event: '' (rp_FirstBroken r @ '' (position '' @ itoa (rp_Position r) @ '')'') else '''') @
     (if rp_Reason r \<noteq> '''' then report_line ''Reason:  '' (rp_Reason r) else '''') @
     (if rp_RootHash r \<noteq> '''' then report_line ''Root:    '' (rp_RootHash r) else '''') @
     (if rp_AnchorCount r > 0
      then report_line ''Anchors: '' (itoa (rp_AnchorCount r) @ '' (checked '' @ itoa (rp_CheckedAnchors r) @
        '', mismatches '' @ itoa (rp_AnchorMismatches r) @ '')'') else '''')"

text \<open>The report and the status, or the error; what has been written. No anchors, no signer.\<close>

definition RunVerifyChain ::
  "(time \<Rightarrow> string) \<Rightarrow> 's event_store \<Rightarrow> 's \<Rightarrow> (nat \<Rightarrow> go_error option) \<Rightarrow> time \<Rightarrow> time \<Rightarrow>
   ((report option \<times> int \<times> go_error option) \<times> string) option" where
  "RunVerifyChain fmt op s ctx from_ts to_ts =
     (case Sweep (listOnlyStore op) s (None :: (unit anchor_store \<times> unit) option) from_ts to_ts None ctx 0 of
        None \<Rightarrow> None
      | Some (Inl err) \<Rightarrow> Some ((None, 2, Some err), '''')
      | Some (Inr r) \<Rightarrow>
          Some ((Some r, if rp_Status r \<noteq> StatusOK then 1 else 0, None), report_text fmt r))"

text \<open>
  The command: the exit status and the text of the report. \<open>opened\<close> is \<^verbatim>\<open>postgres.Open\<close>,
  \<open>create\<close> is \<^verbatim>\<open>os.Create\<close>.
\<close>

definition window_time :: "string \<Rightarrow> time result" where
  "window_time t = (if t = '''' then Inr 0 else parse_RFC3339Nano t)"

definition runVerifyChain ::
  "environ \<Rightarrow> (string \<Rightarrow> ('s event_store \<times> 's) result) \<Rightarrow> (string \<Rightarrow> go_error option) \<Rightarrow> (time \<Rightarrow> string) \<Rightarrow>
   (nat \<Rightarrow> go_error option) \<Rightarrow> string list \<Rightarrow> (int \<times> string) option" where
  "runVerifyChain env opened create fmt ctx args =
     (case ParseVerifyChainFlags env args of
        Inl ErrHelp \<Rightarrow> Some (0, '''')
      | Inl (FlagError _) \<Rightarrow> Some (2, '''')
      | Inr flags \<Rightarrow>
         if vf_DBURL flags = '''' then Some (2, '''')
         else (case opened (vf_DBURL flags) of
            Inl _ \<Rightarrow> Some (2, '''')
          | Inr (events, s) \<Rightarrow>
             (case window_time (vf_From flags) of
                Inl _ \<Rightarrow> Some (2, '''')
              | Inr from_ts \<Rightarrow>
                 (case window_time (vf_To flags) of
                    Inl _ \<Rightarrow> Some (2, '''')
                  | Inr to_ts \<Rightarrow>
                     if vf_Output flags \<noteq> '''' \<and> create (vf_Output flags) \<noteq> None then Some (2, '''')
                     else (case RunVerifyChain fmt events s ctx from_ts to_ts of
                        None \<Rightarrow> None
                      | Some ((_, status, err), text) \<Rightarrow> Some (if err \<noteq> None then 2 else status, text))))))"

section \<open>Properties\<close>

text \<open>The arguments that set every flag.\<close>

definition flag_args :: "verify_flags \<Rightarrow> string list" where
  "flag_args f =
     [''--from='' @ vf_From f, ''-to='' @ vf_To f, ''--db='' @ vf_DBURL f, ''--out='' @ vf_Output f,
      ''--sign='' @ (if vf_Sign f then ''true'' else ''false''), ''--kms-key='' @ vf_KMSKeyID f]"

lemma flag_syntax_args [simp]:
  "flag_syntax_of (''--from='' @ v) = Named ''from'' (Some v)"
  "flag_syntax_of (''-to='' @ v) = Named ''to'' (Some v)"
  "flag_syntax_of (''--db='' @ v) = Named ''db'' (Some v)"
  "flag_syntax_of (''--out='' @ v) = Named ''out'' (Some v)"
  "flag_syntax_of (''--sign='' @ v) = Named ''sign'' (Some v)"
  "flag_syntax_of (''--kms-key='' @ v) = Named ''kms-key'' (Some v)"
  by (simp_all add: flag_syntax_of_def split_value_def Let_def)

text \<open>
  Flags survive the command line. Printed one per argument with equals signs, the flags are
  read back as they were, whatever characters the values hold and whatever the environment
  supplies as defaults.
\<close>

theorem flags_roundtrip: "ParseVerifyChainFlags env (flag_args f) = Inr f"
proof -
  have from_arg: "parse_flags ((''--from='' @ v) # r) g = parse_flags r (g\<lparr>vf_From := v\<rparr>)"
    and to_arg: "parse_flags ((''-to='' @ v) # r) g = parse_flags r (g\<lparr>vf_To := v\<rparr>)"
    and db_arg: "parse_flags ((''--db='' @ v) # r) g = parse_flags r (g\<lparr>vf_DBURL := v\<rparr>)"
    and out_arg: "parse_flags ((''--out='' @ v) # r) g = parse_flags r (g\<lparr>vf_Output := v\<rparr>)"
    and sign_arg: "parse_flags ((''--sign='' @ (if b then ''true'' else ''false'')) # r) g = parse_flags r (g\<lparr>vf_Sign := b\<rparr>)"
    and key_arg: "parse_flags ((''--kms-key='' @ v) # r) g = parse_flags r (g\<lparr>vf_KMSKeyID := v\<rparr>)" for v b r g
    by (simp_all only: parse_flags.simps flag_syntax_args flag_syntax.case)
      (simp_all add: formal_flag_def ParseBool_def)
  show ?thesis
    unfolding ParseVerifyChainFlags_def flag_args_def from_arg to_arg db_arg out_arg sign_arg key_arg
    by simp
qed

lemma listOnly_listing:
  assumes "event_listing op ok rows adm"
  shows "event_listing (listOnlyStore op) ok rows adm"
  using assms unfolding event_listing_def by (simp only: listOnlyStore_def event_store.select_convs)

lemma RunVerifyChain_window:
  assumes "event_listing op ok rows adm" and "ok s" and "adm (zero_filter\<lparr>f_From := f, f_To := t, f_Limit := 1000\<rparr>)"
    and "\<forall>e \<in> set (rows s). \<not> IsZero (TS e)" and "\<And>i. ctx i = None"
    and r: "r = sweep_report (listOnlyStore op) s (None :: (unit anchor_store \<times> unit) option) f t None 0
      (window_rows f t (rows s))"
  shows "RunVerifyChain fmt op s ctx f t =
     Some ((Some r, if linked (window_rows f t (rows s)) then 0 else 1, None), report_text fmt r)"
  using event_listing.Sweep_collects [OF listOnly_listing [OF assms(1)] assms(2,3,5,4),
      where anchors = "None :: (unit anchor_store \<times> unit) option"] VerifyChain_ok_iff
  by (simp add: RunVerifyChain_def r sweep_report_fields)

text \<open>
  The exit status is the verdict. Over any store that keeps the listing laws, \<^verbatim>\<open>RunVerifyChain\<close>
  ends, reports the number of rows of the window, and returns status 0 exactly when they form an
  unbroken chain, 1 otherwise. The report carries no signature.
\<close>

theorem verify_chain_exit_status:
  assumes "event_listing op ok rows adm" and "ok s" and "adm (zero_filter\<lparr>f_From := f, f_To := t, f_Limit := 1000\<rparr>)"
    and "\<forall>e \<in> set (rows s). \<not> IsZero (TS e)"
  shows "\<exists>r. RunVerifyChain fmt op s (\<lambda>_. None) f t =
      Some ((Some r, if linked (window_rows f t (rows s)) then 0 else 1, None), report_text fmt r) \<and>
    rp_EventCount r = int (length (window_rows f t (rows s))) \<and> rp_Signature r = ''''"
  using RunVerifyChain_window [OF assms refl refl]
  by (auto simp: sweep_report_fields sweep_report_def Let_def split: prod.split option.split)

theorem verify_chain_exit_status_witness:
  "\<exists>r. RunVerifyChain (\<lambda>_. '''') mem_event_store NewEventStore (\<lambda>_. None) 0 0 =
      Some ((Some r, 0, None), report_text (\<lambda>_. '''') r)"
  using verify_chain_exit_status [OF mem.event_listing_axioms NewEventStore_inv TrueI, of "\<lambda>_. ''''" 0 0]
  by (auto simp: NewEventStore_rows window_rows_def)

text \<open>
  C34: the command over Postgres. With the flags on the command line, a window given in whole
  microseconds and a database that keeps its contract, \<^verbatim>\<open>verify-chain\<close> ends with status 0 exactly
  when the rows of the window form an unbroken chain, and with 1 otherwise.
\<close>

theorem verify_chain_command:
  assumes "reliable_database conn uuid ok rows" and "ok s" and "\<forall>e \<in> set (rows s). \<not> IsZero (TS e)"
    and "window_time (vf_From f) = Inr a" and "whole_micros a" and "window_time (vf_To f) = Inr b" and "whole_micros b"
    and "vf_DBURL f \<noteq> ''''" and "opened (vf_DBURL f) = Inr (pg_event_store conn, s)" and "create (vf_Output f) = None"
  shows "map_option fst (runVerifyChain env opened create fmt (\<lambda>_. None) (flag_args f)) =
    Some (if linked (window_rows a b (rows s)) then 0 else 1)"
proof -
  have "event_listing (pg_event_store conn) ok rows (exact_filter uuid)"
    by (rule reliable_database.pg_listing [OF assms(1)])
  from RunVerifyChain_window [OF this assms(2) exact_filter_start [OF assms(5,7)] assms(3) refl refl] show ?thesis
    by (simp add: runVerifyChain_def flags_roundtrip assms(4,6,8-10))
qed

definition sample_flags :: verify_flags where
  "sample_flags = \<lparr>vf_From = '''', vf_To = '''', vf_DBURL = ''postgres:'', vf_Output = '''', vf_Sign = True, vf_KMSKeyID = ''k''\<rparr>"

theorem verify_chain_command_witness:
  "map_option fst (runVerifyChain (\<lambda>_. '''') (\<lambda>_. Inr (pg_event_store list_conn, [])) (\<lambda>_. None) (\<lambda>_. '''') (\<lambda>_. None)
     (flag_args sample_flags)) = Some 0"
proof -
  have t: "window_time '''' = Inr 0" "whole_micros 0" by (simp_all add: window_time_def whole_micros_def)
  have i: "list_inv []" by (simp add: list_inv_def)
  from verify_chain_command [OF tables.reliable_database_axioms i, of sample_flags 0 0] t show ?thesis
    by (simp add: sample_flags_def window_rows_def)
qed

end
