(* ===== verification/Lifecycle.thy ===== *)
theory Lifecycle
  imports App
begin

text \<open>
  The life of the server (\<^verbatim>\<open>Run\<close>, \<^verbatim>\<open>startLoops\<close>, \<^verbatim>\<open>Shutdown\<close> of internal/app/app.go) over the
  in-memory consumer: the main goroutine, the consumer loop, the anchor loop and the HTTP server
  as labelled steps over one state. A message that is handled, an anchor tick and a request
  that is served are one step each (\<open>Interleaving\<close> takes them apart). A choice of a \<^verbatim>\<open>select\<close> is
  one step for each of its ready cases.

  net/http is modelled as documented: \<^verbatim>\<open>ListenAndServe\<close> fails or listens until \<^verbatim>\<open>Shutdown\<close>, which
  closes the listeners, waits for the requests in flight, and gives up after its deadline.
\<close>

section \<open>States and steps\<close>

text \<open>
  The main goroutine: in the \<^verbatim>\<open>select\<close> of \<^verbatim>\<open>Run\<close>; in \<^verbatim>\<open>Shutdown\<close> after the cancellation, in
  \<^verbatim>\<open>http.Shutdown\<close>, in \<^verbatim>\<open>wg.Wait\<close>; or \<^verbatim>\<open>Run\<close> has returned.
\<close>

datatype main_pc = Selecting | Cancelled | Draining | Joining "go_error option" | Returned "go_error option"

record ('s, 'a, 'j, 'd, 'p) lifecycle =
  lc_World :: "('s, 'a, 'j, 'd, 'p) service_world"
  lc_Feed :: kafka_fake
  lc_Cancelled :: bool
  lc_wg :: nat
  lc_Consuming :: bool
  lc_Anchoring :: bool
  lc_Tick :: bool
  lc_Listening :: bool
  lc_Requests :: "request list"
  lc_ErrCh :: "go_error option"
  lc_Signal :: bool
  lc_Main :: main_pc

text \<open>\<^verbatim>\<open>startLoops\<close>: one goroutine for the consumer, one for the anchors when an interval is set.\<close>

definition startLoops ::
  "('s, 'a, 'j, 'd, 'p, 'c) server \<Rightarrow> ('s, 'a, 'j, 'd, 'p) lifecycle \<Rightarrow> ('s, 'a, 'j, 'd, 'p) lifecycle" where
  "startLoops srv s =
     (let s = s\<lparr>lc_wg := lc_wg s + 1, lc_Consuming := True\<rparr> in
      if cfg_ChainAnchorInterval (srv_Config srv) > 0 then s\<lparr>lc_wg := lc_wg s + 1, lc_Anchoring := True\<rparr> else s)"

text \<open>\<^verbatim>\<open>Run\<close> up to its \<^verbatim>\<open>select\<close>.\<close>

definition Run_start ::
  "('s, 'a, 'j, 'd, 'p, 'c) server \<Rightarrow> kafka_fake \<Rightarrow> ('s, 'a, 'j, 'd, 'p) service_world \<Rightarrow>
   ('s, 'a, 'j, 'd, 'p) lifecycle" where
  "Run_start srv f W = startLoops srv
     \<lparr>lc_World = W, lc_Feed = f, lc_Cancelled = False, lc_wg = 0, lc_Consuming = False, lc_Anchoring = False,
      lc_Tick = False, lc_Listening = True, lc_Requests = [], lc_ErrCh = None, lc_Signal = False, lc_Main = Selecting\<rparr>"

text \<open>What comes from outside, and what the goroutines do.\<close>

datatype action =
    MessageArrives kafka_message
  | TickerFires
  | RequestArrives request
  | SignalArrives
  | ListenFails go_error
  | Handles kafka_message
  | ConsumerDone
  | Ticks
  | AnchorsDone
  | Serves request
  | SeesError
  | SeesSignal
  | HttpCloses
  | HttpDrained
  | HttpGivesUp
  | Joined

fun internal :: "action \<Rightarrow> bool" where
  "internal (MessageArrives _) = False"
| "internal TickerFires = False"
| "internal (RequestArrives _) = False"
| "internal SignalArrives = False"
| "internal (ListenFails _) = False"
| "internal _ = True"

abbreviation ErrServerClosed :: go_error where
  "ErrServerClosed \<equiv> ErrMsg ''http: Server closed''"

abbreviation DeadlineExceeded :: go_error where
  "DeadlineExceeded \<equiv> ErrMsg ''context deadline exceeded''"

inductive life ::
  "outside \<Rightarrow> ('s, 'a, 'j, 'd, 'p, 'c) server \<Rightarrow> ('s, 'a, 'j, 'd, 'p) lifecycle \<Rightarrow> action \<Rightarrow>
   ('s, 'a, 'j, 'd, 'p) lifecycle \<Rightarrow> bool" for ou srv where
  life_message: "Enqueue msg (lc_Feed s) = (None, f) \<Longrightarrow> life ou srv s (MessageArrives msg) (s\<lparr>lc_Feed := f\<rparr>)"
| life_ticker: "lc_Anchoring s \<Longrightarrow> life ou srv s TickerFires (s\<lparr>lc_Tick := True\<rparr>)"
| life_request: "lc_Listening s \<Longrightarrow> life ou srv s (RequestArrives r) (s\<lparr>lc_Requests := lc_Requests s @ [r]\<rparr>)"
| life_signal: "life ou srv s SignalArrives (s\<lparr>lc_Signal := True\<rparr>)"
| life_listen: "lc_Listening s \<Longrightarrow> life ou srv s (ListenFails err) (s\<lparr>lc_Listening := False, lc_ErrCh := Some err\<rparr>)"
| life_handle: "lc_Consuming s \<Longrightarrow> kf_feed (lc_Feed s) = msg # feed \<Longrightarrow>
    handle_message (app_handler ou srv) msg ((lc_Feed s)\<lparr>kf_feed := feed\<rparr>, lc_World s) = (f, W) \<Longrightarrow>
    life ou srv s (Handles msg) (s\<lparr>lc_Feed := f, lc_World := W\<rparr>)"
| life_consumer_done: "lc_Consuming s \<Longrightarrow> lc_Cancelled s \<or> kf_feed (lc_Feed s) = [] \<and> kf_stopped (lc_Feed s) \<Longrightarrow>
    life ou srv s ConsumerDone (s\<lparr>lc_Consuming := False, lc_wg := lc_wg s - 1\<rparr>)"
| life_tick: "lc_Anchoring s \<Longrightarrow> lc_Tick s \<Longrightarrow>
    life ou srv s Ticks (s\<lparr>lc_Tick := False, lc_World := app_anchor_tick ou srv (lc_World s)\<rparr>)"
| life_anchors_done: "lc_Anchoring s \<Longrightarrow> lc_Cancelled s \<Longrightarrow>
    life ou srv s AnchorsDone (s\<lparr>lc_Anchoring := False, lc_Tick := False, lc_wg := lc_wg s - 1\<rparr>)"
| life_serve: "r \<in> set (lc_Requests s) \<Longrightarrow> app_request ou srv r (lc_World s) = Some (resp, W) \<Longrightarrow>
    life ou srv s (Serves r) (s\<lparr>lc_Requests := remove1 r (lc_Requests s), lc_World := W\<rparr>)"
| life_error: "lc_Main s = Selecting \<Longrightarrow> lc_ErrCh s = Some err \<Longrightarrow>
    life ou srv s SeesError (s\<lparr>lc_ErrCh := None, lc_Main := Returned (Some err)\<rparr>)"
| life_cancel: "lc_Main s = Selecting \<Longrightarrow> lc_Signal s \<Longrightarrow>
    life ou srv s SeesSignal (s\<lparr>lc_Signal := False, lc_Cancelled := True, lc_Main := Cancelled\<rparr>)"
| life_close: "lc_Main s = Cancelled \<Longrightarrow>
    life ou srv s HttpCloses (s\<lparr>lc_Listening := False,
      lc_ErrCh := (if lc_Listening s then Some ErrServerClosed else lc_ErrCh s), lc_Main := Draining\<rparr>)"
| life_drained: "lc_Main s = Draining \<Longrightarrow> lc_Requests s = [] \<Longrightarrow>
    life ou srv s HttpDrained (s\<lparr>lc_Main := Joining None\<rparr>)"
| life_give_up: "lc_Main s = Draining \<Longrightarrow> lc_Requests s \<noteq> [] \<Longrightarrow>
    life ou srv s HttpGivesUp (s\<lparr>lc_Main := Joining (Some DeadlineExceeded)\<rparr>)"
| life_joined: "lc_Main s = Joining err \<Longrightarrow> lc_wg s = 0 \<Longrightarrow>
    life ou srv s Joined (s\<lparr>lc_Main := Returned err\<rparr>)"

inductive lives ::
  "outside \<Rightarrow> ('s, 'a, 'j, 'd, 'p, 'c) server \<Rightarrow> ('s, 'a, 'j, 'd, 'p) lifecycle \<Rightarrow> action list \<Rightarrow>
   ('s, 'a, 'j, 'd, 'p) lifecycle \<Rightarrow> bool" for ou srv where
  lives_Nil: "lives ou srv s [] s"
| lives_snoc: "lives ou srv s xs s' \<Longrightarrow> life ou srv s' x s'' \<Longrightarrow> lives ou srv s (xs @ [x]) s''"

lemma lives_append:
  assumes "lives ou srv s' ys s''" and "lives ou srv s xs s'"
  shows "lives ou srv s (xs @ ys) s''"
  using assms
proof (induction rule: lives.induct)
  case (lives_snoc s' ys s1 y s2)
  then show ?case using lives.lives_snoc [of ou srv s "xs @ ys" s1 y s2] by simp
qed simp

lemma lives_one: "life ou srv s x s' \<Longrightarrow> lives ou srv s [x] s'"
  using lives_snoc [OF lives_Nil] by force

section \<open>What a run does to the stores\<close>

text \<open>The messages, ticks and requests of a run, as the service sees them.\<close>

fun happened :: "action list \<Rightarrow> happening list" where
  "happened [] = []"
| "happened (Handles msg # xs) = Delivered msg # happened xs"
| "happened (Ticks # xs) = AnchorTick # happened xs"
| "happened (Serves r # xs) = Requested r # happened xs"
| "happened (_ # xs) = happened xs"

lemma happened_append: "happened (xs @ ys) = happened xs @ happened ys"
  by (induction xs rule: happened.induct) auto

lemma happen_all_append:
  "happen_all ou srv (xs @ ys) W = (case happen_all ou srv xs W of None \<Rightarrow> None | Some W' \<Rightarrow> happen_all ou srv ys W')"
  by (induction xs arbitrary: W) (auto split: option.split)

lemma life_world:
  assumes "life ou srv s x s'"
  shows "happen_all ou srv (happened [x]) (lc_World s) = Some (lc_World s')"
  using assms
proof (cases rule: life.cases)
  case (life_handle msg feed f W)
  then show ?thesis by (auto simp: handle_message_def split: prod.splits option.splits)
qed auto

lemma lives_world:
  assumes "lives ou srv s xs s'"
  shows "happen_all ou srv (happened xs) (lc_World s) = Some (lc_World s')"
  using assms
proof (induction rule: lives.induct)
  case (lives_snoc s xs s' x s'')
  with life_world [OF lives_snoc.hyps(2)] show ?case by (simp add: happened_append happen_all_append)
qed simp

section \<open>Which goroutines run\<close>

text \<open>
  The wait group counts the loops that run; a shutdown has cancelled the context, closed the
  listeners, and, unless it gave up, waited for the requests; a \<^verbatim>\<open>Run\<close> that returned nil has
  left nothing running.
\<close>

definition life_inv :: "('s, 'a, 'j, 'd, 'p) lifecycle \<Rightarrow> bool" where
  "life_inv s \<longleftrightarrow> lc_wg s = of_bool (lc_Consuming s) + of_bool (lc_Anchoring s) \<and>
     (case lc_Main s of
        Selecting \<Rightarrow> True
      | Cancelled \<Rightarrow> lc_Cancelled s
      | Draining \<Rightarrow> lc_Cancelled s \<and> \<not> lc_Listening s
      | Joining err \<Rightarrow> lc_Cancelled s \<and> \<not> lc_Listening s \<and> (err = None \<longrightarrow> lc_Requests s = [])
      | Returned err \<Rightarrow> err = None \<longrightarrow> lc_wg s = 0 \<and> \<not> lc_Listening s \<and> lc_Requests s = [])"

lemma Run_start_inv: "life_inv (Run_start srv f W)"
  by (simp add: Run_start_def startLoops_def life_inv_def Let_def)

lemma life_inv_step: "life ou srv s x s' \<Longrightarrow> life_inv s \<Longrightarrow> life_inv s'"
  by (induction rule: life.induct) (auto simp: life_inv_def split: main_pc.splits)

lemma lives_inv: "lives ou srv s xs s' \<Longrightarrow> life_inv s \<Longrightarrow> life_inv s'"
  by (induction rule: lives.induct) (auto dest: life_inv_step)

lemma returned_quiet:
  assumes "life ou srv s x s'" and "life_inv s" and "lc_Main s = Returned None"
  shows "lc_Main s' = Returned None \<and> happened [x] = []"
  using assms by (cases rule: life.cases) (auto simp: life_inv_def)

lemma lives_quiet:
  assumes "lives ou srv s xs s'" and "life_inv s" and "lc_Main s = Returned None"
  shows "lc_Main s' = Returned None \<and> happened xs = []"
  using assms
proof (induction rule: lives.induct)
  case (lives_snoc s xs s' x s'')
  then show ?case
    using returned_quiet [OF lives_snoc.hyps(2)] lives_inv [OF lives_snoc.hyps(1)] by (simp add: happened_append)
qed simp

section \<open>The work that is left\<close>

definition work :: "('s, 'a, 'j, 'd, 'p) lifecycle \<Rightarrow> nat" where
  "work s = length (kf_feed (lc_Feed s)) + of_bool (lc_Tick s) + length (lc_Requests s) +
     of_bool (lc_Consuming s) + of_bool (lc_Anchoring s) +
     (case lc_Main s of Selecting \<Rightarrow> 4 | Cancelled \<Rightarrow> 3 | Draining \<Rightarrow> 2 | Joining _ \<Rightarrow> 1 | Returned _ \<Rightarrow> 0)"

lemma handled_feed:
  assumes "handle_message h m (f, w) = (f', w')"
  shows "kf_feed f' = kf_feed f"
  using handle_message_feed(1) [of h m "(f, w)"] assms by simp

lemma work_decreases: "life ou srv s x s' \<Longrightarrow> internal x \<Longrightarrow> work s' < work s"
  by (induction rule: life.induct) (auto simp: work_def handled_feed length_remove1 dest: length_pos_if_in_set)

lemma lives_work:
  assumes "lives ou srv s xs s'" and "\<forall>x \<in> set xs. internal x"
  shows "length xs + work s' \<le> work s"
  using assms
proof (induction rule: lives.induct)
  case (lives_snoc s xs s' x s'')
  with work_decreases [OF lives_snoc.hyps(2)] show ?case by simp
qed simp

text \<open>While \<^verbatim>\<open>Shutdown\<close> has not returned, some goroutine can go on.\<close>

definition stopping :: "('s, 'a, 'j, 'd, 'p) lifecycle \<Rightarrow> bool" where
  "stopping s \<longleftrightarrow> lc_Main s \<noteq> Selecting \<and> (\<forall>err. lc_Main s \<noteq> Returned err)"

lemma stopping_goes_on:
  assumes "life_inv s" and "stopping s"
  shows "\<exists>x s'. internal x \<and> life ou srv s x s'"
proof (cases "lc_Main s")
  case Cancelled
  from life_close [OF this] show ?thesis by (metis internal.simps)
next
  case Draining
  from life_drained [OF this] life_give_up [OF this] show ?thesis by (metis internal.simps)
next
  case (Joining err)
  then have c: "lc_Cancelled s" "lc_wg s = of_bool (lc_Consuming s) + of_bool (lc_Anchoring s)"
    using assms(1) by (simp_all add: life_inv_def)
  show ?thesis
  proof (cases "lc_wg s = 0")
    case True
    from life_joined [OF Joining this] show ?thesis by (metis internal.simps)
  next
    case False
    then have "lc_Consuming s \<or> lc_Anchoring s" using c(2) by auto
    then show ?thesis using life_consumer_done [of s ou srv] life_anchors_done [of s ou srv] c(1) by (metis internal.simps)
  qed
qed (use assms(2) in \<open>auto simp: stopping_def\<close>)

lemma stopping_step: "life ou srv s x s' \<Longrightarrow> stopping s \<Longrightarrow> stopping s' \<or> (\<exists>err. lc_Main s' = Returned err)"
  by (induction rule: life.induct) (auto simp: stopping_def)

lemma lives_stopping:
  "lives ou srv s xs s' \<Longrightarrow> stopping s \<Longrightarrow> \<forall>x \<in> set xs. internal x \<Longrightarrow> stopping s' \<or> (\<exists>err. lc_Main s' = Returned err)"
proof (induction rule: lives.induct)
  case (lives_snoc s xs s' x s'')
  have "\<exists>err. lc_Main s'' = Returned err" if "lc_Main s' = Returned err" for err
    using lives_snoc.hyps(2) that by (cases rule: life.cases) auto
  with lives_snoc stopping_step [OF lives_snoc.hyps(2)] show ?case by auto
qed simp

section \<open>A concrete run\<close>

lemma lives_Cons: "life ou srv s x s' \<Longrightarrow> lives ou srv s' xs s'' \<Longrightarrow> lives ou srv s (x # xs) s''"
  using lives_append [of ou srv s' xs s'' s "[x]"] lives_one by force

lemma sample_start:
  "Run_start sample_server f W =
     \<lparr>lc_World = W, lc_Feed = f, lc_Cancelled = False, lc_wg = 2, lc_Consuming = True, lc_Anchoring = True,
      lc_Tick = False, lc_Listening = True, lc_Requests = [], lc_ErrCh = None, lc_Signal = False, lc_Main = Selecting\<rparr>"
proof -
  have "cfg_ChainAnchorInterval sample_config > 0" by code_simp
  then have "cfg_ChainAnchorInterval (srv_Config sample_server) > 0"
    using Build_wires(3) [OF sample_server_built(1)] by simp
  then show ?thesis by (simp add: Run_start_def startLoops_def Let_def)
qed

lemma sample_signal:
  "\<exists>s. lives ou sample_server (Run_start sample_server f W) [SignalArrives, SeesSignal] s \<and> lc_Main s = Cancelled \<and>
     work s = length (kf_feed f) + 5"
  unfolding sample_start
  by (intro exI conjI, (rule lives_Cons [OF life_signal] lives_Cons [OF life_cancel] lives_Nil | simp add: work_def)+)

lemma sample_shutdown:
  "\<exists>s. lives ou sample_server (Run_start sample_server f W)
      [SignalArrives, SeesSignal, HttpCloses, HttpDrained, ConsumerDone, AnchorsDone, Joined] s \<and> lc_Main s = Returned None"
  unfolding sample_start
  by (intro exI conjI, (rule lives_Cons [OF life_signal] lives_Cons [OF life_cancel] lives_Cons [OF life_close]
      lives_Cons [OF life_drained] lives_Cons [OF life_consumer_done] lives_Cons [OF life_anchors_done]
      lives_Cons [OF life_joined] lives_Nil | simp)+)

lemma sample_handles:
  "\<exists>s. lives ou sample_server (Run_start sample_server one_message W) [Handles sample_kafka] s \<and>
     lc_World s = snd (app_handler ou sample_server sample_kafka W)"
proof -
  obtain W' where h: "app_handler ou sample_server sample_kafka W = (None, W')"
    using app_handler_events by (metis surj_pair)
  show ?thesis
    unfolding sample_start h
    by (intro exI conjI, (rule lives_Cons [OF life_handle] lives_Nil h | simp add: one_message_def handle_message_def h)+)
qed

section \<open>Properties\<close>

text \<open>
  The goroutines only do what the service does. Whatever the scheduler makes of the loops,
  the requests, the signal and the shutdown, the stores are at every moment those of the
  sequence of deliveries, ticks and requests that were handled: what is shown of such sequences
  holds of the running server.
\<close>

theorem lifecycle_refines_service:
  assumes "lives ou srv (Run_start srv f W) xs s"
  shows "happen_all ou srv (happened xs) W = Some (lc_World s)"
proof -
  have "lc_World (Run_start srv f W) = W" by (simp add: Run_start_def startLoops_def Let_def)
  with lives_world [OF assms] show ?thesis by simp
qed

theorem lifecycle_refines_service_witness:
  "happen_all sample_outside sample_server [Delivered sample_kafka] (start_world NewEventStore) =
     Some (snd (app_handler sample_outside sample_server sample_kafka (start_world NewEventStore)))"
  using sample_handles [of sample_outside "start_world NewEventStore"] lifecycle_refines_service by fastforce

text \<open>
  C9: the running server is append-only over any store. A server as \<^verbatim>\<open>Build\<close> wires it, whatever
  messages, ticks, requests, signals and failures of the listener come, however the scheduler
  interleaves what its goroutines do with them, and whether it is shutting down or not: over
  every store whose operations keep rows (the in-memory and the Postgres one do) no row
  disappears, none of its immutable columns changes and the anchored flag is never reset.
\<close>

theorem server_append_only:
  assumes "Build ct cfg = Inr srv" and "lives ou srv (Run_start srv f W) xs s"
    and "append_only_store (sa_Events (srv_Stores srv)) ok rows" and "ok (sw_Events W)"
  shows "\<forall>e \<in> set (rows (sw_Events W)). row_kept (rows (sw_Events (lc_World s))) e"
  using service_append_only [OF assms(1) lifecycle_refines_service [OF assms(2)] assms(3,4)] .

theorem server_append_only_witness:
  "\<exists>s. lives sample_outside sample_server (Run_start sample_server one_message (start_world one_row_store)) [Handles sample_kafka] s \<and>
     row_kept (mem_rows (sw_Events (lc_World s))) (sample_row 9 ''a'')"
proof -
  obtain s where s: "lives sample_outside sample_server (Run_start sample_server one_message (start_world one_row_store))
      [Handles sample_kafka] s" using sample_handles by blast
  have "append_only_store (sa_Events (srv_Stores sample_server)) mem_inv mem_rows"
    using sample_server_built(2) mem.append_only_store_axioms by (auto simp: in_memory_def memory_stores_def)
  from server_append_only [OF sample_server_built(1) s this] s show ?thesis
    by (auto simp: start_world_def NewEventStore_Insert)
qed

text \<open>
  After a clean shutdown nothing runs. When \<^verbatim>\<open>Run\<close> has returned nil, the wait group is
  empty, both loops have ended, no request is in flight and none is accepted: whatever comes
  later, no store, payload or counter changes any more.
\<close>

theorem quiet_after_shutdown:
  assumes "lives ou srv (Run_start srv f W) xs s" and "lc_Main s = Returned None" and "lives ou srv s ys s'"
  shows "lc_wg s = 0 \<and> \<not> lc_Consuming s \<and> \<not> lc_Anchoring s \<and> lc_Requests s = [] \<and> lc_World s' = lc_World s"
proof -
  have inv: "life_inv s" by (rule lives_inv [OF assms(1) Run_start_inv])
  have "happened ys = []" using lives_quiet [OF assms(3) inv assms(2)] by simp
  with lives_world [OF assms(3)] inv assms(2) show ?thesis by (auto simp: life_inv_def)
qed

theorem quiet_after_shutdown_witness:
  "\<exists>s s'. lives sample_outside sample_server (Run_start sample_server one_message (start_world NewEventStore))
       [SignalArrives, SeesSignal, HttpCloses, HttpDrained, ConsumerDone, AnchorsDone, Joined] s \<and>
     lives sample_outside sample_server s [SignalArrives] s' \<and> lc_wg s = 0 \<and> lc_World s' = lc_World s"
proof -
  obtain s where s: "lives sample_outside sample_server (Run_start sample_server one_message (start_world NewEventStore))
       [SignalArrives, SeesSignal, HttpCloses, HttpDrained, ConsumerDone, AnchorsDone, Joined] s" "lc_Main s = Returned None"
    using sample_shutdown by blast
  from quiet_after_shutdown [OF s lives_one [OF life_signal]] s(1) lives_one [OF life_signal] show ?thesis by blast
qed

text \<open>
  C20: a shutdown completes. Once the main goroutine is in \<^verbatim>\<open>Shutdown\<close>, however the goroutines
  are scheduled and as long as nothing new arrives, at most \<open>work s\<close> more steps are made, and
  as long as \<^verbatim>\<open>Run\<close> has not returned, one of them can be made: neither \<^verbatim>\<open>wg.Wait\<close> nor
  \<^verbatim>\<open>http.Shutdown\<close> blocks for ever.
\<close>

theorem shutdown_completes:
  assumes "lives ou srv (Run_start srv f W) xs s" and "stopping s"
    and "lives ou srv s ys s'" and "\<forall>y \<in> set ys. internal y"
  shows "length ys \<le> work s \<and>
    ((\<exists>err. lc_Main s' = Returned err) \<or> (\<exists>y s''. internal y \<and> life ou srv s' y s''))"
proof -
  have "life_inv s'" by (rule lives_inv [OF assms(3) lives_inv [OF assms(1) Run_start_inv]])
  then show ?thesis
    using lives_work [OF assms(3,4)] lives_stopping [OF assms(3,2,4)] stopping_goes_on [of s' ou srv] by auto
qed

theorem shutdown_completes_witness:
  "\<exists>s y s'. lives sample_outside sample_server (Run_start sample_server one_message (start_world NewEventStore))
       [SignalArrives, SeesSignal] s \<and> work s = 6 \<and> internal y \<and> life sample_outside sample_server s y s'"
proof -
  obtain s where s: "lives sample_outside sample_server (Run_start sample_server one_message (start_world NewEventStore))
       [SignalArrives, SeesSignal] s" "lc_Main s = Cancelled" "work s = 6"
    using sample_signal [of sample_outside one_message "start_world NewEventStore"] by (auto simp: one_message_def)
  then have "stopping s" by (simp add: stopping_def)
  from shutdown_completes [OF s(1) this lives_Nil] s show ?thesis by auto
qed

text \<open>
  A listener that fails ends \<^verbatim>\<open>Run\<close> without \<^verbatim>\<open>Shutdown\<close>: the error is returned while both
  loops still run, and the consumer goes on to handle messages until the process exits.
\<close>

theorem listen_failure_skips_shutdown:
  "\<exists>s W'. lives ou sample_server (Run_start sample_server one_message W)
       [ListenFails err, SeesError, Handles sample_kafka] s \<and>
     lc_Main s = Returned (Some err) \<and> lc_Consuming s \<and> lc_Anchoring s \<and> \<not> lc_Cancelled s \<and>
     app_handler ou sample_server sample_kafka W = (None, W') \<and> lc_World s = W'"
proof -
  obtain W' where h: "app_handler ou sample_server sample_kafka W = (None, W')"
    using app_handler_events by (metis surj_pair)
  show ?thesis
    unfolding sample_start
    by (intro exI conjI, (rule lives_Cons [OF life_listen] lives_Cons [OF life_error] lives_Cons [OF life_handle] lives_Nil h
        | simp add: one_message_def handle_message_def h)+)
qed

end
