(* ===== verification/Kms.thy ===== *)
theory Kms
  imports Chain
begin

text \<open>
  internal/kms and internal/kms/kmsadapter: the signers of the chain roots. The in-memory signer
  keeps one RSA key, made on first use or loaded; the adapter sends the digest to the key
  service, with a nil context. The operations on RSA keys and PEM texts, with the randomness they draw, and the key
  service are arguments; what is relied on of them are the locales \<open>pss_scheme\<close> and
  \<open>key_service\<close>, each with an interpretation.
\<close>

section \<open>The in-memory signer\<close>

text \<open>
  What the package uses of crypto/rsa, crypto/x509 and encoding/pem. The first argument of the
  first two is what the random reader yields. A PKCS8 key that is not an RSA key is \<open>Inr None\<close>.
\<close>

record 'k rsa_ops =
  ra_GenerateKey :: "nat \<Rightarrow> 'k result"
  ra_SignPSS :: "nat \<Rightarrow> 'k \<Rightarrow> bytes \<Rightarrow> bytes result"
  ra_VerifyPSS :: "'k \<Rightarrow> bytes \<Rightarrow> bytes \<Rightarrow> bool"
  ra_DecodePEM :: "bytes \<Rightarrow> bytes option"
  ra_ParsePKCS1 :: "bytes \<Rightarrow> 'k result"
  ra_ParsePKCS8 :: "bytes \<Rightarrow> 'k option result"
  ra_MarshalPKIX :: "'k \<Rightarrow> bytes result"
  ra_EncodePEM :: "string \<Rightarrow> bytes \<Rightarrow> bytes"

record 'k kms_fake =
  ks_key :: "'k option"
  ks_id :: string

definition NewFakeSigner :: "string \<Rightarrow> 'k kms_fake" where
  "NewFakeSigner keyID = \<lparr>ks_key = None, ks_id = keyID\<rparr>"

definition KeyID :: "'k kms_fake \<Rightarrow> string" where
  "KeyID f = ks_id f"

text \<open>A key is there already, or one is generated.\<close>

definition ensureKey :: "'k rsa_ops \<Rightarrow> nat \<Rightarrow> 'k kms_fake \<Rightarrow> 'k result \<times> 'k kms_fake" where
  "ensureKey rsa n f =
     (case ks_key f of
        Some k \<Rightarrow> (Inr k, f)
      | None \<Rightarrow> (case ra_GenerateKey rsa n of
          Inl err \<Rightarrow> (Inl (ErrWrap ''kms: generate key: '' err), f)
        | Inr k \<Rightarrow> (Inr k, f\<lparr>ks_key := Some k\<rparr>)))"

definition Fake_Sign :: "'k rsa_ops \<Rightarrow> nat \<Rightarrow> bytes \<Rightarrow> 'k kms_fake \<Rightarrow> (bytes \<times> string) result \<times> 'k kms_fake" where
  "Fake_Sign rsa n digest f =
     (case ensureKey rsa n f of
        (Inl err, f') \<Rightarrow> (Inl err, f')
      | (Inr k, f') \<Rightarrow> (case ra_SignPSS rsa n k digest of
          Inl err \<Rightarrow> (Inl (ErrWrap ''kms: sign: '' err), f')
        | Inr sig \<Rightarrow> (Inr (sig, ks_id f'), f')))"

definition Fake_Verify :: "'k rsa_ops \<Rightarrow> nat \<Rightarrow> bytes \<Rightarrow> bytes \<Rightarrow> 'k kms_fake \<Rightarrow> bool result \<times> 'k kms_fake" where
  "Fake_Verify rsa n digest sig f =
     (case ensureKey rsa n f of
        (Inl err, f') \<Rightarrow> (Inl err, f')
      | (Inr k, f') \<Rightarrow> (Inr (ra_VerifyPSS rsa k digest sig), f'))"

definition LoadPrivateKeyPEM :: "'k rsa_ops \<Rightarrow> bytes \<Rightarrow> 'k kms_fake \<Rightarrow> go_error option \<times> 'k kms_fake" where
  "LoadPrivateKeyPEM rsa pemKey f =
     (case ra_DecodePEM rsa pemKey of
        None \<Rightarrow> (Some (ErrMsg ''kms: no PEM block''), f)
      | Some block \<Rightarrow>
         (case ra_ParsePKCS1 rsa block of
            Inr k \<Rightarrow> (None, f\<lparr>ks_key := Some k\<rparr>)
          | Inl err \<Rightarrow>
             (case ra_ParsePKCS8 rsa block of
                Inr (Some k) \<Rightarrow> (None, f\<lparr>ks_key := Some k\<rparr>)
              | Inr None \<Rightarrow> (Some (ErrMsg ''kms: PKCS8 key is not RSA''), f)
              | Inl _ \<Rightarrow> (Some (ErrWrap ''kms: parse key: '' err), f))))"

definition PublicKeyPEM :: "'k rsa_ops \<Rightarrow> nat \<Rightarrow> 'k kms_fake \<Rightarrow> bytes result \<times> 'k kms_fake" where
  "PublicKeyPEM rsa n f =
     (case ensureKey rsa n f of
        (Inl err, f') \<Rightarrow> (Inl err, f')
      | (Inr k, f') \<Rightarrow> (case ra_MarshalPKIX rsa k of
          Inl err \<Rightarrow> (Inl err, f')
        | Inr der \<Rightarrow> (Inr (ra_EncodePEM rsa ''PUBLIC KEY'' der), f')))"

definition DigestSHA256 :: "bytes \<Rightarrow> bytes" where
  "DigestSHA256 data = sha256 data"

text \<open>The states a signer goes through when no key is loaded into it.\<close>

inductive signer_reach :: "'k rsa_ops \<Rightarrow> 'k kms_fake \<Rightarrow> 'k kms_fake \<Rightarrow> bool" for rsa where
  signer_start: "signer_reach rsa f f"
| signer_Sign: "signer_reach rsa f f' \<Longrightarrow> Fake_Sign rsa n d f' = (r, f'') \<Longrightarrow> signer_reach rsa f f''"
| signer_Verify: "signer_reach rsa f f' \<Longrightarrow> Fake_Verify rsa n d sig f' = (v, f'') \<Longrightarrow> signer_reach rsa f f''"
| signer_Public: "signer_reach rsa f f' \<Longrightarrow> PublicKeyPEM rsa n f' = (p, f'') \<Longrightarrow> signer_reach rsa f f''"

lemma ensureKey_keeps:
  assumes "ensureKey rsa n f = (r, f')"
  shows "ks_id f' = ks_id f" and "ks_key f = Some k \<Longrightarrow> f' = f \<and> r = Inr k" and "r = Inr k' \<Longrightarrow> ks_key f' = Some k'"
  using assms by (auto simp: ensureKey_def split: option.splits sum.splits)

text \<open>Once a signer has a key, nothing but loading another one changes it.\<close>

lemma with_key:
  assumes "ks_key f = Some k"
  shows "snd (Fake_Sign rsa n d f) = f" and "snd (Fake_Verify rsa n d sig f) = f" and "snd (PublicKeyPEM rsa n f) = f"
  using assms
  by (simp_all add: Fake_Sign_def Fake_Verify_def PublicKeyPEM_def ensureKey_def split: sum.split)

lemma signer_keeps_key:
  assumes "signer_reach rsa f f'" and "ks_key f = Some k"
  shows "f' = f"
  using assms
proof (induction rule: signer_reach.induct)
  case (signer_Sign f f' n d r f'')
  then show ?case using with_key(1) [of f k rsa n d] by simp
next
  case (signer_Verify f f' n d sig v f'')
  then show ?case using with_key(2) [of f k rsa n d sig] by simp
next
  case (signer_Public f f' n p f'')
  then show ?case using with_key(3) [of f k rsa n] by simp
qed simp

lemma Fake_Sign_ok:
  assumes "Fake_Sign rsa n d f = (Inr (sig, i), f')"
  obtains k where "ensureKey rsa n f = (Inr k, f')" "ra_SignPSS rsa n k d = Inr sig" "i = ks_id f'"
proof (cases "ensureKey rsa n f")
  case (Pair r f1)
  with assms that show thesis by (cases r) (auto simp: Fake_Sign_def split: sum.splits)
qed

text \<open>PSS: what a key has signed, its public part accepts.\<close>

locale pss_scheme =
  fixes rsa :: "'k rsa_ops"
  assumes verifies: "ra_SignPSS rsa n k d = Inr sig \<Longrightarrow> ra_VerifyPSS rsa k d sig"
begin

lemma signed_verifies:
  assumes "Fake_Sign rsa n d f = (Inr (sig, i), f')" and "signer_reach rsa f' f''"
  shows "i = ks_id f \<and> fst (Fake_Verify rsa m d sig f'') = Inr True"
proof -
  obtain k where e: "ensureKey rsa n f = (Inr k, f')" and s: "ra_SignPSS rsa n k d = Inr sig" "i = ks_id f'"
    by (rule Fake_Sign_ok [OF assms(1)])
  have "ks_key f' = Some k" "i = ks_id f" using ensureKey_keeps(1,3) [OF e] s by auto
  moreover from signer_keeps_key [OF assms(2) this(1)] have "f'' = f'" .
  ultimately show ?thesis using verifies [OF s(1)] by (simp add: Fake_Verify_def ensureKey_def)
qed

end

text \<open>A scheme whose signature is the key and the digest.\<close>

definition tag_ops :: "byte rsa_ops" where
  "tag_ops = \<lparr>ra_GenerateKey = (\<lambda>n. Inr (of_nat n)), ra_SignPSS = (\<lambda>n k d. Inr (k # d)),
     ra_VerifyPSS = (\<lambda>k d sig. sig = k # d), ra_DecodePEM = (\<lambda>b. if b = [] then None else Some b),
     ra_ParsePKCS1 = (\<lambda>b. Inr (hd b)), ra_ParsePKCS8 = (\<lambda>b. Inr None), ra_MarshalPKIX = (\<lambda>k. Inr [k]),
     ra_EncodePEM = (\<lambda>label b. bytes_of_string label @ b)\<rparr>"

interpretation tagged: pss_scheme tag_ops
  by unfold_locales (simp add: tag_ops_def)

section \<open>The key service\<close>

record sign_input =
  si_KeyId :: string
  si_Message :: bytes
  si_MessageType :: string
  si_SigningAlgorithm :: string

record verify_input =
  vi_KeyId :: string
  vi_Message :: bytes
  vi_MessageType :: string
  vi_Signature :: bytes
  vi_SigningAlgorithm :: string

text \<open>The outputs have optional fields: a nil signature, a nil key id.\<close>

record verify_output =
  vo_KeyId :: "string option"
  vo_SignatureValid :: bool

text \<open>
  The two calls of the service take a context, which Go code can leave nil. A call that panics
  has no value.
\<close>

type_synonym go_context = "nat \<Rightarrow> go_error option"

record kms_service =
  sv_Sign :: "go_context option \<Rightarrow> sign_input \<Rightarrow> bytes option result option"
  sv_Verify :: "go_context option \<Rightarrow> verify_input \<Rightarrow> verify_output result option"

definition DIGEST :: string where "DIGEST = ''DIGEST''"
definition RSASSA_PSS_SHA_256 :: string where "RSASSA_PSS_SHA_256 = ''RSASSA_PSS_SHA_256''"

record kms_client =
  kc_svc :: kms_service
  kc_keyID :: string

definition Client_KeyID :: "kms_client \<Rightarrow> string" where
  "Client_KeyID c = kc_keyID c"

text \<open>Both methods pass a nil context; \<open>None\<close> is a panic of the service's method.\<close>

definition Client_Sign :: "kms_client \<Rightarrow> bytes \<Rightarrow> (bytes \<times> string) result option" where
  "Client_Sign c digest =
     (if length digest \<noteq> 32
      then Some (Inl (ErrMsg (''kmsadapter: digest must be 32 bytes, got '' @ itoa (int (length digest)))))
      else map_option (\<lambda>out. case out of
          Inl err \<Rightarrow> Inl (ErrWrap ''kmsadapter: sign: '' err)
        | Inr None \<Rightarrow> Inl (ErrMsg ''kmsadapter: empty signature'')
        | Inr (Some sig) \<Rightarrow> Inr (sig, kc_keyID c))
       (sv_Sign (kc_svc c) None \<lparr>si_KeyId = kc_keyID c, si_Message = digest, si_MessageType = DIGEST,
          si_SigningAlgorithm = RSASSA_PSS_SHA_256\<rparr>))"

text \<open>The last line of \<^verbatim>\<open>Verify\<close>: what the adapter makes of an answer.\<close>

definition answer_valid :: "string \<Rightarrow> verify_output \<Rightarrow> bool" where
  "answer_valid keyID out \<longleftrightarrow> vo_KeyId out = Some keyID \<and> vo_SignatureValid out"

definition Client_Verify :: "kms_client \<Rightarrow> bytes \<Rightarrow> bytes \<Rightarrow> bool result option" where
  "Client_Verify c digest sig =
     map_option (\<lambda>out. case out of
         Inl err \<Rightarrow> Inl (ErrWrap ''kmsadapter: verify: '' err)
       | Inr out \<Rightarrow> Inr (answer_valid (kc_keyID c) out))
      (sv_Verify (kc_svc c) None \<lparr>vi_KeyId = kc_keyID c, vi_Message = digest, vi_MessageType = DIGEST,
         vi_Signature = sig, vi_SigningAlgorithm = RSASSA_PSS_SHA_256\<rparr>)"

text \<open>
  The documented behaviour of the service: its methods derive a context from the one they get,
  which panics for nil; with a context it accepts what it has signed, and the key id in its
  answers is the resource name of the key (\<open>arn\<close>), whichever of its names the request gave.
\<close>

locale key_service =
  fixes svc :: kms_service and arn :: "string \<Rightarrow> string"
  assumes nil_panics: "sv_Sign svc None inp = None" "sv_Verify svc None vinp = None"
    and signed_accepted: "sv_Sign svc (Some c) \<lparr>si_KeyId = i, si_Message = d, si_MessageType = mt,
        si_SigningAlgorithm = alg\<rparr> = Some (Inr (Some sig)) \<Longrightarrow>
      sv_Verify svc (Some c') \<lparr>vi_KeyId = i, vi_Message = d, vi_MessageType = mt, vi_Signature = sig,
        vi_SigningAlgorithm = alg\<rparr> = Some (Inr \<lparr>vo_KeyId = Some (arn i), vo_SignatureValid = True\<rparr>)"
begin

lemma adapter_panics:
  "Client_Sign \<lparr>kc_svc = svc, kc_keyID = i\<rparr> d =
     (if length d = 32 then None
      else Some (Inl (ErrMsg (''kmsadapter: digest must be 32 bytes, got '' @ itoa (int (length d))))))"
  "Client_Verify \<lparr>kc_svc = svc, kc_keyID = i\<rparr> d sig = None"
  by (simp_all add: Client_Sign_def Client_Verify_def nil_panics)

lemma own_answer:
  assumes "sv_Sign svc (Some c) \<lparr>si_KeyId = i, si_Message = d, si_MessageType = mt, si_SigningAlgorithm = alg\<rparr> =
    Some (Inr (Some sig))"
  shows "\<exists>out. sv_Verify svc (Some c') \<lparr>vi_KeyId = i, vi_Message = d, vi_MessageType = mt, vi_Signature = sig,
      vi_SigningAlgorithm = alg\<rparr> = Some (Inr out) \<and> (answer_valid i out \<longleftrightarrow> arn i = i)"
  using signed_accepted [OF assms] by (auto simp: answer_valid_def)

end

definition echo_service :: kms_service where
  "echo_service = \<lparr>sv_Sign = (\<lambda>c i. map_option (\<lambda>_. Inr (Some (si_Message i))) c),
     sv_Verify = (\<lambda>c v. map_option
       (\<lambda>_. Inr \<lparr>vo_KeyId = Some ''arn:key'', vo_SignatureValid = vi_Signature v = vi_Message v\<rparr>) c)\<rparr>"

interpretation echo: key_service echo_service "\<lambda>_. ''arn:key''"
  by unfold_locales (simp_all add: echo_service_def)

section \<open>Properties\<close>

text \<open>
  The in-memory signer accepts its own signatures. Whatever signing, verifying and
  publishing of the public key follows, and whichever randomness each draws, a signature is
  accepted for its digest as long as no other key is loaded.
\<close>

theorem fake_signer_roundtrip:
  assumes "pss_scheme rsa" and "Fake_Sign rsa n d f = (Inr (sig, i), f')" and "signer_reach rsa f' f''"
  shows "i = KeyID f \<and> fst (Fake_Verify rsa m d sig f'') = Inr True"
  using pss_scheme.signed_verifies [OF assms] by (simp add: KeyID_def)

theorem fake_signer_roundtrip_witness:
  "\<exists>sig f'. Fake_Sign tag_ops 3 [1] (NewFakeSigner ''k'') = (Inr (sig, ''k''), f') \<and>
     fst (Fake_Verify tag_ops 4 [1] sig f') = Inr True"
proof -
  obtain sig f' where run: "Fake_Sign tag_ops 3 [1] (NewFakeSigner ''k'') = (Inr (sig, ''k''), f')"
    by (simp add: Fake_Sign_def ensureKey_def NewFakeSigner_def tag_ops_def)
  from fake_signer_roundtrip [OF tagged.pss_scheme_axioms run signer_start] run show ?thesis by blast
qed

text \<open>
  An anchor's signature can be checked. An anchor that the job writes with the in-memory
  signer carries a signature that the signer accepts for the anchored root hash.
\<close>

theorem anchor_signature_verifies:
  assumes "pss_scheme rsa" and "ks_key f = Some k"
    and "AnchorJob_Run \<lparr>aj_Events = ops, aj_Anchors = aops, aj_Signer = (\<lambda>d. fst (Fake_Sign rsa n d f)),
      aj_NotaryURL = url, aj_EventCount = cnt\<rparr> env s t = (Inr a, s', t')"
  shows "fst (Fake_Verify rsa m (an_RootHash a) (an_Signature a) f) = Inr True \<and> an_KMSKeyID a = ks_id f"
proof -
  have "fst (Fake_Sign rsa n (an_RootHash a) f) = Inr (an_Signature a, an_KMSKeyID a)"
    using AnchorJob_Run_signed(2) [OF assms(3)] by simp
  then have "Fake_Sign rsa n (an_RootHash a) f = (Inr (an_Signature a, an_KMSKeyID a), f)"
    using with_key(1) [OF assms(2), of rsa n "an_RootHash a"] by (metis prod.collapse)
  from pss_scheme.signed_verifies [OF assms(1) this signer_start] show ?thesis by simp
qed

theorem anchor_signature_verifies_witness:
  "\<exists>a s' t'. AnchorJob_Run (mem_anchor_job (\<lambda>d. fst (Fake_Sign tag_ops 0 d \<lparr>ks_key = Some 9, ks_id = ''k''\<rparr>)) ''u'' None)
      \<lparr>oe_Now = 5, oe_UUID = ''x''\<rparr> one_row_store [] = (Inr a, s', t') \<and>
    fst (Fake_Verify tag_ops 0 (an_RootHash a) (an_Signature a) \<lparr>ks_key = Some 9, ks_id = ''k''\<rparr>) = Inr True"
proof -
  let ?f = "\<lparr>ks_key = Some 9, ks_id = ''k''\<rparr>"
  have sg: "fst (Fake_Sign tag_ops 0 d ?f) = Inr (9 # d, ''k'')" for d
    by (simp add: Fake_Sign_def ensureKey_def tag_ops_def)
  obtain a s' t' where run: "AnchorJob_Run (mem_anchor_job (\<lambda>d. fst (Fake_Sign tag_ops 0 d ?f)) ''u'' None)
      \<lparr>oe_Now = 5, oe_UUID = ''x''\<rparr> one_row_store [] = (Inr a, s', t')"
    using one_row_anchored [where sg = "\<lambda>d. fst (Fake_Sign tag_ops 0 d ?f)"] sg by blast
  from anchor_signature_verifies [OF tagged.pss_scheme_axioms _ run [unfolded mem_anchor_job_def], of 9 0] run
  show ?thesis by auto
qed

text \<open>
  The adapter never signs. Over a service that behaves as documented, signing a 32-byte digest
  and verifying any signature panic, for the nil context; a digest of another length is refused.
  With a context, the answer to a verification of the service's own signature would count as
  valid exactly when the key is configured by its resource name.
\<close>

theorem adapter_nil_context:
  assumes "key_service svc arn"
  shows "(Client_Sign \<lparr>kc_svc = svc, kc_keyID = i\<rparr> d = None \<longleftrightarrow> length d = 32) \<and>
    Client_Verify \<lparr>kc_svc = svc, kc_keyID = i\<rparr> d sig = None"
  using key_service.adapter_panics [OF assms] by simp

theorem adapter_nil_context_witness:
  "Client_Sign \<lparr>kc_svc = echo_service, kc_keyID = ''alias/audit''\<rparr> (replicate 32 7) = None"
  using adapter_nil_context [OF echo.key_service_axioms] by simp

theorem adapter_own_signature:
  assumes "key_service svc arn"
    and "sv_Sign svc (Some c) \<lparr>si_KeyId = i, si_Message = d, si_MessageType = mt, si_SigningAlgorithm = alg\<rparr> =
      Some (Inr (Some sig))"
  shows "\<exists>out. sv_Verify svc (Some c') \<lparr>vi_KeyId = i, vi_Message = d, vi_MessageType = mt, vi_Signature = sig,
      vi_SigningAlgorithm = alg\<rparr> = Some (Inr out) \<and> (answer_valid i out \<longleftrightarrow> arn i = i)"
  by (rule key_service.own_answer [OF assms])

theorem adapter_own_signature_witness:
  "\<exists>out. sv_Verify echo_service (Some (\<lambda>_. None)) \<lparr>vi_KeyId = ''alias/audit'', vi_Message = [7], vi_MessageType = DIGEST,
     vi_Signature = [7], vi_SigningAlgorithm = RSASSA_PSS_SHA_256\<rparr> = Some (Inr out) \<and> \<not> answer_valid ''alias/audit'' out"
proof -
  have "sv_Sign echo_service (Some (\<lambda>_. None)) \<lparr>si_KeyId = ''alias/audit'', si_Message = [7], si_MessageType = DIGEST,
      si_SigningAlgorithm = RSASSA_PSS_SHA_256\<rparr> = Some (Inr (Some [7]))"
    by (simp add: echo_service_def)
  from adapter_own_signature [OF echo.key_service_axioms this] show ?thesis by simp
qed

end
