(* ===== verification/S3_Adapter.thy ===== *)
theory S3_Adapter
  imports S3_Fake
begin

text \<open>
  internal/s3/s3adapter: the object-storage interface over the S3 service, which is an argument.
  The service is called with the inputs that the code builds; its buckets keep versions, as
  Object Lock requires, and what is relied on of them is the locale \<open>versioned_service\<close>.
\<close>

section \<open>Requests\<close>

text \<open>The input of \<^verbatim>\<open>PutObject\<close>; a pointer that may be nil is an option.\<close>

record put_input =
  pi_Bucket :: string
  pi_Key :: string
  pi_Body :: bytes
  pi_StorageClass :: string
  pi_ContentType :: "string option"
  pi_RetainUntil :: "time option"
  pi_LockMode :: string
  pi_LegalHoldStatus :: string

record head_output =
  ho_StorageClass :: string
  ho_ContentLength :: "int option"

text \<open>The errors that the adapter tells apart, and the others.\<close>

datatype svc_error = NoSuchKey | NotFound | OtherError go_error

record 's s3_service =
  sv_PutObject :: "time \<Rightarrow> put_input \<Rightarrow> 's \<Rightarrow> go_error option \<times> 's"
  sv_GetObject :: "string \<Rightarrow> string \<Rightarrow> 's \<Rightarrow> svc_error + bytes"
  sv_PresignGet :: "string \<Rightarrow> string \<Rightarrow> duration \<Rightarrow> string result"
  sv_HeadObject :: "string \<Rightarrow> string \<Rightarrow> 's \<Rightarrow> svc_error + head_output"
  sv_DeleteObject :: "time \<Rightarrow> string \<Rightarrow> string \<Rightarrow> 's \<Rightarrow> go_error option \<times> 's"

definition svc_error_text :: "svc_error \<Rightarrow> go_error" where
  "svc_error_text e = (case e of NoSuchKey \<Rightarrow> ErrMsg ''NoSuchKey'' | NotFound \<Rightarrow> ErrMsg ''NotFound'' | OtherError err \<Rightarrow> err)"

definition put_request :: "time \<Rightarrow> string \<Rightarrow> put_options \<Rightarrow> bytes \<Rightarrow> put_input" where
  "put_request now bucket opts buf =
     (let put = \<lparr>pi_Bucket = bucket, pi_Key = po_Key opts, pi_Body = buf, pi_StorageClass = po_StorageClass opts,
            pi_ContentType = None, pi_RetainUntil = None, pi_LockMode = '''', pi_LegalHoldStatus = ''''\<rparr>;
          put = (if pi_StorageClass put = '''' then put\<lparr>pi_StorageClass := ''STANDARD''\<rparr> else put);
          put = (if po_ContentType opts \<noteq> '''' then put\<lparr>pi_ContentType := Some (po_ContentType opts)\<rparr> else put);
          put = (if po_RetentionDays opts > 0
            then put\<lparr>pi_RetainUntil := Some (now + duration_days (po_RetentionDays opts)), pi_LockMode := ''COMPLIANCE''\<rparr>
            else put)
      in if po_LegalHold opts then put\<lparr>pi_LegalHoldStatus := ''ON''\<rparr> else put)"

definition Client_Put ::
  "'s s3_service \<Rightarrow> time \<Rightarrow> string \<Rightarrow> put_options \<Rightarrow> bytes \<Rightarrow> 's \<Rightarrow> string result \<times> 's" where
  "Client_Put svc now bucket opts buf s =
     (case sv_PutObject svc now (put_request now bucket opts buf) s of
        (Some err, s') \<Rightarrow> (Inl (ErrWrap (''s3adapter: put '' @ bucket @ ''/'' @ po_Key opts @ '': '') err), s')
      | (None, s') \<Rightarrow> (Inr (po_Key opts), s'))"

definition Client_Get :: "'s s3_service \<Rightarrow> string \<Rightarrow> string \<Rightarrow> 's \<Rightarrow> bytes result" where
  "Client_Get svc bucket key s =
     (case sv_GetObject svc bucket key s of
        Inl NoSuchKey \<Rightarrow> Inl (S3ErrNotFound key)
      | Inl err \<Rightarrow> Inl (ErrWrap (''s3adapter: get '' @ bucket @ ''/'' @ key @ '': '') (svc_error_text err))
      | Inr body \<Rightarrow> Inr body)"

definition Client_PresignGet :: "'s s3_service \<Rightarrow> string \<Rightarrow> string \<Rightarrow> duration \<Rightarrow> 's \<Rightarrow> string result" where
  "Client_PresignGet svc bucket key ttl s =
     (case sv_PresignGet svc bucket key ttl of
        Inl err \<Rightarrow> Inl (ErrWrap ''s3adapter: presign: '' err)
      | Inr url \<Rightarrow> Inr url)"

definition Client_Head :: "'s s3_service \<Rightarrow> string \<Rightarrow> string \<Rightarrow> 's \<Rightarrow> s3_object result" where
  "Client_Head svc bucket key s =
     (case sv_HeadObject svc bucket key s of
        Inl NotFound \<Rightarrow> Inl (S3ErrNotFound key)
      | Inl err \<Rightarrow> Inl (ErrWrap (''s3adapter: head '' @ bucket @ ''/'' @ key @ '': '') (svc_error_text err))
      | Inr out \<Rightarrow> Inr \<lparr>ob_Key = key, ob_Bucket = bucket,
          ob_Size = (case ho_ContentLength out of None \<Rightarrow> 0 | Some n \<Rightarrow> n), ob_StorageClass = ho_StorageClass out,
          ob_RetentionDays = 0, ob_LegalHold = False, ob_CreatedAt = 0\<rparr>)"

definition Client_Delete :: "'s s3_service \<Rightarrow> time \<Rightarrow> string \<Rightarrow> string \<Rightarrow> 's \<Rightarrow> go_error option \<times> 's" where
  "Client_Delete svc now bucket key s =
     (case sv_DeleteObject svc now bucket key s of
        (Some err, s') \<Rightarrow> (Some (ErrWrap (''s3adapter: delete '' @ bucket @ ''/'' @ key @ '': '') err), s')
      | (None, s') \<Rightarrow> (None, s'))"

definition adapter_client :: "'s s3_service \<Rightarrow> 's s3_client" where
  "adapter_client svc = \<lparr>sc_Put = Client_Put svc, sc_Get = Client_Get svc, sc_PresignGet = Client_PresignGet svc,
     sc_Head = Client_Head svc, sc_Delete = Client_Delete svc\<rparr>"

section \<open>Versioned buckets\<close>

text \<open>
  A key has its versions, the newest first; \<open>None\<close> is a delete marker. A write puts a version on
  top, a deletion without a version id puts a marker on top; a read sees the newest version.
\<close>

locale versioned_service =
  fixes svc :: "'s s3_service" and versions :: "'s \<Rightarrow> string \<Rightarrow> string \<Rightarrow> put_input option list"
  assumes put_adds: "sv_PutObject svc t p s = (None, s') \<Longrightarrow>
      versions s' b k = (if b = pi_Bucket p \<and> k = pi_Key p then Some p # versions s b k else versions s b k)"
    and put_fails: "sv_PutObject svc t p s = (Some err, s') \<Longrightarrow> versions s' = versions s"
    and get_newest: "versions s b k = Some p # vs \<Longrightarrow> sv_GetObject svc b k s = Inr (pi_Body p)"
    and get_none: "versions s b k = [] \<or> (\<exists>vs. versions s b k = None # vs) \<Longrightarrow> sv_GetObject svc b k s = Inl NoSuchKey"
    and delete_marks: "sv_DeleteObject svc t b' k' s = (None, s') \<Longrightarrow>
      versions s' b k = (if b = b' \<and> k = k' then None # versions s b k else versions s b k)"
    and delete_fails: "sv_DeleteObject svc t b' k' s = (Some err, s') \<Longrightarrow> versions s' = versions s"
begin

lemma put_get:
  assumes "Client_Put svc t b opts body s = (Inr k, s')"
  shows "k = po_Key opts \<and> Client_Get svc b k s' = Inr body \<and>
    versions s' b k = Some (put_request t b opts body) # versions s b k"
proof -
  have put: "sv_PutObject svc t (put_request t b opts body) s = (None, s')" and k: "k = po_Key opts"
    using assms by (auto simp: Client_Put_def split: prod.splits option.splits)
  have p: "pi_Bucket (put_request t b opts body) = b" "pi_Key (put_request t b opts body) = po_Key opts"
    "pi_Body (put_request t b opts body) = body"
    by (simp_all add: put_request_def Let_def)
  have v: "versions s' b k = Some (put_request t b opts body) # versions s b k"
    using put_adds [OF put, of b k] by (simp add: p k)
  with get_newest [OF v] show ?thesis by (simp add: k p Client_Get_def)
qed

lemma versions_grow:
  assumes "object_reach (adapter_client svc) (\<lambda>_ _. False) limit s s'"
  shows "\<exists>new. versions s' b k = new @ versions s b k"
  using assms
proof (induction rule: object_reach.induct)
  case object_start
  show ?case by simp
next
  case (object_Put s s' t bucket opts body r s'')
  have "snd (Client_Put svc t bucket opts body s') = s''" using object_Put.hyps(3) by (simp add: adapter_client_def)
  then obtain err where "sv_PutObject svc t (put_request t bucket opts body) s' = (err, s'')"
    by (cases "sv_PutObject svc t (put_request t bucket opts body) s'") (simp add: Client_Put_def split: option.splits)
  then have "versions s'' b k = versions s' b k \<or> (\<exists>v. versions s'' b k = v # versions s' b k)"
    using put_adds put_fails by (cases err) fastforce+
  with object_Put.IH show ?case by (metis append_Cons)
next
  case (object_Delete s s' t bucket key d s'')
  have "snd (Client_Delete svc t bucket key s') = s''" using object_Delete.hyps(3) by (simp add: adapter_client_def)
  then obtain err where "sv_DeleteObject svc t bucket key s' = (err, s'')"
    by (cases "sv_DeleteObject svc t bucket key s'") (simp add: Client_Delete_def split: option.splits)
  then have "versions s'' b k = versions s' b k \<or> (\<exists>v. versions s'' b k = v # versions s' b k)"
    using delete_marks delete_fails by (cases err) fastforce+
  with object_Delete.IH show ?case by (metis append_Cons)
next
  case (object_ages s s' s'')
  then show ?case by simp
qed

end

text \<open>A service held in a function from names to versions.\<close>

definition list_service :: "(string \<Rightarrow> string \<Rightarrow> put_input option list) s3_service" where
  "list_service = \<lparr>sv_PutObject = (\<lambda>t p s. (None, s(pi_Bucket p := (s (pi_Bucket p))(pi_Key p := Some p # s (pi_Bucket p) (pi_Key p))))),
     sv_GetObject = (\<lambda>b k s. case s b k of Some p # _ \<Rightarrow> Inr (pi_Body p) | _ \<Rightarrow> Inl NoSuchKey),
     sv_PresignGet = (\<lambda>b k d. Inr k),
     sv_HeadObject = (\<lambda>b k s. case s b k of Some p # _ \<Rightarrow> Inr \<lparr>ho_StorageClass = pi_StorageClass p,
       ho_ContentLength = Some (int (length (pi_Body p)))\<rparr> | _ \<Rightarrow> Inl NotFound),
     sv_DeleteObject = (\<lambda>t b k s. (None, s(b := (s b)(k := None # s b k))))\<rparr>"

interpretation listed: versioned_service list_service "\<lambda>s. s"
  by unfold_locales (auto simp: list_service_def)

text \<open>Whether the service refuses to remove a version at a time.\<close>

definition version_locked :: "time \<Rightarrow> put_input \<Rightarrow> bool" where
  "version_locked t p \<longleftrightarrow> pi_LegalHoldStatus p = ''ON'' \<or> (\<exists>u. pi_RetainUntil p = Some u \<and> t < u)"

section \<open>Properties\<close>

text \<open>
  The adapter locks what the fake locks. For any options, the version that the adapter asks
  the service to store is locked (by a legal hold, or until the date it sends) at exactly the
  times at which the in-memory store retains the object it would store.
\<close>

theorem adapter_lock_agrees:
  "version_locked t (put_request now bucket opts body) \<longleftrightarrow>
   isRetained t \<lparr>fo_bucket = bucket, fo_key = po_Key opts, fo_body = body, fo_storageClass = sc,
     fo_retentionDays = po_RetentionDays opts, fo_legalHold = po_LegalHold opts, fo_createdAt = now\<rparr>"
  by (simp add: version_locked_def put_request_def isRetained_def Let_def)

text \<open>
  Over a versioned bucket nothing is lost, but a locked object is overwritten. Whatever puts
  and deletes the adapter sends, every version stays; a put that the service accepts returns
  its key, and the key then reads as the new body, even when its former version is under
  retention, where the in-memory store refuses the put.
\<close>

theorem adapter_overwrites_locked:
  assumes "versioned_service svc versions" and "Client_Put svc t b opts body s = (Inr k, s')"
    and "object_reach (adapter_client svc) (\<lambda>_ _. False) limit s' s''"
  shows "Client_Get svc b k s' = Inr body \<and>
    (\<exists>new. versions s'' b k = new @ Some (put_request t b opts body) # versions s b k)"
  using versioned_service.put_get [OF assms(1,2)] versioned_service.versions_grow [OF assms(1,3), of b k]
  by auto

theorem adapter_overwrites_locked_witness:
  "\<exists>s1 s2. Client_Put list_service 1 ''b'' \<lparr>po_Key = ''k'', po_ContentType = '''', po_StorageClass = '''', po_RetentionDays = 1,
      po_LegalHold = True\<rparr> [1] (\<lambda>_ _. []) = (Inr ''k'', s1) \<and>
    Client_Put list_service 2 ''b'' \<lparr>po_Key = ''k'', po_ContentType = '''', po_StorageClass = '''', po_RetentionDays = 1,
      po_LegalHold = True\<rparr> [2] s1 = (Inr ''k'', s2) \<and> Client_Get list_service ''b'' ''k'' s2 = Inr [2]"
proof -
  let ?o = "\<lparr>po_Key = ''k'', po_ContentType = '''', po_StorageClass = '''', po_RetentionDays = 1, po_LegalHold = True\<rparr>"
  obtain s1 where s1: "Client_Put list_service 1 ''b'' ?o [1] (\<lambda>_ _. []) = (Inr ''k'', s1)"
    by (simp add: Client_Put_def list_service_def)
  obtain s2 where s2: "Client_Put list_service 2 ''b'' ?o [2] s1 = (Inr ''k'', s2)"
    by (simp add: Client_Put_def list_service_def)
  from adapter_overwrites_locked [OF listed.versioned_service_axioms s2 object_start] s1 s2 show ?thesis by blast
qed

end
