(* ===== verification/Kafka_Adapter.thy ===== *)
theory Kafka_Adapter
  imports Kafka_Fake Json
begin

text \<open>
  internal/kafka/kafkaadapter: the consumer over a reader of the Kafka client library, which is
  an argument. \<open>Consumer_Run\<close> is the loop of \<^verbatim>\<open>Run\<close>; nothing bounds it, so it takes the number of
  rounds to look at, and \<open>None\<close> says that it is still running then. What the library documents
  of a reader in a consumer group is the locale \<open>group_reader\<close>.
\<close>

section \<open>The consumer\<close>

record reader_config =
  rc_Brokers :: "string list"
  rc_Topic :: string
  rc_GroupID :: string
  rc_MinBytes :: int
  rc_MaxBytes :: int

definition New :: "string list \<Rightarrow> string \<Rightarrow> string \<Rightarrow> reader_config result" where
  "New brokers topic groupID =
     (if brokers = [] then Inl (KafkaErrInvalid ''brokers empty'')
      else if topic = '''' then Inl (KafkaErrInvalid ''topic empty'')
      else Inr \<lparr>rc_Brokers = brokers, rc_Topic = topic,
        rc_GroupID = (if groupID = '''' then ''audit-event-log'' else groupID), rc_MinBytes = 1, rc_MaxBytes = 10000000\<rparr>)"

record raw_message =
  rm_Topic :: string
  rm_Partition :: int
  rm_Offset :: int
  rm_Key :: bytes
  rm_Value :: bytes
  rm_Headers :: "(string \<times> bytes) list"

text \<open>The answers of \<^verbatim>\<open>ReadMessage\<close>; \<open>Waiting\<close> is a call that has not returned.\<close>

datatype read_result = Waiting | ReadFailed go_error | ReadOk raw_message

record 'b reader =
  rd_ReadMessage :: "'b \<Rightarrow> read_result \<times> 'b"
  rd_CommitMessages :: "raw_message \<Rightarrow> 'b \<Rightarrow> go_error option \<times> 'b"
  rd_Close :: "'b \<Rightarrow> go_error option \<times> 'b"

definition context_canceled :: go_error where
  "context_canceled = ErrCtx ''context canceled''"

definition to_message :: "raw_message \<Rightarrow> kafka_message" where
  "to_message m = \<lparr>km_Topic = rm_Topic m, km_Partition = rm_Partition m, km_Offset = rm_Offset m,
     km_Key = rm_Key m, km_Value = rm_Value m,
     km_Headers = fold (\<lambda>(k, v). map_put k (string_of_bytes v)) (rm_Headers m) []\<rparr>"

text \<open>
  A round: the context, the next message, the handler, and the commit when the handler's error is
  nil. \<open>ctx i\<close> is \<^verbatim>\<open>ctx.Err()\<close> in round \<open>i\<close>.
\<close>

fun Consumer_Run ::
  "'b reader \<Rightarrow> (nat \<Rightarrow> go_error option) \<Rightarrow> 'w handler \<Rightarrow> nat \<Rightarrow> nat \<Rightarrow> 'b \<Rightarrow> 'w \<Rightarrow> go_error option option \<times> 'b \<times> 'w" where
  "Consumer_Run rd ctx handler 0 i b w = (None, b, w)"
| "Consumer_Run rd ctx handler (Suc n) i b w =
     (case ctx i of Some err \<Rightarrow> (Some (Some err), b, w)
      | None \<Rightarrow> (case rd_ReadMessage rd b of
          (Waiting, b') \<Rightarrow> (None, b', w)
        | (ReadFailed err, b') \<Rightarrow>
            (Some (if unwrap_all err = context_canceled then None else Some (ErrWrap ''kafkaadapter: read: '' err)), b', w)
        | (ReadOk m, b') \<Rightarrow>
            (case handler (to_message m) w of
               (Some err, w') \<Rightarrow> Consumer_Run rd ctx handler n (Suc i) b' w'
             | (None, w') \<Rightarrow>
                (case rd_CommitMessages rd m b' of (_, b'') \<Rightarrow> Consumer_Run rd ctx handler n (Suc i) b'' w'))))"

text \<open>
  An error of a read other than the cancellation ends the loop for good: the messages after it
  are never handled, while the rest of the server goes on.
\<close>

lemma read_error_ends_loop:
  assumes "ctx i = None" and "rd_ReadMessage rd b = (ReadFailed err, b')" and "unwrap_all err \<noteq> context_canceled"
  shows "Consumer_Run rd ctx handler (Suc n) i b w = (Some (Some (ErrWrap ''kafkaadapter: read: '' err)), b', w)"
  using assms by simp

text \<open>\<^verbatim>\<open>Stop\<close> closes the reader once: the flag and the reader's state.\<close>

definition Consumer_Stop :: "'b reader \<Rightarrow> bool \<times> 'b \<Rightarrow> go_error option \<times> bool \<times> 'b" where
  "Consumer_Stop rd st =
     (case st of (stopped, b) \<Rightarrow>
       if stopped then (None, stopped, b) else (case rd_Close rd b of (err, b') \<Rightarrow> (err, True, b')))"

section \<open>A reader in a consumer group\<close>

text \<open>
  The documented behaviour of the library: with a group id \<^verbatim>\<open>ReadMessage\<close> commits the message it
  returns. \<open>unread b\<close> are the messages to come, \<open>resume b\<close> is the first offset that the group
  would read after a restart.
\<close>

locale group_reader =
  fixes rd :: "'b reader" and unread :: "'b \<Rightarrow> raw_message list" and resume :: "'b \<Rightarrow> int"
  assumes read_next: "rd_ReadMessage rd b = (ReadOk m, b') \<Longrightarrow> unread b = m # unread b' \<and> rm_Offset m < resume b' \<and> resume b \<le> resume b'"
    and read_waits: "rd_ReadMessage rd b = (Waiting, b') \<Longrightarrow> unread b = [] \<and> unread b' = [] \<and> resume b' = resume b"
    and read_fails: "rd_ReadMessage rd b = (ReadFailed err, b') \<Longrightarrow> unread b' = unread b \<and> resume b' = resume b"
    and commit_keeps: "rd_CommitMessages rd m b = (c, b') \<Longrightarrow> unread b' = unread b \<and> resume b \<le> resume b'"
begin

text \<open>Every message read goes to the handler once, in order, whatever the handler answers.\<close>

lemma Run_handles:
  assumes "Consumer_Run rd ctx handler n i b w = (r, b', w')"
  shows "\<exists>k \<le> n. unread b' = drop k (unread b) \<and>
    w' = fold (\<lambda>m w. snd (handler (to_message m) w)) (take k (unread b)) w \<and>
    (\<forall>m \<in> set (take k (unread b)). rm_Offset m < resume b') \<and> resume b \<le> resume b' \<and>
    (r = None \<longrightarrow> k = n \<or> unread b' = [])"
  using assms
proof (induction n arbitrary: i b w)
  case (Suc n)
  show ?case
  proof (cases "ctx i")
    case (Some err)
    then show ?thesis using Suc.prems by (intro exI [of _ 0]) auto
  next
    case None
    obtain x b1 where read: "rd_ReadMessage rd b = (x, b1)" by (metis surj_pair)
    show ?thesis
    proof (cases x)
      case Waiting
      then show ?thesis using Suc.prems None read read_waits [of b b1] by (intro exI [of _ 0]) auto
    next
      case (ReadFailed err)
      then show ?thesis using Suc.prems None read read_fails [of b err b1] by (intro exI [of _ 0]) auto
    next
      case (ReadOk m)
      obtain e w1 where h: "handler (to_message m) w = (e, w1)" by (metis surj_pair)
      have next_m: "unread b = m # unread b1" "rm_Offset m < resume b1" "resume b \<le> resume b1"
        using read_next read ReadOk by blast+
      obtain b2 where b2: "Consumer_Run rd ctx handler n (Suc i) b2 w1 = (r, b', w')" "unread b2 = unread b1"
        "resume b1 \<le> resume b2"
      proof (cases e)
        case (Some err)
        with Suc.prems None read ReadOk h show thesis by (intro that [of b1]) simp_all
      next
        case e: None
        obtain c b2 where "rd_CommitMessages rd m b1 = (c, b2)" by (metis surj_pair)
        with Suc.prems None read ReadOk h e commit_keeps show thesis by (intro that [of b2]) auto
      qed
      from Suc.IH [OF b2(1)] obtain k where "k \<le> n" "unread b' = drop k (unread b2)"
        "w' = fold (\<lambda>m w. snd (handler (to_message m) w)) (take k (unread b2)) w1"
        "\<forall>m \<in> set (take k (unread b2)). rm_Offset m < resume b'" "resume b2 \<le> resume b'"
        "r = None \<longrightarrow> k = n \<or> unread b' = []" by blast
      then show ?thesis by (intro exI [of _ "Suc k"]) (use next_m(2,3) b2(3) in \<open>auto simp: next_m(1) b2(2) h\<close>)
    qed
  qed
qed simp

end

text \<open>A reader over a list of messages, with the offset that is committed.\<close>

definition list_reader :: "(raw_message list \<times> int) reader" where
  "list_reader = \<lparr>rd_ReadMessage = (\<lambda>(ms, n). case ms of [] \<Rightarrow> (Waiting, ([], n))
       | m # rest \<Rightarrow> (ReadOk m, (rest, max n (rm_Offset m + 1)))),
     rd_CommitMessages = (\<lambda>m (ms, n). (None, (ms, max n (rm_Offset m + 1)))),
     rd_Close = (\<lambda>b. (None, b))\<rparr>"

interpretation listed: group_reader list_reader fst snd
  by unfold_locales (auto simp: list_reader_def split: list.splits)

section \<open>Properties\<close>

text \<open>
  Each message is handled once, a failed one too. However many rounds the loop runs, the
  handler has seen a prefix of the messages, each once and in order; when the loop is still
  running after its rounds, it has handled one message in each or waits with none left. All the
  messages seen, those whose handler failed included, lie before the offset at which a restart
  resumes: none of them is delivered again.
\<close>

theorem adapter_handles_each_once:
  assumes "group_reader rd unread resume" and "Consumer_Run rd ctx handler n 0 b w = (r, b', w')"
  shows "\<exists>k \<le> n. unread b' = drop k (unread b) \<and>
    w' = fold (\<lambda>m w. snd (handler (to_message m) w)) (take k (unread b)) w \<and>
    (\<forall>m \<in> set (take k (unread b)). rm_Offset m < resume b') \<and> (r = None \<longrightarrow> k = n \<or> unread b' = [])"
  using group_reader.Run_handles [OF assms] by blast

definition failed_once :: raw_message where
  "failed_once = \<lparr>rm_Topic = ''t'', rm_Partition = 0, rm_Offset = 7, rm_Key = [], rm_Value = [], rm_Headers = []\<rparr>"

theorem adapter_handles_each_once_witness:
  "\<exists>b'. Consumer_Run list_reader (\<lambda>_. None) (\<lambda>m w. (Some (ErrMsg ''no''), w + 1)) 1 0 ([failed_once], 0) (0::nat) = (None, b', 1) \<and>
     fst b' = [] \<and> rm_Offset failed_once < snd b'"
proof -
  let ?h = "\<lambda>m w. (Some (ErrMsg ''no''), w + 1)"
  obtain b' where run: "Consumer_Run list_reader (\<lambda>_. None) ?h 1 0 ([failed_once], 0) (0::nat) = (None, b', 1)"
    by (simp add: list_reader_def)
  from adapter_handles_each_once [OF listed.group_reader_axioms run] obtain k where k: "k \<le> 1"
    "fst b' = drop k (fst ([failed_once], 0::int))"
    "1 = fold (\<lambda>m w. snd (?h (to_message m) w)) (take k (fst ([failed_once], 0::int))) (0::nat)"
    "\<forall>m \<in> set (take k (fst ([failed_once], 0::int))). rm_Offset m < snd b'" by blast
  have "k = 1" using k(1,3) by (cases k) auto
  with k(2,4) run show ?thesis by (intro exI [of _ b']) simp
qed

end
