(* ===== verification/Program.thy ===== *)
theory Program
  imports Cli Lifecycle Kms S3_Adapter Kafka_Adapter
begin

text \<open>
  The entry point (\<^verbatim>\<open>main\<close> of cmd/audit-event-log) and the telemetry it starts and stops
  (internal/otel), and the constructors of the adapters (internal/app/adapters.go). The
  exporters and the resource of the OpenTelemetry libraries, and the loaded AWS configuration,
  are arguments.
\<close>

section \<open>Telemetry\<close>

text \<open>
  What \<^verbatim>\<open>Init\<close> uses of the libraries: the resource for a service name, the two exporters for an
  endpoint, and what stopping the providers built from them answers.
\<close>

record ('r, 'e, 'm) otel_lib =
  ot_Resource :: "string \<Rightarrow> 'r result"
  ot_SpanExporter :: "string \<Rightarrow> 'e result"
  ot_MetricExporter :: "string \<Rightarrow> 'm result"
  ot_TracerShutdown :: "'e \<Rightarrow> 'r \<Rightarrow> go_error option"
  ot_MeterShutdown :: "'m \<Rightarrow> 'r \<Rightarrow> go_error option"

text \<open>The installed global providers.\<close>

datatype ('r, 'e, 'm) providers = NoExport | Exporting 'r 'e 'm

definition otel_Init :: "environ \<Rightarrow> ('r, 'e, 'm) otel_lib \<Rightarrow> string \<Rightarrow> ('r, 'e, 'm) providers result" where
  "otel_Init env lib serviceName =
     (let endpoint = TrimSpace (env ''OTEL_EXPORTER_OTLP_ENDPOINT'') in
      if endpoint = '''' then Inr NoExport
      else
        let name = TrimSpace (env ''OTEL_SERVICE_NAME'');
            serviceName = (if name \<noteq> '''' then name else serviceName);
            endpoint = TrimPrefix (TrimPrefix endpoint ''http://'') ''grpc://'' in
        case ot_Resource lib serviceName of
          Inl err \<Rightarrow> Inl (ErrWrap ''otel resource: '' err)
        | Inr res \<Rightarrow>
           (case ot_SpanExporter lib endpoint of
              Inl err \<Rightarrow> Inl (ErrWrap ''otel trace exporter: '' err)
            | Inr spanExp \<Rightarrow>
               (case ot_MetricExporter lib endpoint of
                  Inl err \<Rightarrow> Inl (ErrWrap ''otel metric exporter: '' err)
                | Inr metricExp \<Rightarrow> Inr (Exporting res spanExp metricExp))))"

text \<open>The function that \<^verbatim>\<open>Init\<close> returns: both providers are stopped, the tracer's error comes first.\<close>

definition otel_shutdown :: "('r, 'e, 'm) otel_lib \<Rightarrow> ('r, 'e, 'm) providers \<Rightarrow> go_error option" where
  "otel_shutdown lib p =
     (case p of NoExport \<Rightarrow> None
      | Exporting res spanExp metricExp \<Rightarrow>
          let traceErr = map_option (ErrWrap ''trace shutdown: '') (ot_TracerShutdown lib spanExp res);
              metricErr = map_option (ErrWrap ''metric shutdown: '') (ot_MeterShutdown lib metricExp res) in
          if traceErr \<noteq> None then traceErr else metricErr)"

section \<open>The constructors of the adapters\<close>

text \<open>\<open>loaded\<close> is the service made from the default configuration, or the error of loading it.\<close>

definition newS3Client :: "'s s3_service result \<Rightarrow> 's s3_client result" where
  "newS3Client loaded = (case loaded of Inl err \<Rightarrow> Inl err | Inr svc \<Rightarrow> Inr (adapter_client svc))"

definition newKMSClient :: "kms_service result \<Rightarrow> string \<Rightarrow> kms_client result" where
  "newKMSClient loaded keyID =
     (case loaded of Inl err \<Rightarrow> Inl err | Inr svc \<Rightarrow> Inr \<lparr>kc_svc = svc, kc_keyID = keyID\<rparr>)"

definition newKafkaConsumer :: "config \<Rightarrow> reader_config result" where
  "newKafkaConsumer cfg = New (cfg_KafkaBrokers cfg) (cfg_KafkaTopic cfg) (cfg_KafkaConsumerGroup cfg)"

section \<open>The entry point\<close>

text \<open>
  How the process ends: its status, and the providers that the deferred shutdown has stopped.
  \<^verbatim>\<open>log.Fatalf\<close> exits with status 1 and runs no deferred function. \<open>None\<close> is a process that
  does not end: \<open>verify\<close> is \<open>runVerifyChain\<close>, and \<open>run\<close> is \<^verbatim>\<open>Run\<close>, which may never return.
\<close>

definition audit_main ::
  "(string list \<Rightarrow> (int \<times> string) option) \<Rightarrow> environ \<Rightarrow> ('r, 'e, 'm) otel_lib \<Rightarrow> config \<Rightarrow>
   (config \<Rightarrow> 'v result) \<Rightarrow> ('v \<Rightarrow> go_error option option) \<Rightarrow> string list \<Rightarrow>
   (int \<times> ('r, 'e, 'm) providers option) option" where
  "audit_main verify env lib cfg build run args =
     (if length args > 1 \<and> args ! 1 = ''verify-chain''
      then map_option (\<lambda>(code, _). (code, None)) (verify (drop 2 args))
      else case otel_Init env lib ''audit-event-log'' of
        Inl err \<Rightarrow> Some (1, None)
      | Inr providers \<Rightarrow>
         (case build cfg of
            Inl err \<Rightarrow> Some (1, None)
          | Inr srv \<Rightarrow> map_option (\<lambda>err. case err of None \<Rightarrow> (0, Some providers) | Some _ \<Rightarrow> (1, None)) (run srv)))"

section \<open>Properties\<close>

text \<open>
  No collector, no connection: when the endpoint is blank no exporter is made and the shutdown
  answers nil; a service name and an endpoint that are set are used trimmed, without the scheme.
\<close>

lemma otel_Init_endpoint:
  shows "TrimSpace (env ''OTEL_EXPORTER_OTLP_ENDPOINT'') = '''' \<Longrightarrow> otel_Init env lib n = Inr NoExport"
    and "otel_Init env lib n = Inr (Exporting res se me) \<Longrightarrow>
      ot_SpanExporter lib (TrimPrefix (TrimPrefix (TrimSpace (env ''OTEL_EXPORTER_OTLP_ENDPOINT'')) ''http://'') ''grpc://'') = Inr se \<and>
      ot_MetricExporter lib (TrimPrefix (TrimPrefix (TrimSpace (env ''OTEL_EXPORTER_OTLP_ENDPOINT'')) ''http://'') ''grpc://'') = Inr me"
  by (auto simp: otel_Init_def Let_def split: if_splits sum.splits)

lemma otel_shutdown_nil_iff:
  "otel_shutdown lib p = None \<longleftrightarrow>
     (\<forall>res se me. p = Exporting res se me \<longrightarrow> ot_TracerShutdown lib se res = None \<and> ot_MeterShutdown lib me res = None)"
  by (cases p) (auto simp: otel_shutdown_def Let_def)

text \<open>
  C35: what a status of 0 means. \<open>run\<close> is \<^verbatim>\<open>Run\<close>: what it returns is returned at the end of
  some life of the server that \<^verbatim>\<open>Build\<close> made. A process that exits with 0 is either a
  verify-chain command whose verification gave 0 (no telemetry is started or stopped), or a
  server whose telemetry was started and is now stopped and whose \<^verbatim>\<open>Run\<close> returned nil: no loop
  runs, no request is in flight and no store changes any more. With any other status no
  telemetry is flushed.
\<close>

theorem service_exit_clean:
  assumes "\<forall>srv err. run srv = Some err \<longrightarrow>
      (\<exists>xs s. lives ou srv (Run_start srv f W) xs s \<and> lc_Main s = Returned err)"
    and "audit_main verify env lib cfg (Build ct) run args = Some (status, flushed)"
  shows "(status \<noteq> 0 \<longrightarrow> flushed = None) \<and>
    (status = 0 \<longrightarrow>
      (if length args > 1 \<and> args ! 1 = ''verify-chain''
       then flushed = None \<and> (\<exists>out. verify (drop 2 args) = Some (0, out))
       else \<exists>srv providers xs s. otel_Init env lib ''audit-event-log'' = Inr providers \<and> flushed = Some providers \<and>
         Build ct cfg = Inr srv \<and> lives ou srv (Run_start srv f W) xs s \<and> lc_Main s = Returned None \<and>
         lc_wg s = 0 \<and> lc_Requests s = [] \<and> (\<forall>ys s'. lives ou srv s ys s' \<longrightarrow> lc_World s' = lc_World s)))"
proof (cases "length args > 1 \<and> args ! 1 = ''verify-chain''")
  case True
  then show ?thesis using assms(2) by (auto simp: audit_main_def)
next
  case False
  show ?thesis
  proof (cases "status = 0")
    case True
    then obtain providers srv where p: "otel_Init env lib ''audit-event-log'' = Inr providers"
      "Build ct cfg = Inr srv" "run srv = Some None" "flushed = Some providers"
      using assms(2) False by (auto simp: audit_main_def split: sum.splits option.splits)
    obtain xs s where s: "lives ou srv (Run_start srv f W) xs s" "lc_Main s = Returned None"
      using assms(1) p(3) by blast
    from quiet_after_shutdown [OF s(1)] quiet_after_shutdown [OF s(1) _ lives_Nil] s(2)
    have "lc_wg s = 0 \<and> lc_Requests s = [] \<and> (\<forall>ys s'. lives ou srv s ys s' \<longrightarrow> lc_World s' = lc_World s)" by blast
    with p s False True show ?thesis by auto
  next
    case nz: False
    then show ?thesis using assms(2) False
      by (auto simp: audit_main_def split: sum.splits option.splits)
  qed
qed

definition no_collector :: "(unit, unit, unit) otel_lib" where
  "no_collector = \<lparr>ot_Resource = (\<lambda>_. Inr ()), ot_SpanExporter = (\<lambda>_. Inl (ErrMsg ''refused'')),
     ot_MetricExporter = (\<lambda>_. Inr ()), ot_TracerShutdown = (\<lambda>_ _. None), ot_MeterShutdown = (\<lambda>_ _. None)\<rparr>"

theorem service_exit_clean_witness:
  "\<exists>xs s. lives sample_outside sample_server (Run_start sample_server one_message (start_world NewEventStore)) xs s \<and>
     lc_Main s = Returned None \<and> lc_wg s = 0"
proof -
  let ?start = "\<lambda>srv. Run_start srv one_message (start_world NewEventStore)"
  let ?run = "\<lambda>srv. if \<exists>xs s. lives sample_outside srv (?start srv) xs s \<and> lc_Main s = Returned None then Some None else None"
  have "\<exists>xs s. lives sample_outside sample_server (?start sample_server) xs s \<and> lc_Main s = Returned None"
    using sample_shutdown by blast
  moreover have "TrimSpace '''' = ''''" by (rule TrimSpace_plain) simp_all
  ultimately have run: "audit_main (\<lambda>_. None) (\<lambda>_. '''') no_collector sample_config (Build sample_constructors) ?run [''audit''] =
     Some (0, Some NoExport)"
    by (simp add: audit_main_def otel_Init_def sample_server_built(1))
  have "\<forall>srv err. ?run srv = Some err \<longrightarrow>
      (\<exists>xs s. lives sample_outside srv (?start srv) xs s \<and> lc_Main s = Returned err)"
    by auto
  from service_exit_clean [OF this run] sample_server_built(1) show ?thesis by auto
qed

end
