(* ===== verification/Json_Text.thy ===== *)
theory Json_Text
  imports Json
begin

text \<open>
  What the encoders print is read back: \<^verbatim>\<open>Unmarshal\<close> inverts \<^verbatim>\<open>Marshal\<close> and \<^verbatim>\<open>MarshalIndent\<close> on
  values whose strings are valid UTF-8. The texts of a value are a relation, \<open>json_text\<close>, with
  any white space between the tokens; the parser reads each of them, and the two encoders
  print one.
\<close>

section \<open>Strings\<close>

function valid_utf8 :: "string \<Rightarrow> bool" where
  "valid_utf8 s = (if s = [] then True else if rune_len s = 0 then False else valid_utf8 (drop (rune_len s) s))"
  by pat_completeness auto
termination
proof (relation "measure length", goal_cases)
  case (2 s)
  then show ?case by (simp del: rune_len.simps)
qed simp

declare valid_utf8.simps [simp del]

lemma rune_len_cases:
  assumes "rune_len s \<noteq> 0"
  shows "rune_len s \<le> length s \<and> rune_len (take (rune_len s) s @ t) = rune_len s \<and>
    (128 \<le> code (hd s) \<longrightarrow> (\<forall>c \<in> set (take (rune_len s) s). 128 \<le> code c))"
proof -
  obtain a s1 where s1: "s = a # s1" using assms by (cases s) auto
  consider (one) "code a < 128" | (two) b s2 where "s1 = b # s2" "194 \<le> code a" "code a \<le> 223" "cont_byte b"
    | (three) b c s3 where "s1 = b # c # s3" "224 \<le> code a" "code a \<le> 239" "128 \<le> code b" "cont_byte c" "rune_len s = 3"
    | (four) b c d s4 where "s1 = b # c # d # s4" "240 \<le> code a" "128 \<le> code b" "cont_byte c" "cont_byte d" "rune_len s = 4"
    using assms unfolding s1
    by (cases s1; cases "tl s1"; cases "tl (tl s1)") (auto simp: Let_def byte_in_def split: if_splits)
  then show ?thesis
  proof cases
    case one
    then show ?thesis by (simp add: s1)
  next
    case two
    then show ?thesis by (auto simp: s1 byte_in_def)
  next
    case three
    from three(6) have "rune_len (a # b # c # t) = 3"
      using three(2,3) unfolding s1 three(1) by (auto simp: Let_def split: if_splits)
    with three show ?thesis by (auto simp: s1 byte_in_def numeral_3_eq_3 simp del: rune_len.simps)
  next
    case four
    from four(6) have "rune_len (a # b # c # d # t) = 4"
      using four(2) unfolding s1 four(1) by (auto simp: Let_def split: if_splits)
    with four show ?thesis by (auto simp: s1 byte_in_def eval_nat_numeral simp del: rune_len.simps)
  qed
qed

lemma rune_len_ascii: "code c < 128 \<Longrightarrow> rune_len (c # s) = 1"
  by simp

lemma scan_plain:
  assumes "\<forall>c \<in> set p. 32 \<le> code c \<and> c \<noteq> dquote \<and> c \<noteq> backslash"
  shows "scan_string acc (p @ t) = scan_string (rev p @ acc) t"
  using assms by (induction p arbitrary: acc) auto

lemma is_hex_digit_hex: "n < 16 \<Longrightarrow> is_hex_digit (hex_digit n)" "n < 16 \<Longrightarrow> hex_val (hex_digit n) = n"
  by (simp_all add: is_hex_digit_def hex_val_def hex_digit_cases)

lemma scan_encode_ascii:
  assumes "code c < 128"
  shows "scan_string acc (encode_ascii c @ t) = scan_string (rev (encode_ascii c) @ acc) t"
proof (cases "code c < 32 \<or> c = CHR ''<'' \<or> c = CHR ''>'' \<or> c = CHR ''&''")
  case True
  have "code c div 16 < 16" "code c mod 16 < 16" using assms by auto
  moreover have "is_hex_digit CHR ''0''" by code_simp
  ultimately show ?thesis using True by (auto simp: encode_ascii_def hex_escape_def is_hex_digit_hex)
next
  case False
  then show ?thesis by (auto simp: encode_ascii_def hex_escape_def)
qed

lemma getu4_other: "e \<noteq> CHR ''u'' \<Longrightarrow> getu4 (backslash # e # s) = None"
  by (auto simp: getu4_def split: list.splits)

lemma getu4_hex: "getu4 (backslash # CHR ''u'' # h1 # h2 # h3 # h4 # s) =
    Some (((hex_val h1 * 16 + hex_val h2) * 16 + hex_val h3) * 16 + hex_val h4)"
  by (simp add: getu4_def)

lemma unquote_encode_ascii:
  assumes "code c < 128"
  shows "json_unquote (encode_ascii c @ t) = c # json_unquote t"
proof -
  have simple: "json_unquote (backslash # e # t) = simple_escape e # json_unquote t" if "e \<noteq> CHR ''u''" for e
    using that by (subst json_unquote.simps) (simp add: getu4_other)
  have plain: "json_unquote (c # t) = c # json_unquote t" if "c \<noteq> backslash"
    using that assms by (subst json_unquote.simps) simp
  have hexed: "json_unquote (hex_escape (code c) @ t) = c # json_unquote t"
  proof -
    have d: "code c div 16 < 16" "code c mod 16 < 16" using assms by auto
    have "hex_val CHR ''0'' = 0" by code_simp
    then have u: "getu4 (hex_escape (code c) @ t) = Some (code c)"
      using d by (simp add: hex_escape_def getu4_hex is_hex_digit_hex)
    have "encode_rune (code c) = [c]" using assms by (simp add: encode_rune_def)
    then show ?thesis using assms u
      by (subst json_unquote.simps) (simp add: hex_escape_def del: rune_len.simps)
  qed
  show ?thesis
    using simple plain hexed by (auto simp: encode_ascii_def simple_escape_def)
qed

lemma scan_high:
  assumes "\<forall>c \<in> set p. 128 \<le> code c"
  shows "scan_string acc (p @ t) = scan_string (rev p @ acc) t"
proof (rule scan_plain, intro ballI)
  fix c
  assume "c \<in> set p"
  then have "128 \<le> code c" using assms by simp
  then show "32 \<le> code c \<and> c \<noteq> dquote \<and> c \<noteq> backslash" by auto
qed

lemma scan_u4:
  "is_hex_digit h1 \<Longrightarrow> is_hex_digit h2 \<Longrightarrow> is_hex_digit h3 \<Longrightarrow> is_hex_digit h4 \<Longrightarrow>
    scan_string acc (backslash # CHR ''u'' # h1 # h2 # h3 # h4 # t) =
    scan_string (h4 # h3 # h2 # h1 # CHR ''u'' # backslash # acc) t"
  by simp

lemma hex_chars: "\<forall>c \<in> set ''0289dfu''. c \<noteq> CHR ''u'' \<longrightarrow> is_hex_digit c"
  by code_simp

lemma encode_body_Cons:
  "encode_body (c # r) =
     (if code c < 128 then encode_ascii c @ encode_body r
      else if rune_len (c # r) = 0 then (backslash # ''ufffd'') @ encode_body r
      else if prefix (encode_rune 8232) (c # r) then (backslash # ''u2028'') @ encode_body (drop (rune_len (c # r)) (c # r))
      else if prefix (encode_rune 8233) (c # r) then (backslash # ''u2029'') @ encode_body (drop (rune_len (c # r)) (c # r))
      else take (rune_len (c # r)) (c # r) @ encode_body (drop (rune_len (c # r)) (c # r)))"
  by (subst encode_body.simps) (simp del: rune_len.simps)

lemma scan_encode_body:
  "scan_string acc (encode_body s @ t) = scan_string (rev (encode_body s) @ acc) t"
proof (induction s arbitrary: acc rule: encode_body.induct)
  case (1 s)
  show ?case
  proof (cases s)
    case Nil
    then show ?thesis by (simp add: encode_body.simps)
  next
    case (Cons c r)
    let ?n = "rune_len s"
    have u: "scan_string acc ((backslash # ''ufffd'') @ t') = scan_string (rev (backslash # ''ufffd'') @ acc) t'"
      "scan_string acc ((backslash # ''u2028'') @ t') = scan_string (rev (backslash # ''u2028'') @ acc) t'"
      "scan_string acc ((backslash # ''u2029'') @ t') = scan_string (rev (backslash # ''u2029'') @ acc) t'" for t'
      using hex_chars by (simp_all add: scan_u4 del: scan_string.simps)
    consider (ascii) "code c < 128" | (bad) "\<not> code c < 128" "?n = 0"
      | (ls) "\<not> code c < 128" "?n \<noteq> 0" "prefix (encode_rune 8232) s"
      | (ps) "\<not> code c < 128" "?n \<noteq> 0" "\<not> prefix (encode_rune 8232) s" "prefix (encode_rune 8233) s"
      | (rune) "\<not> code c < 128" "?n \<noteq> 0" "\<not> prefix (encode_rune 8232) s" "\<not> prefix (encode_rune 8233) s"
      by blast
    then show ?thesis
    proof cases
      case ascii
      then have "encode_body s = encode_ascii c @ encode_body r" by (simp add: encode_body_Cons Cons)
      then show ?thesis using 1(1) [OF Cons ascii] by (simp add: scan_encode_ascii [OF ascii])
    next
      case bad
      then have "encode_body s = (backslash # ''ufffd'') @ encode_body r"
        by (simp add: encode_body_Cons Cons del: rune_len.simps)
      then show ?thesis using 1(2) [OF Cons bad] u(1) [of "encode_body r @ t"] by (simp del: scan_string.simps)
    next
      case ls
      then have "encode_body s = (backslash # ''u2028'') @ encode_body (drop ?n s)"
        by (simp add: encode_body_Cons Cons del: rune_len.simps)
      then show ?thesis using 1(3) [OF Cons ls] u(2) [of "encode_body (drop ?n s) @ t"] by (simp del: scan_string.simps)
    next
      case ps
      then have "encode_body s = (backslash # ''u2029'') @ encode_body (drop ?n s)"
        by (simp add: encode_body_Cons Cons del: rune_len.simps)
      then show ?thesis using 1(4) [OF Cons ps] u(3) [of "encode_body (drop ?n s) @ t"] by (simp del: scan_string.simps)
    next
      case rune
      then have e: "encode_body s = take ?n s @ encode_body (drop ?n s)"
        by (simp add: encode_body_Cons Cons del: rune_len.simps)
      have "\<forall>c \<in> set (take ?n s). 128 \<le> code c" using rune_len_cases [OF rune(2)] rune(1) Cons by simp
      from scan_high [OF this] show ?thesis using 1(5) [OF Cons rune] by (simp add: e)
    qed
  qed
qed

lemma scan_encoded: "scan_string [] (encode_body s @ dquote # t) = Some (encode_body s, t)"
  by (simp add: scan_encode_body)

lemma unquote_u4: "json_unquote ((backslash # ''u2028'') @ t) = encode_rune 8232 @ json_unquote t"
  "json_unquote ((backslash # ''u2029'') @ t) = encode_rune 8233 @ json_unquote t"
proof -
  have h: "hex_val CHR ''2'' = 2" "hex_val CHR ''0'' = 0" "hex_val CHR ''8'' = 8" "hex_val CHR ''9'' = 9"
    by code_simp+
  show "json_unquote ((backslash # ''u2028'') @ t) = encode_rune 8232 @ json_unquote t"
    "json_unquote ((backslash # ''u2029'') @ t) = encode_rune 8233 @ json_unquote t"
    by (subst json_unquote.simps, simp add: getu4_hex h del: rune_len.simps)+
qed

lemma unquote_rune:
  assumes "rune_len s \<noteq> 0" and "128 \<le> code (hd s)"
  shows "json_unquote (take (rune_len s) s @ t) = take (rune_len s) s @ json_unquote t"
proof -
  note r = rune_len_cases [OF assms(1), of t]
  have "s \<noteq> []" using assms(1) by auto
  then obtain c r' where c: "take (rune_len s) s @ t = c # r'" "c = hd s"
    using assms(1) by (cases s; cases "rune_len s") auto
  have "c \<noteq> backslash" using assms(2) c(2) by auto
  then have "json_unquote (c # r') = take (rune_len s) (c # r') @ json_unquote (drop (rune_len s) (c # r'))"
    using r c assms by (subst json_unquote.simps) (simp del: rune_len.simps)
  then show ?thesis using r unfolding c(1) [symmetric] by simp
qed

lemma unquote_encode_body: "valid_utf8 s \<Longrightarrow> json_unquote (encode_body s) = s"
proof (induction s rule: encode_body.induct)
  case (1 s)
  show ?case
  proof (cases s)
    case Nil
    then show ?thesis by (simp add: encode_body.simps json_unquote.simps)
  next
    case (Cons c r)
    let ?n = "rune_len s"
    have n: "?n \<noteq> 0" "valid_utf8 (drop ?n s)"
      using 1(6) valid_utf8.simps [of s] Cons by (simp_all del: rune_len.simps split: if_splits)
    have pre: "take ?n s = encode_rune k" if "prefix (encode_rune k) s" "k = 8232 \<or> k = 8233" for k
      using that by (auto simp: prefix_def encode_rune_def byte_in_def)
    show ?thesis
    proof (cases "code c < 128")
      case True
      then have e: "encode_body s = encode_ascii c @ encode_body r" "valid_utf8 r"
        using n(2) by (simp_all add: encode_body_Cons Cons)
      then show ?thesis using 1(1) [OF Cons True] by (simp add: unquote_encode_ascii [OF True] Cons)
    next
      case False
      have split_s: "take ?n s @ drop ?n s = s" by simp
      consider (ls) "prefix (encode_rune 8232) s"
        | (ps) "\<not> prefix (encode_rune 8232) s" "prefix (encode_rune 8233) s"
        | (rune) "\<not> prefix (encode_rune 8232) s" "\<not> prefix (encode_rune 8233) s" by blast
      then show ?thesis
      proof cases
        case ls
        then have "encode_body s = (backslash # ''u2028'') @ encode_body (drop ?n s)"
          using False n(1) by (simp add: encode_body_Cons Cons del: rune_len.simps)
        with 1(3) [OF Cons False n(1) ls n(2)] pre [OF ls] split_s show ?thesis by (simp only: unquote_u4) simp
      next
        case ps
        then have "encode_body s = (backslash # ''u2029'') @ encode_body (drop ?n s)"
          using False n(1) by (simp add: encode_body_Cons Cons del: rune_len.simps)
        with 1(4) [OF Cons False n(1) ps n(2)] pre [OF ps(2)] split_s show ?thesis by (simp only: unquote_u4) simp
      next
        case rune
        then have "encode_body s = take ?n s @ encode_body (drop ?n s)"
          using False n(1) by (simp add: encode_body_Cons Cons del: rune_len.simps)
        moreover have "128 \<le> code (hd s)" using False Cons by simp
        ultimately show ?thesis
          using 1(5) [OF Cons False n(1) rune n(2)] unquote_rune [OF n(1)] split_s by simp
      qed
    qed
  qed
qed

section \<open>Numbers\<close>

text \<open>What may follow a number without being taken for a part of it.\<close>

definition ends_number :: "string \<Rightarrow> bool" where
  "ends_number r \<longleftrightarrow> r = [] \<or> \<not> is_digit (hd r) \<and> hd r \<noteq> CHR ''.'' \<and> hd r \<noteq> CHR ''e'' \<and> hd r \<noteq> CHR ''E''"

lemma takeWhile_ends: "ends_number r \<Longrightarrow> takeWhile is_digit (s @ r) = takeWhile is_digit s"
  by (induction s) (auto simp: ends_number_def takeWhile_eq_Nil_iff)

lemma drop_takeWhile_all: "drop (length (takeWhile p s)) s = [] \<Longrightarrow> takeWhile p s = s"
  by (metis append_Nil2 append_take_drop_id takeWhile_eq_take)

lemma scan_exponent_ends:
  assumes "scan_exponent acc s = Some (n, [])" and "ends_number r"
  shows "scan_exponent acc (s @ r) = Some (n, r)"
proof (cases s)
  case Nil
  then show ?thesis using assms by (cases r) (auto simp: scan_exponent_def ends_number_def)
next
  case (Cons c t)
  define sg where "sg = takeWhile (\<lambda>x. x = CHR ''+'' \<or> x = CHR ''-'') (take 1 t)"
  define u where "u = drop (length sg) t"
  have e: "c = CHR ''e'' \<or> c = CHR ''E''" "takeWhile is_digit u \<noteq> []" "n = acc @ c # sg @ takeWhile is_digit u"
    "drop (length (takeWhile is_digit u)) u = []"
    using assms(1) by (auto simp: Cons scan_exponent_def Let_def sg_def u_def split: if_splits)
  have all: "takeWhile is_digit u = u" using drop_takeWhile_all [OF e(4)] .
  then have "t \<noteq> []" using e(2) by (auto simp: u_def)
  then have t: "takeWhile (\<lambda>x. x = CHR ''+'' \<or> x = CHR ''-'') (take 1 (t @ r)) = sg" "drop (length sg) (t @ r) = u @ r"
    by (cases t; simp add: sg_def u_def)+
  have tw: "takeWhile is_digit (u @ r) = u" using all takeWhile_ends [OF assms(2), of u] by simp
  have "u \<noteq> []" using e(2) by auto
  have "scan_exponent acc (c # (t @ r)) =
      (if takeWhile is_digit (u @ r) = [] then None
       else Some (acc @ c # sg @ takeWhile is_digit (u @ r), drop (length (takeWhile is_digit (u @ r))) (u @ r)))"
    unfolding scan_exponent_def Let_def using e(1) by (simp only: list.case t if_True)
  also have "\<dots> = Some (n, r)" unfolding tw using \<open>u \<noteq> []\<close> e(3) all by simp
  finally show ?thesis by (simp add: Cons)
qed

lemma scan_fraction_ends:
  assumes "scan_fraction acc s = Some (n, [])" and "ends_number r"
  shows "scan_fraction acc (s @ r) = Some (n, r)"
proof (cases s)
  case Nil
  then show ?thesis using assms by (cases r) (auto simp: scan_fraction_def scan_exponent_def ends_number_def)
next
  case (Cons c t)
  show ?thesis
  proof (cases "c = CHR ''.''")
    case True
    let ?ds = "takeWhile is_digit t" and ?rest = "drop (length (takeWhile is_digit t)) t"
    have e: "?ds \<noteq> []" "scan_exponent (acc @ c # ?ds) ?rest = Some (n, [])"
      using assms(1) True by (auto simp: Cons scan_fraction_def Let_def split: if_splits)
    have "drop (length ?ds) (t @ r) = ?rest @ r" by (simp add: length_takeWhile_le)
    then show ?thesis
      using True e scan_exponent_ends [OF e(2) assms(2)] takeWhile_ends [OF assms(2), of t]
      by (simp add: Cons scan_fraction_def Let_def)
  next
    case False
    then show ?thesis using assms(1) scan_exponent_ends [OF _ assms(2), of acc s n]
      by (simp add: Cons scan_fraction_def)
  qed
qed

lemma scan_number_ends:
  assumes "scan_number s = Some (n, [])" and "ends_number r"
  shows "scan_number (s @ r) = Some (n, r)" and "\<exists>c t. s = c # t \<and> (c = CHR ''-'' \<or> is_digit c)"
proof -
  define sg where "sg = takeWhile (\<lambda>x. x = CHR ''-'') (take 1 s)"
  define u where "u = drop (length sg) s"
  obtain d t where d: "u = d # t"
    using assms(1) by (cases u) (auto simp: scan_number_def Let_def sg_def u_def)
  have ne: "s \<noteq> []" using d by (auto simp: u_def)
  have sg: "takeWhile (\<lambda>x. x = CHR ''-'') (take 1 (s @ r)) = sg" "drop (length sg) (s @ r) = u @ r"
    using ne by (cases s; simp add: sg_def u_def)+
  have run: "(if d = CHR ''0'' then scan_fraction (sg @ [d]) t
      else if is_digit d then scan_fraction (sg @ takeWhile is_digit u) (drop (length (takeWhile is_digit u)) u)
      else None) = Some (n, [])"
    using assms(1) unfolding scan_number_def Let_def by (simp only: sg_def [symmetric] u_def [symmetric] d list.case)
  have zero: "is_digit CHR ''0''" by code_simp
  have dig: "is_digit d" using run zero by (auto split: if_splits)
  have rest: "drop (length (takeWhile is_digit u)) (u @ r) = drop (length (takeWhile is_digit u)) u @ r"
    by (simp add: length_takeWhile_le)
  have "scan_number (s @ r) =
      (if d = CHR ''0'' then scan_fraction (sg @ [d]) (t @ r)
       else if is_digit d
       then scan_fraction (sg @ takeWhile is_digit (u @ r)) (drop (length (takeWhile is_digit (u @ r))) (u @ r))
       else None)"
    unfolding scan_number_def Let_def by (simp only: sg) (simp add: d)
  also have "\<dots> = Some (n, r)"
    unfolding takeWhile_ends [OF assms(2)] rest
    using run dig scan_fraction_ends [OF _ assms(2)] by (simp split: if_splits)
  finally show "scan_number (s @ r) = Some (n, r)" .
  show "\<exists>c t. s = c # t \<and> (c = CHR ''-'' \<or> is_digit c)"
    using ne d dig by (cases s) (auto simp: sg_def u_def split: if_splits)
qed

section \<open>The texts of a value\<close>

abbreviation blank :: "string \<Rightarrow> bool" where
  "blank w \<equiv> list_all json_ws w"

text \<open>
  \<open>d\<close> bounds the nesting of arrays and objects, as the parser does. \<open>elements_text\<close> and
  \<open>members_text\<close> are what stands between the brackets.
\<close>

inductive json_text :: "int \<Rightarrow> json \<Rightarrow> string \<Rightarrow> bool"
  and elements_text :: "int \<Rightarrow> json list \<Rightarrow> string \<Rightarrow> bool"
  and members_text :: "int \<Rightarrow> (string \<times> json) list \<Rightarrow> string \<Rightarrow> bool" where
  text_null: "json_text d JNull ''null''"
| text_true: "json_text d (JBool True) ''true''"
| text_false: "json_text d (JBool False) ''false''"
| text_num: "scan_number n = Some (n, []) \<Longrightarrow> json_text d (JNum n) n"
| text_str: "valid_utf8 s \<Longrightarrow> json_text d (JStr s) (encode_string s)"
| text_empty_arr: "0 < d \<Longrightarrow> json_text d (JArr []) ''[]''"
| text_arr: "0 < d \<Longrightarrow> blank w \<Longrightarrow> elements_text (d - 1) vs t \<Longrightarrow> json_text d (JArr vs) (''['' @ w @ t @ '']'')"
| text_empty_obj: "0 < d \<Longrightarrow> json_text d (JObj []) ''{}''"
| text_obj: "0 < d \<Longrightarrow> blank w \<Longrightarrow> members_text (d - 1) ms t \<Longrightarrow> json_text d (JObj ms) (''{'' @ w @ t @ ''}'')"
| element_last: "json_text d v t \<Longrightarrow> blank w \<Longrightarrow> elements_text d [v] (t @ w)"
| element_next: "json_text d v t \<Longrightarrow> blank w \<Longrightarrow> elements_text d vs t' \<Longrightarrow> elements_text d (v # vs) (t @ '','' @ w @ t')"
| member_last: "valid_utf8 k \<Longrightarrow> blank w \<Longrightarrow> json_text d v t \<Longrightarrow> blank w' \<Longrightarrow>
    members_text d [(k, v)] (encode_string k @ '':'' @ w @ t @ w')"
| member_next: "valid_utf8 k \<Longrightarrow> blank w \<Longrightarrow> json_text d v t \<Longrightarrow> blank w' \<Longrightarrow> members_text d ms t' \<Longrightarrow>
    members_text d ((k, v) # ms) (encode_string k @ '':'' @ w @ t @ '','' @ w' @ t')"

section \<open>The parser reads them\<close>

lemma skip_blank [simp]: "blank w \<Longrightarrow> skip_ws (w @ s) = skip_ws s"
  by (induction w) (simp_all add: skip_ws_def)

lemma skip_token [simp]: "\<not> json_ws c \<Longrightarrow> skip_ws (c # s) = c # s"
  by (simp add: skip_ws_def)

lemma parse_value_blank: "blank w \<Longrightarrow> parse_value d (w @ s) = parse_value d s"
  by (simp add: parse_value.simps [of d s] parse_value.simps [of d "w @ s"])

lemma punctuation [simp]:
  "\<not> json_ws CHR '',''" "\<not> json_ws CHR '']''" "\<not> json_ws CHR ''}''" "\<not> json_ws CHR '':''" "\<not> json_ws dquote"
  "\<not> json_ws CHR ''[''" "\<not> json_ws CHR ''{''"
  by code_simp+

lemma digits_no_space: "is_digit c \<Longrightarrow> \<not> json_ws c" "\<not> json_ws CHR ''-''"
  by (auto simp: is_digit_def byte_in_def json_ws_def)

lemma ends_after:
  assumes "blank w" and "c \<in> set '',]}''"
  shows "ends_number (w @ c # r)"
proof (cases w)
  case Nil
  then show ?thesis using assms(2) by (auto simp: ends_number_def is_digit_def byte_in_def)
next
  case (Cons a u)
  then show ?thesis using assms(1) by (auto simp: ends_number_def is_digit_def byte_in_def json_ws_def)
qed

text \<open>The first character of a value.\<close>

lemma json_text_start:
  assumes "json_text d v t"
  shows "\<exists>c r. t = c # r \<and> \<not> json_ws c \<and> c \<noteq> CHR '']'' \<and> c \<noteq> CHR ''}''"
  using assms
proof cases
  case text_num
  then obtain c r where "t = c # r" "c = CHR ''-'' \<or> is_digit c"
    using scan_number_ends(2) [of t t "[]"] by (auto simp: ends_number_def)
  then show ?thesis using digits_no_space by (auto simp: is_digit_def byte_in_def)
qed (auto simp: encode_string_def json_ws_def)

lemma literal_number:
  assumes "scan_number n = Some (n, [])" and "ends_number r"
  shows "parse_value d (n @ r) = Some (JNum n, r)"
proof -
  obtain c t where n: "n = c # t" "c = CHR ''-'' \<or> is_digit c"
    using scan_number_ends(2) [OF assms] by blast
  have c: "\<not> json_ws c" "c \<notin> set ''{[ntf''" "c \<noteq> dquote"
    using n(2) digits_no_space by (auto simp: is_digit_def byte_in_def)
  have "scan_number (c # t @ r) = Some (c # t, r)" using scan_number_ends(1) [OF assms] n(1) by simp
  then show ?thesis
    using c by (auto simp: n(1) parse_value.simps [of d "c # t @ r"] literal_value_def)
qed

lemma parse_string:
  assumes "valid_utf8 s"
  shows "parse_value d (encode_string s @ r) = Some (JStr s, r)"
  by (simp add: encode_string_def parse_value.simps [of d "dquote # encode_body s @ dquote # r"] scan_encoded
      unquote_encode_body [OF assms])

lemma parse_text:
  shows "json_text d v t \<Longrightarrow> ends_number r \<Longrightarrow> parse_value d (t @ r) = Some (v, r)"
    and "elements_text d vs t \<Longrightarrow> blank w \<Longrightarrow> parse_elements d first (w @ t @ CHR '']'' # r) = Some (vs, r)"
    and "members_text d ms t \<Longrightarrow> blank w \<Longrightarrow>
      \<exists>raw. parse_members d first (w @ t @ CHR ''}'' # r) = Some (raw, r) \<and> map (\<lambda>(k, v, _). (k, v)) raw = ms"
proof (induction arbitrary: r and w first r and w first r rule: json_text_elements_text_members_text.inducts)
  case (text_num n d)
  then show ?case by (simp add: literal_number)
next
  case (text_str s d)
  then show ?case by (simp add: parse_string)
next
  case (text_empty_arr d)
  then show ?case by (simp add: parse_value.simps [of d "CHR ''['' # _"] parse_elements.simps)
next
  case (text_arr d w vs t)
  then show ?case by (simp add: parse_value.simps [of d "CHR ''['' # _"])
next
  case (text_empty_obj d)
  then show ?case by (simp add: parse_value.simps [of d "CHR ''{'' # _"] parse_members.simps)
next
  case (text_obj d w ms t)
  then obtain raw where "parse_members (d - 1) True (w @ t @ CHR ''}'' # r) = Some (raw, r)"
    "map (\<lambda>(k, v, _). (k, v)) raw = ms" by blast
  then show ?case using text_obj.hyps by (simp add: parse_value.simps [of d "CHR ''{'' # _"])
next
  case (element_last d v t w')
  obtain c s where c: "t = c # s" "\<not> json_ws c" "c \<noteq> CHR '']''" using json_text_start [OF element_last.hyps(1)] by blast
  have "ends_number (w' @ CHR '']'' # r)" using ends_after [OF element_last.hyps(2)] by simp
  from element_last.IH [OF this] have "parse_value d (w @ t @ w' @ CHR '']'' # r) = Some (v, w' @ CHR '']'' # r)"
    by (simp add: parse_value_blank element_last.prems)
  then show ?case using c element_last by (simp add: parse_elements.simps [of d first])
next
  case (element_next d v t w' vs t')
  obtain c s where c: "t = c # s" "\<not> json_ws c" "c \<noteq> CHR '']''" using json_text_start [OF element_next.hyps(1)] by blast
  have "ends_number (CHR '','' # w' @ t' @ CHR '']'' # r)" using ends_after [of "[]" "CHR '',''"] by simp
  from element_next.IH(1) [OF this]
  have "parse_value d (w @ t @ CHR '','' # w' @ t' @ CHR '']'' # r) = Some (v, CHR '','' # w' @ t' @ CHR '']'' # r)"
    by (simp add: parse_value_blank element_next.prems)
  then show ?case using c element_next.prems element_next.IH(2) [OF element_next.hyps(2)]
    by (simp add: parse_elements.simps [of d first])
next
  case (member_last k w1 d v t w2)
  obtain c s where c: "t = c # s" "\<not> json_ws c" using json_text_start [OF member_last.hyps(3)] by blast
  have "ends_number (w2 @ CHR ''}'' # r)" using ends_after [OF member_last.hyps(4)] by simp
  from member_last.IH [OF this] show ?case
    using c member_last.hyps(1,2,4) member_last.prems
    by (simp add: parse_members.simps [of d first] encode_string_def scan_encoded unquote_encode_body Let_def)
next
  case (member_next k w1 d v t w2 ms t')
  obtain c s where c: "t = c # s" "\<not> json_ws c" using json_text_start [OF member_next.hyps(3)] by blast
  have "ends_number (CHR '','' # w2 @ t' @ CHR ''}'' # r)" using ends_after [of "[]" "CHR '',''"] by simp
  note v = member_next.IH(1) [OF this]
  obtain raw where "parse_members d False (w2 @ t' @ CHR ''}'' # r) = Some (raw, r)" "map (\<lambda>(k, v, _). (k, v)) raw = ms"
    using member_next.IH(2) [OF member_next.hyps(4)] by blast
  then show ?case
    using v c member_next.hyps(1,2) member_next.prems
    by (simp add: parse_members.simps [of d first] encode_string_def scan_encoded unquote_encode_body Let_def)
qed (simp_all add: parse_value.simps literal_value_def json_ws_def)

theorem json_parse_text:
  assumes "json_text max_depth v t" and "blank w"
  shows "json_parse (t @ w) = Some v"
proof -
  have "ends_number w" using assms(2) by (cases w) (auto simp: ends_number_def is_digit_def byte_in_def json_ws_def)
  moreover have "skip_ws w = []" using skip_blank [OF assms(2), of "[]"] by (simp add: skip_ws_def)
  ultimately show ?thesis using parse_text(1) [OF assms(1)] by (simp add: json_parse_def)
qed

section \<open>The encoders print them\<close>

text \<open>
  The values that survive: strings and keys are valid UTF-8 (the encoder replaces other bytes),
  a number is the text of one, and the nesting is within Go's limit.
\<close>

fun printable :: "int \<Rightarrow> json \<Rightarrow> bool" where
  "printable d JNull = True"
| "printable d (JBool b) = True"
| "printable d (JNum n) = (scan_number n = Some (n, []))"
| "printable d (JStr s) = valid_utf8 s"
| "printable d (JArr vs) = (0 < d \<and> list_all (\<lambda>v. printable (d - 1) v) vs)"
| "printable d (JObj ms) = (0 < d \<and> list_all (\<lambda>(k, v). valid_utf8 k \<and> printable (d - 1) v) ms)"

lemma elements_join:
  assumes "vs \<noteq> []" and "\<forall>v \<in> set vs. json_text d v (f v)" and "blank w" and "blank w'"
  shows "elements_text d vs (join ('','' @ w) (map f vs) @ w')"
  using assms(1,2)
proof (induction vs)
  case (Cons v vs)
  show ?case
  proof (cases vs)
    case Nil
    then show ?thesis using Cons.prems assms(4) by (simp add: element_last)
  next
    case (Cons x xs)
    with Cons.IH Cons.prems assms(3) show ?thesis
      using element_next [of d v "f v" w vs "join ('','' @ w) (map f vs) @ w'"] by simp
  qed
qed simp

lemma members_join:
  assumes "ms \<noteq> []" and "\<forall>(k, v) \<in> set ms. valid_utf8 k \<and> json_text d v (f v)"
    and "blank w" and "blank w'" and "blank u"
  shows "members_text d ms (join ('','' @ w) (map (\<lambda>(k, v). encode_string k @ '':'' @ u @ f v) ms) @ w')"
  using assms(1,2)
proof (induction ms)
  case (Cons m ms)
  obtain k v where m: "m = (k, v)" by (cases m)
  show ?case
  proof (cases ms)
    case Nil
    then show ?thesis using Cons.prems assms(4,5) member_last [of k u d v "f v" w'] by (simp add: m)
  next
    case (Cons x xs)
    with Cons.IH Cons.prems assms(3,5) m show ?thesis
      using member_next [of k u d v "f v" w ms "join ('','' @ w) (map (\<lambda>(k, v). encode_string k @ '':'' @ u @ f v) ms) @ w'"]
      by simp
  qed
qed simp

lemma Marshal_text: "printable d v \<Longrightarrow> json_text d v (Marshal v)"
proof (induction d v rule: printable.induct)
  case (5 d vs)
  then have "\<forall>v \<in> set vs. json_text (d - 1) v (Marshal v)" by (simp add: list_all_iff)
  from elements_join [OF _ this, of "[]" "[]"] 5 show ?case
    using text_arr [of d "[]" vs] by (cases "vs = []") (auto simp: text_empty_arr)
next
  case (6 d ms)
  then have "\<forall>(k, v) \<in> set ms. valid_utf8 k \<and> json_text (d - 1) v (Marshal v)" by (auto simp: list_all_iff)
  from members_join [OF _ this, of "[]" "[]" "[]"] 6 show ?case
    using text_obj [of d "[]" ms] by (cases "ms = []") (auto simp: text_empty_obj)
qed (auto intro: json_text_elements_text_members_text.intros)

lemma blank_indent [simp]: "blank (indent_nl n)"
  by (simp add: indent_nl_def list_all_iff json_ws_def)

lemma MarshalIndent_arr:
  assumes "0 < d" and "\<forall>v \<in> set vs. json_text (d - 1) v (MarshalIndent (n + 1) v)"
  shows "json_text d (JArr vs) (MarshalIndent n (JArr vs))"
proof (cases "vs = []")
  case False
  then show ?thesis
    using text_arr [OF assms(1) blank_indent elements_join [OF False assms(2) blank_indent blank_indent]] by simp
qed (simp add: assms(1) text_empty_arr)

lemma MarshalIndent_obj:
  assumes "0 < d" and "\<forall>(k, v) \<in> set ms. valid_utf8 k \<and> json_text (d - 1) v (MarshalIndent (n + 1) v)"
  shows "json_text d (JObj ms) (MarshalIndent n (JObj ms))"
proof (cases "ms = []")
  case False
  have "blank '' ''" by (simp add: json_ws_def)
  with False show ?thesis
    using text_obj [OF assms(1) blank_indent members_join [OF False assms(2) blank_indent blank_indent, of "'' ''" ]]
    by simp
qed (simp add: assms(1) text_empty_obj)

lemma MarshalIndent_text: "printable d v \<Longrightarrow> json_text d v (MarshalIndent n v)"
proof (induction d v arbitrary: n rule: printable.induct)
  case (5 d vs)
  then show ?case by (intro MarshalIndent_arr) (simp_all add: list_all_iff)
next
  case (6 d ms)
  then show ?case by (intro MarshalIndent_obj) (auto simp: list_all_iff)
qed (auto intro: json_text_elements_text_members_text.intros)

section \<open>The round trip\<close>

theorem json_roundtrip:
  assumes "printable max_depth v" and "blank w"
  shows "json_parse (Marshal v @ w) = Some v" and "json_parse (MarshalIndent n v @ w) = Some v"
  using json_parse_text [OF Marshal_text [OF assms(1)] assms(2)]
    json_parse_text [OF MarshalIndent_text [OF assms(1)] assms(2)] by simp_all

end
