(* ===== verification/Time_Text.thy ===== *)
theory Time_Text
  imports Store
begin

text \<open>
  The text of an instant read back: \<^verbatim>\<open>time.Parse(time.RFC3339Nano, ...)\<close> inverts
  \<^verbatim>\<open>Format(time.RFC3339Nano)\<close> on the years 0 to 9999, and so \<^verbatim>\<open>ParseCursor\<close> inverts
  \<^verbatim>\<open>Cursor.String\<close>. The lemmas follow the text: digits, the fraction, the calendar.
\<close>

section \<open>Digits\<close>

lemma digit_val_hex: "0 \<le> n \<Longrightarrow> n < 10 \<Longrightarrow> digit_val (hex_digit (nat n)) = Some n"
  using digit_val_hex_digit [of "nat n"] by simp

lemma getnum_digit2:
  assumes "0 \<le> n" and "n < 100"
  shows "getnum f (digit2 n @ s) = Some (n, s)"
proof -
  have "digit_val (hex_digit (nat (n div 10 mod 10))) = Some (n div 10)" "digit_val (hex_digit (nat (n mod 10))) = Some (n mod 10)"
    using assms by (auto simp: digit_val_hex)
  then show ?thesis by (simp add: getnum_def digit2_def)
qed

lemma getyear_digit4:
  assumes "0 \<le> y" and "y \<le> 9999"
  shows "getyear (append_year y @ s) = Some (y, s)"
  using assms getnum_digit2 [of "y div 100" True] getnum_digit2 [of "y mod 100" True]
  by (simp add: getyear_def append_year_def digit4_def)

section \<open>The fraction\<close>

lemma frac_digits_props:
  assumes "0 \<le> n" and "n < 10 ^ k"
  shows "digits_val (frac_digits k n) = n \<and> length (frac_digits k n) = k \<and> (\<forall>c \<in> set (frac_digits k n). digit_val c \<noteq> None)"
  using assms
proof (induction k arbitrary: n)
  case (Suc k)
  then have "n div 10 < 10 ^ k" by (simp add: div_less_iff_less_mult mult.commute)
  with Suc.IH [of "n div 10"] Suc.prems show ?case by (auto simp: digits_val_snoc digit_val_hex)
qed (simp add: digits_val_def)

lemma drop_trailing_zeros_split: "\<exists>j. s = drop_trailing_zeros s @ replicate j CHR ''0''"
proof (induction s rule: drop_trailing_zeros.induct)
  case (1 s)
  show ?case
  proof (cases "s \<noteq> [] \<and> last s = CHR ''0''")
    case True
    with 1 obtain j where "butlast s = drop_trailing_zeros (butlast s) @ replicate j CHR ''0''" by blast
    moreover have "s = butlast s @ [CHR ''0'']" using True by (metis append_butlast_last_id)
    ultimately have "s = drop_trailing_zeros (butlast s) @ replicate (Suc j) CHR ''0''"
      by (metis append_assoc replicate_append_same replicate_Suc)
    moreover have "drop_trailing_zeros s = drop_trailing_zeros (butlast s)"
      using True by (subst drop_trailing_zeros.simps) simp
    ultimately show ?thesis by metis
  next
    case False
    then have "drop_trailing_zeros s = s" by (subst drop_trailing_zeros.simps) auto
    then show ?thesis by (metis append_Nil2 replicate_0)
  qed
qed

lemma digits_val_zeros: "digits_val (s @ replicate j CHR ''0'') = digits_val s * 10 ^ j"
proof (induction j)
  case (Suc j)
  have "s @ replicate (Suc j) CHR ''0'' = (s @ replicate j CHR ''0'') @ [CHR ''0'']"
    by (simp add: replicate_append_same)
  moreover have "digit_val CHR ''0'' = Some 0" by (simp add: digit_val_def)
  ultimately show ?case by (simp only: digits_val_snoc Suc.IH) simp
qed simp

lemma getnano_append_nano:
  assumes "0 \<le> n" and "n < 1000000000"
  shows "getnano (append_nano n @ ''Z'') = (n, ''Z'')"
proof (cases "n = 0")
  case True
  then show ?thesis by (simp add: append_nano_def getnano_def)
next
  case False
  let ?f = "frac_digits 9 n"
  have f: "digits_val ?f = n" "length ?f = 9" "\<forall>c \<in> set ?f. digit_val c \<noteq> None"
    using frac_digits_props [of n 9] assms by simp_all
  obtain t j where t: "t = drop_trailing_zeros ?f" "?f = t @ replicate j CHR ''0''"
    using drop_trailing_zeros_split [of ?f] by blast
  have len: "length t + j = 9" using f(2) t(2) by (metis length_append length_replicate)
  have val: "digits_val t * 10 ^ (9 - length t) = n"
    using f(1) t(2) digits_val_zeros [of t j] len by (metis diff_add_inverse)
  have dig: "\<forall>c \<in> set t. digit_val c \<noteq> None" using f(3) t(2) by (metis Un_iff set_append)
  have "t \<noteq> []" using val False by (auto simp: digits_val_def)
  then obtain c t' where c: "t = c # t'" by (cases t) auto
  have "digit_val CHR ''Z'' = None" by (simp add: digit_val_def)
  then have tw: "takeWhile (\<lambda>x. digit_val x \<noteq> None) (t @ ''Z'') = t" using dig by simp
  have "append_nano n @ ''Z'' = CHR ''.'' # t @ ''Z''" using False t(1) by (simp add: append_nano_def)
  moreover have "getnano (CHR ''.'' # t @ ''Z'') = (n, ''Z'')"
    using dig tw val len by (simp add: getnano_def c)
  ultimately show ?thesis by simp
qed

section \<open>The calendar\<close>

lemma year_yday_days:
  assumes "year_yday d = (y, yd)"
  shows "days_before_year y + yd = d \<and> 0 \<le> yd \<and> yd < (if is_leap y then 366 else 365)"
proof -
  define a where "a = d div 146097"
  define r where "r = d mod 146097"
  define b where "b = min 3 (r div 36524)"
  define r1 where "r1 = r - 36524 * b"
  define c where "c = r1 div 1461"
  define r2 where "r2 = r1 mod 1461"
  define e where "e = min 3 (r2 div 365)"
  have "year_yday d = (400 * a + 100 * b + 4 * c + e + 1, r2 - 365 * e)"
    unfolding year_yday_def Let_def e_def r2_def c_def r1_def b_def r_def a_def by (rule refl)
  with assms have y: "y = 400 * a + 100 * b + 4 * c + e + 1" and yd: "yd = r2 - 365 * e" by simp_all
  have d: "d = 146097 * a + r" "0 \<le> r" "r < 146097" by (simp_all add: a_def r_def)
  have b: "0 \<le> b" "b \<le> 3" "36524 * b \<le> r" "b < 3 \<Longrightarrow> r < 36524 * b + 36524"
    using d(2) by (auto simp: b_def min_def)
  have r1: "0 \<le> r1" "r1 \<le> 36524" "b < 3 \<Longrightarrow> r1 < 36524" "r = 36524 * b + r1"
    using b d by (auto simp: r1_def) (cases "b < 3"; force)
  have c: "r1 = 1461 * c + r2" "0 \<le> r2" "r2 < 1461" "0 \<le> c" "c \<le> 24"
    using r1 by (auto simp: c_def r2_def)
  have c24: "b < 3 \<Longrightarrow> c = 24 \<Longrightarrow> r2 < 1460" using r1(3) c(1) by simp
  have e: "0 \<le> e" "e \<le> 3" "365 * e \<le> r2" "e < 3 \<Longrightarrow> r2 < 365 * e + 365"
    using c(2) by (auto simp: e_def min_def)
  have y1: "(y - 1) div 4 = 100 * a + 25 * b + c" "(y - 1) div 100 = 4 * a + b" "(y - 1) div 400 = a"
    using b(1,2) c(4,5) e(1,2) unfolding y
    by (intro int_div_pos_eq [of _ 4 _ e] int_div_pos_eq [of _ 100 _ "4 * c + e"]
        int_div_pos_eq [of _ 400 _ "100 * b + 4 * c + e"]; simp)+
  have "days_before_year y + yd = d"
    unfolding days_before_year_def y1 using y yd d(1) r1(4) c(1) by simp
  moreover have "0 \<le> yd" using e(3) yd by simp
  moreover have "yd < (if is_leap y then 366 else 365)"
  proof (cases "e < 3")
    case True
    then show ?thesis using e(4) yd by auto
  next
    case False
    with e have e3: "e = 3" by simp
    then have lt: "yd < 366" using c(3) yd by simp
    have "y = 4 * (100 * a + 25 * b + c + 1)" using y e3 by simp
    then have m4: "y mod 4 = 0" by simp
    show ?thesis
    proof (cases "c = 24 \<and> b < 3")
      case True
      then show ?thesis using c24 yd e3 by auto
    next
      case c3: False
      have "is_leap y"
      proof (cases "c = 24")
        case True
        with c3 b have "b = 3" by simp
        with y e3 True have "y = 400 * (a + 1)" by simp
        then show ?thesis using m4 by (simp add: is_leap_def)
      next
        case False
        have "y = 100 * (4 * a + b) + (4 * c + 4)" using y e3 by simp
        then have "y mod 100 = 4 * c + 4"
          using False c(4,5) by (intro int_mod_pos_eq [of _ _ "4 * a + b"]) auto
        then have "y mod 100 \<noteq> 0" using c(4) by simp
        with m4 show ?thesis by (simp add: is_leap_def)
      qed
      with lt show ?thesis by simp
    qed
  qed
  ultimately show ?thesis by simp
qed

lemma month_day_split:
  assumes "month_day ls m d = (m', md)" and "0 \<le> d" and "d < sum_list ls" and "\<forall>l \<in> set ls. 0 < l"
  shows "m \<le> m' \<and> m' < m + int (length ls) \<and> 1 \<le> md \<and> md \<le> ls ! nat (m' - m) \<and>
    d + 1 = sum_list (take (nat (m' - m)) ls) + md"
  using assms
proof (induction ls m d rule: month_day.induct)
  case (2 l ls m d)
  show ?case
  proof (cases "d < l")
    case True
    with 2 show ?thesis by simp
  next
    case False
    with 2 have ih: "m + 1 \<le> m' \<and> m' < m + 1 + int (length ls) \<and> 1 \<le> md \<and> md \<le> ls ! nat (m' - (m + 1)) \<and>
      d - l + 1 = sum_list (take (nat (m' - (m + 1))) ls) + md" by simp
    from ih have "m + 1 \<le> m'" by blast
    then have "nat (m' - m) = Suc (nat (m' - (m + 1)))" by arith
    with ih show ?thesis by simp
  qed
qed simp

lemma month_lengths_props:
  "sum_list (month_lengths leap) = (if leap then 366 else 365)" "\<forall>l \<in> set (month_lengths leap). 0 < l \<and> l < 32"
  "length (month_lengths leap) = 12"
  by (auto simp: month_lengths_def)


section \<open>The whole text\<close>

text \<open>The first instant of the year 10000, in nanoseconds since the zero time.\<close>

definition year_10000 :: time where
  "year_10000 = 3652059 * 86400 * nanos_per_sec"

lemma days_before_year_low: "y \<le> 0 \<Longrightarrow> days_before_year y \<le> - 366"
proof -
  assume "y \<le> 0"
  then have k: "y = (y - 1) + 1" "y - 1 \<le> - 1" by simp_all
  then obtain k where k: "y = k + 1" "k \<le> - 1" by blast
  show ?thesis
  proof (cases "k = - 1")
    case True
    then show ?thesis by (simp add: days_before_year_def k(1))
  next
    case False
    with k(2) have "k \<le> - 2" by simp
    moreover have "k div 4 * 4 \<le> k" "k < (k div 100 + 1) * 100" "k div 400 * 400 \<le> k" by presburger+
    ultimately show ?thesis unfolding days_before_year_def k(1) by simp
  qed
qed

lemma days_before_year_high: "10000 \<le> y \<Longrightarrow> 3652059 \<le> days_before_year y"
proof -
  assume y: "10000 \<le> y"
  define k where "k = y - 1"
  have "9999 \<le> k" using y k_def by simp
  moreover have "k - 3 \<le> k div 4 * 4" "k div 100 * 100 \<le> k" "k - 399 \<le> k div 400 * 400" by presburger+
  ultimately show ?thesis unfolding days_before_year_def k_def [symmetric] by simp
qed

lemma year_below:
  assumes "year_yday d = (y, yd)" and "0 \<le> d" and "d < 3652059"
  shows "1 \<le> y" and "y \<le> 9999"
proof -
  have y: "days_before_year y + yd = d" "0 \<le> yd" "yd < 366"
    using year_yday_days [OF assms(1)] by (auto split: if_splits)
  show "1 \<le> y" using days_before_year_low [of y] y assms(2) by linarith
  show "y \<le> 9999" using days_before_year_high [of y] y assms(3) by linarith
qed

lemma skip_Cons [simp]: "skip c (c # s) = Some s"
  by (simp add: skip_def)

lemma hms_split:
  assumes "0 \<le> (s::int)" and "s < 86400"
  shows "0 \<le> s div 3600 \<and> s div 3600 < 24 \<and> 0 \<le> s div 60 mod 60 \<and> s div 60 mod 60 < 60 \<and>
    0 \<le> s mod 60 \<and> s mod 60 < 60 \<and> s = s div 3600 * 3600 + s div 60 mod 60 * 60 + s mod 60"
proof -
  have "s div 3600 = s div 60 div 60" using zdiv_zmult2_eq [of 60 s 60] by simp
  then have "s = s div 3600 * 3600 + s div 60 mod 60 * 60 + s mod 60"
    using div_mult_mod_eq [of "s div 60" 60] div_mult_mod_eq [of s 60] by linarith
  moreover have "0 \<le> s div 3600" "s div 3600 < 24" using assms by auto
  ultimately show ?thesis by simp
qed

lemma parse_format_opt:
  assumes "0 \<le> t" and "t < year_10000"
  shows "parse_time_opt (format_RFC3339Nano t) = Some t"
proof -
  let ?secs = "t div nanos_per_sec" and ?ns = "t mod nanos_per_sec"
  let ?d = "?secs div 86400" and ?s = "?secs mod 86400"
  obtain y yd where y: "year_yday ?d = (y, yd)" by (cases "year_yday ?d")
  obtain m md where m: "month_day (month_lengths (is_leap y)) 1 yd = (m, md)"
    by (cases "month_day (month_lengths (is_leap y)) 1 yd")
  have t: "t = (?d * 86400 + ?s) * nanos_per_sec + ?ns" by simp
  have ns: "0 \<le> ?ns" "?ns < 1000000000" by (simp_all add: nanos_per_sec_def)
  have d: "0 \<le> ?d" "?d < 3652059" using assms by (auto simp: year_10000_def nanos_per_sec_def)
  have s: "0 \<le> ?s" "?s < 86400" by simp_all
  have hms: "0 \<le> ?s div 3600" "?s div 3600 < 24" "0 \<le> ?s div 60 mod 60" "?s div 60 mod 60 < 60"
    "0 \<le> ?s mod 60" "?s mod 60 < 60" "?s = ?s div 3600 * 3600 + ?s div 60 mod 60 * 60 + ?s mod 60"
    using hms_split [OF s] by blast+
  note yr = year_below [OF y d] year_yday_days [OF y]
  have yd: "0 \<le> yd" "yd < sum_list (month_lengths (is_leap y))" using yr(3) by (auto simp: month_lengths_props)
  have md: "1 \<le> m" "m < 13" "1 \<le> md" "md \<le> month_lengths (is_leap y) ! nat (m - 1)"
      "yd + 1 = days_before_month (is_leap y) m + md"
    using month_day_split [OF m yd] month_lengths_props by (auto simp: days_before_month_def)
  have "nat (m - 1) < length (month_lengths (is_leap y))" using md(1,2) by (simp add: month_lengths_props)
  then have md31: "md < 100" using md(4) month_lengths_props(2) [of "is_leap y"] nth_mem by fastforce
  have civil: "time_of_civil y m md (?s div 3600) (?s div 60 mod 60) (?s mod 60) ?ns = t"
  proof -
    have e1: "days_before_year y + days_before_month (is_leap y) m + md - 1 = ?d" using yr(3) md(5) by linarith
    have e2: "X * 86400 + ?s div 3600 * 3600 + ?s div 60 mod 60 * 60 + ?s mod 60 = X * 86400 + ?s" for X
      using hms(7) by linarith
    show ?thesis unfolding time_of_civil_def e1 e2 by (rule t [symmetric])
  qed
  have printed: "format_RFC3339Nano t = append_year y @ ''-'' @ digit2 m @ ''-'' @ digit2 md @ ''T'' @
      digit2 (?s div 3600) @ '':'' @ digit2 (?s div 60 mod 60) @ '':'' @ digit2 (?s mod 60) @ append_nano ?ns @ ''Z''"
    by (simp add: format_RFC3339Nano_def Let_def y m)
  have parsed: "parse_time_opt (append_year y @ ''-'' @ digit2 m @ ''-'' @ digit2 md @ ''T'' @
      digit2 hh @ '':'' @ digit2 mi @ '':'' @ digit2 ss @ append_nano n @ ''Z'') = Some (time_of_civil y m md hh mi ss n)"
    if "0 \<le> hh" "hh < 24" "0 \<le> mi" "mi < 60" "0 \<le> ss" "ss < 60" "0 \<le> n" "n < 1000000000" for hh mi ss n
    using that md(1-4) md31 yr(1,2)
    by (simp add: parse_time_opt_def getyear_digit4 getnum_digit2 getnano_append_nano getzone_def days_in_def)
  show ?thesis unfolding printed parsed [OF hms(1-6) ns] civil ..
qed

section \<open>The cursor\<close>

text \<open>Only the characters of an instant occur in its text, so no bar does.\<close>

definition time_char :: "char \<Rightarrow> bool" where
  "time_char c \<longleftrightarrow> c \<in> set ''0123456789-:.TZ''"

lemma time_char_simps [simp]:
  "time_char CHR ''-''" "time_char CHR ''T''" "time_char CHR '':''" "time_char CHR ''.''" "time_char CHR ''Z''"
  "\<not> time_char CHR ''|''"
  by (simp_all add: time_char_def)

lemma time_char_digit: "k < 10 \<Longrightarrow> time_char (hex_digit k)"
proof -
  have all: "list_all (\<lambda>k. time_char (hex_digit k)) [0..<10]" by code_simp
  assume "k < 10"
  with all show ?thesis by (simp add: list_all_iff)
qed

lemma digit2_chars [simp]: "list_all time_char (digit2 n)"
  by (simp add: digit2_def time_char_digit nat_less_iff)

lemma frac_digits_chars: "list_all time_char (frac_digits k n)"
  by (induction k arbitrary: n) (simp_all add: time_char_digit nat_less_iff)

lemma append_nano_chars [simp]: "list_all time_char (append_nano n)"
proof -
  obtain j where "frac_digits 9 n = drop_trailing_zeros (frac_digits 9 n) @ replicate j CHR ''0''"
    using drop_trailing_zeros_split by blast
  with frac_digits_chars [of 9 n] have "list_all time_char (drop_trailing_zeros (frac_digits 9 n))"
    by (metis list_all_append)
  then show ?thesis by (simp add: append_nano_def)
qed

lemma append_year_chars: "0 \<le> y \<Longrightarrow> y \<le> 9999 \<Longrightarrow> list_all time_char (append_year y)"
  by (simp add: append_year_def digit4_def)

lemma format_chars:
  assumes "0 \<le> t" and "t < year_10000"
  shows "list_all time_char (format_RFC3339Nano t)"
proof -
  let ?d = "t div nanos_per_sec div 86400"
  obtain y yd where y: "year_yday ?d = (y, yd)" by (cases "year_yday ?d")
  have "0 \<le> ?d" "?d < 3652059" using assms by (auto simp: year_10000_def nanos_per_sec_def)
  with year_below [OF y] have "1 \<le> y" "y \<le> 9999" by blast+
  then have "list_all time_char (append_year y)" by (simp add: append_year_chars)
  then show ?thesis
    by (cases "month_day (month_lengths (is_leap y)) 1 yd") (simp add: format_RFC3339Nano_def Let_def y)
qed

lemma format_no_bar:
  assumes "0 \<le> t" and "t < year_10000"
  shows "CHR ''|'' \<notin> set (format_RFC3339Nano t)"
  using format_chars [OF assms] time_char_simps(6) unfolding list_all_iff by blast

lemma scan_bar_split: "CHR ''|'' \<notin> set s \<Longrightarrow> scan_bar pre (s @ CHR ''|'' # i) = Some (rev pre @ s, i)"
  by (induction s arbitrary: pre) auto

lemma ParseCursor_Cursor_String:
  assumes "0 \<le> c_TS c" and "c_TS c < year_10000"
  shows "ParseCursor (Cursor_String c) = Inr c"
proof (cases "IsZero (c_TS c) \<and> c_ID c = ''''")
  case True
  then show ?thesis by (cases c) (simp add: Cursor_String_def ParseCursor_def)
next
  case False
  then have "Cursor_String c = format_RFC3339Nano (c_TS c) @ CHR ''|'' # c_ID c"
    by (auto simp: Cursor_String_def)
  then show ?thesis
    using scan_bar_split [OF format_no_bar [OF assms], of "[]" "c_ID c"] parse_format_opt [OF assms]
    by (cases c) (simp add: ParseCursor_def parse_RFC3339Nano_def)
qed

section \<open>Properties\<close>

text \<open>
  \<open>parse_RFC3339Nano\<close> inverts \<open>format_RFC3339Nano\<close> to the nanosecond, for every
  instant from the zero time up to the end of the year 9999: what the JSON answers, the cursor
  and the artifacts print as a time is read back as the same time.
\<close>

theorem time_text_roundtrip:
  assumes "0 \<le> t" and "t < year_10000"
  shows "parse_RFC3339Nano (format_RFC3339Nano t) = Inr t"
  using parse_format_opt [OF assms] by (simp add: parse_RFC3339Nano_def)

lemma time_text_roundtrip_witness:
  "parse_RFC3339Nano (format_RFC3339Nano 63839491507123456000) = Inr 63839491507123456000"
  by (rule time_text_roundtrip) (simp_all add: year_10000_def nanos_per_sec_def)

text \<open>
  C38: \<open>ParseCursor\<close> inverts \<open>Cursor.String\<close>, whatever characters the id holds (the
  separator included) and for the zero cursor as well: the cursor a client is handed resumes
  the listing at exactly the row it names.
\<close>

theorem cursor_roundtrip:
  assumes "0 \<le> c_TS c" and "c_TS c < year_10000"
  shows "ParseCursor (Cursor_String c) = Inr c"
  by (rule ParseCursor_Cursor_String [OF assms])

lemma cursor_roundtrip_witness:
  "ParseCursor (Cursor_String (Cursor 63839491507000000001 ''a|b'')) = Inr (Cursor 63839491507000000001 ''a|b'')"
  by (rule cursor_roundtrip) (simp_all add: year_10000_def nanos_per_sec_def)

end
