(* ===== verification/Json_Export.thy ===== *)
theory Json_Export
  imports Export Json_Text Time_Text "HOL-Library.Monad_Syntax"
begin

text \<open>
  The artifacts of internal/export/export.go read back: a reader of the JSON document
  (\<open>read_export\<close>) and one of the CSV file (\<open>read_csv_export\<close>) recover every exported row with
  all its columns. They rest on the round trips of the JSON encoder, of the CSV writer, of the
  texts of instants, of base64 and of hexadecimal.
\<close>

section \<open>Plain ASCII\<close>

lemma valid_utf8_Nil [simp]: "valid_utf8 []"
  by (simp add: valid_utf8.simps)

lemma valid_utf8_ascii [simp]: "code c < 128 \<Longrightarrow> valid_utf8 (c # s) \<longleftrightarrow> valid_utf8 s"
  by (simp add: valid_utf8.simps [of "c # s"])

lemma ascii_utf8: "list_all (\<lambda>c. code c < 128) s \<Longrightarrow> valid_utf8 s"
  by (induction s) simp_all

lemma time_char_ascii: "time_char c \<Longrightarrow> code c < 128"
  by (auto simp: time_char_def)

lemma time_text_utf8:
  assumes "0 \<le> t" and "t < year_10000"
  shows "valid_utf8 (format_RFC3339Nano t)"
  using format_chars [OF assms] time_char_ascii by (auto intro!: ascii_utf8 simp: list_all_iff)

section \<open>Base64\<close>

definition base64_value :: "char \<Rightarrow> nat" where
  "base64_value c = length (takeWhile (\<lambda>d. d \<noteq> c)
     ''ABCDEFGHIJKLMNOPQRSTUVWXYZabcdefghijklmnopqrstuvwxyz0123456789+/'')"

definition base64_push :: "nat \<Rightarrow> char \<Rightarrow> nat" where
  "base64_push x c = x * 64 + base64_value c"

text \<open>A reader of the padded text: each four characters are three bytes.\<close>

fun base64_read :: "string \<Rightarrow> bytes option" where
  "base64_read [] = Some []"
| "base64_read (a # b # c # d # s) =
     (let x = base64_push (base64_value a) b in
      if c = CHR ''='' then Some [word_of_nat (x div 16)]
      else let y = base64_push x c in
        if d = CHR ''='' then Some [word_of_nat (y div 1024), word_of_nat (y div 4 mod 256)]
        else let z = base64_push y d in
          map_option (\<lambda>bs. word_of_nat (z div 65536) # word_of_nat (z div 256 mod 256) # word_of_nat (z mod 256) # bs)
            (base64_read s))"
| "base64_read s = None"

lemma base64_digit_props:
  assumes "n < 64"
  shows "base64_value (base64_digit n) = n" and "base64_digit n \<noteq> CHR ''=''" and "code (base64_digit n) < 128"
proof -
  have "list_all (\<lambda>n. base64_value (base64_digit n) = n \<and> base64_digit n \<noteq> CHR ''='' \<and> code (base64_digit n) < 128)
    [0..<64]" by code_simp
  with assms show "base64_value (base64_digit n) = n" and "base64_digit n \<noteq> CHR ''=''"
    and "code (base64_digit n) < 128" by (simp_all add: list_all_iff)
qed

lemma byte_below [simp]: "unat (w :: 8 word) < 256"
proof -
  have "unat w < 2 ^ LENGTH(8)" by (rule unsigned_less)
  then show ?thesis by simp
qed

lemma base64_group:
  assumes "v < 16777216"
  shows "v div 262144 < 64"
    and "base64_push (v div 262144) (base64_digit (v div 4096 mod 64)) = v div 4096"
    and "base64_push (v div 4096) (base64_digit (v div 64 mod 64)) = v div 64"
    and "base64_push (v div 64) (base64_digit (v mod 64)) = v"
proof -
  have "v div 262144 = v div 4096 div 64" "v div 4096 = v div 64 div 64" by (simp_all add: div_mult2_eq [symmetric])
  then show "base64_push (v div 262144) (base64_digit (v div 4096 mod 64)) = v div 4096"
    and "base64_push (v div 4096) (base64_digit (v div 64 mod 64)) = v div 64"
    by (simp_all add: base64_push_def base64_digit_props)
  show "base64_push (v div 64) (base64_digit (v mod 64)) = v" by (simp add: base64_push_def base64_digit_props)
  show "v div 262144 < 64" using assms by (simp add: less_mult_imp_div_less)
qed

lemma three_bytes:
  fixes x y z :: nat
  assumes "y < 256" and "z < 256"
  shows "(x * 65536 + y * 256 + z) div 65536 = x" and "(x * 65536 + y * 256 + z) div 256 mod 256 = y"
    and "(x * 65536 + y * 256 + z) mod 256 = z"
proof -
  have e: "x * 65536 + y * 256 + z = (x * 256 + y) * 256 + z" by simp
  then have d: "(x * 65536 + y * 256 + z) div 256 = x * 256 + y" using assms(2) by simp
  have "(x * 65536 + y * 256 + z) div 65536 = (x * 65536 + y * 256 + z) div 256 div 256" by (simp add: div_mult2_eq [symmetric])
  with d assms(1) show "(x * 65536 + y * 256 + z) div 65536 = x" by simp
  show "(x * 65536 + y * 256 + z) div 256 mod 256 = y" using d assms(1) by simp
  show "(x * 65536 + y * 256 + z) mod 256 = z" unfolding e using assms(2) by (simp only: mod_mult_self3 mod_less)
qed

lemma base64_roundtrip [simp]: "base64_read (base64_encode bs) = Some bs"
proof (induction bs rule: base64_encode.induct)
  case (2 a)
  define v where "v = unat a * 65536"
  have v: "v < 16777216" using byte_below [of a] by (simp add: v_def)
  have "v div 4096 div 16 = unat a" by (simp add: v_def div_mult2_eq [symmetric])
  then show ?case
    by (simp add: v_def [symmetric] Let_def base64_digit_props base64_group [OF v])
next
  case (3 a b)
  define v where "v = unat a * 65536 + unat b * 256"
  have v: "v < 16777216" using byte_below [of a] byte_below [of b] unfolding v_def by linarith
  have "v div 64 div 1024 = unat a" "v div 64 div 4 mod 256 = unat b"
    using byte_below [of b] by (simp_all add: v_def div_mult2_eq [symmetric])
  then show ?case
    by (simp add: v_def [symmetric] Let_def base64_digit_props base64_group [OF v])
next
  case (4 a b c bs)
  define v where "v = unat a * 65536 + unat b * 256 + unat c"
  have v: "v < 16777216" using byte_below [of a] byte_below [of b] byte_below [of c] unfolding v_def by linarith
  have "v div 65536 = unat a" "v div 256 mod 256 = unat b" "v mod 256 = unat c"
    unfolding v_def by (rule three_bytes; simp)+
  then show ?case using 4
    by (simp add: v_def [symmetric] Let_def base64_digit_props base64_group [OF v])
qed simp

lemma base64_utf8 [simp]: "valid_utf8 (base64_encode bs)"
proof (rule ascii_utf8, induction bs rule: base64_encode.induct)
  case (2 a)
  have "unat a * 65536 < 16777216" using byte_below [of a] by simp
  note base64_group(1) [OF this]
  then show ?case by (simp add: Let_def base64_digit_props)
next
  case (3 a b)
  have "unat a * 65536 + unat b * 256 < 16777216" using byte_below [of a] byte_below [of b] by linarith
  note base64_group(1) [OF this]
  then show ?case by (simp add: Let_def base64_digit_props)
next
  case (4 a b c bs)
  have "unat a * 65536 + unat b * 256 + unat c < 16777216"
    using byte_below [of a] byte_below [of b] byte_below [of c] by linarith
  note base64_group(1) [OF this]
  then show ?case using 4 by (simp add: Let_def base64_digit_props)
qed simp

section \<open>A reader of the document\<close>

text \<open>
  What a consumer of a row in JSON does: find each column by its name, parse the time, decode the
  hashes with \<open>hash\<close> (the artifact holds base64, the REST API hexadecimal texts). \<open>None\<close> where a
  column is missing or has another type.
\<close>

definition bool_at :: "string \<Rightarrow> (string \<times> json) list \<Rightarrow> bool option" where
  "bool_at k m = (case map_of m k of Some (JBool b) \<Rightarrow> Some b | _ \<Rightarrow> None)"

fun read_event :: "(string \<Rightarrow> bytes option) \<Rightarrow> json \<Rightarrow> event option" where
  "read_event hash (JObj m) = do {
     i \<leftarrow> string_at ''id'' m;
     t \<leftarrow> Option.bind (string_at ''ts'' m) parse_time_opt;
     service \<leftarrow> string_at ''source_service'' m;
     actor \<leftarrow> string_at ''actor_id'' m;
     action \<leftarrow> string_at ''action'' m;
     ttype \<leftarrow> string_at ''target_type'' m;
     tid \<leftarrow> string_at ''target_id'' m;
     payload \<leftarrow> Option.bind (string_at ''payload_hash'' m) hash;
     ref \<leftarrow> string_at ''payload_ref'' m;
     prev \<leftarrow> Option.bind (string_at ''prev_hash'' m) hash;
     this \<leftarrow> Option.bind (string_at ''this_hash'' m) hash;
     anchored \<leftarrow> bool_at ''anchored'' m;
     hold \<leftarrow> bool_at ''legal_hold'' m;
     redacted \<leftarrow> bool_at ''redacted'' m;
     Some \<lparr>ID = i, TS = t, SourceService = service, ActorID = actor, Action = action, TargetType = ttype,
       TargetID = tid, PayloadHash = payload, PayloadRef = ref, PrevHash = prev, ThisHash = this,
       Anchored = anchored, LegalHold = hold, Redacted = redacted\<rparr> }"
| "read_event hash v = None"

text \<open>The document holds null in the place of an empty array.\<close>

definition read_export :: "string \<Rightarrow> event list option" where
  "read_export s =
     (case json_parse s of
       Some (JObj m) \<Rightarrow>
         (case map_of m ''events'' of
           Some (JArr vs) \<Rightarrow> those (map (read_event base64_read) vs)
         | Some JNull \<Rightarrow> Some []
         | _ \<Rightarrow> None)
     | _ \<Rightarrow> None)"

section \<open>What the exporter prints is read back\<close>

definition text_columns :: "event \<Rightarrow> string list" where
  "text_columns e = [ID e, SourceService e, ActorID e, Action e, TargetType e, TargetID e, PayloadRef e]"

definition exportable :: "event \<Rightarrow> bool" where
  "exportable e \<longleftrightarrow> 0 \<le> TS e \<and> TS e < year_10000 \<and> list_all valid_utf8 (text_columns e)"

lemma time_json_text: "0 \<le> t \<Longrightarrow> t < year_10000 \<Longrightarrow> time_json t = Inr (JStr (format_RFC3339Nano t))"
proof -
  assume t: "0 \<le> t" "t < year_10000"
  let ?d = "t div nanos_per_sec div 86400"
  obtain y yd where y: "year_yday ?d = (y, yd)" by (cases "year_yday ?d")
  have "0 \<le> ?d" "?d < 3652059" using t by (auto simp: year_10000_def nanos_per_sec_def)
  with year_below [OF y] have "1 \<le> y" "y \<le> 9999" by blast+
  then show ?thesis by (simp add: time_json_def year_of_def y)
qed

lemma event_json_read:
  assumes "exportable e" and "1 < d"
  obtains v where "event_json e = Inr v" and "read_event base64_read v = Some e" and "printable d v"
proof -
  have t: "0 \<le> TS e" "TS e < year_10000" using assms(1) by (simp_all add: exportable_def)
  obtain v where v: "event_json e = Inr v" using time_json_text [OF t] by (simp add: event_json_def)
  moreover have "read_event base64_read v = Some e" using v parse_format_opt [OF t]
    by (auto simp: event_json_def time_json_text [OF t] string_at_def bool_at_def)
  moreover have "printable d v" using v assms time_text_utf8 [OF t]
    by (auto simp: event_json_def time_json_text [OF t] exportable_def text_columns_def)
  ultimately show ?thesis by (rule that)
qed

lemma events_json_read:
  assumes "list_all exportable es" and "1 < d"
  obtains vs where "events_json es = Inr vs" and "those (map (read_event base64_read) vs) = Some es"
    and "list_all (printable d) vs"
  using assms(1)
proof (induction es arbitrary: thesis)
  case (Cons e es)
  from Cons.prems(2) obtain vs where "events_json es = Inr vs" "those (map (read_event base64_read) vs) = Some es"
    "list_all (printable d) vs" using Cons.IH by auto
  moreover from Cons.prems(2) obtain v where "event_json e = Inr v" "read_event base64_read v = Some e" "printable d v"
    using event_json_read [OF _ assms(2), of e] by auto
  ultimately show ?case by (intro Cons.prems(1) [of "v # vs"]) simp_all
qed simp

text \<open>
  C31: the JSON artifact is lossless. For rows whose times lie in the years 1 to 9999 and whose
  columns are valid UTF-8 the serialization succeeds, and a reader that parses the document and
  decodes each column (RFC 3339 times, base64 hashes) recovers exactly the exported rows, in
  their order and with every column; no rows are printed as null and read back as none.
\<close>

theorem export_json_lossless:
  assumes "list_all exportable events"
  shows "\<exists>b. serializeJSON events = Inr b \<and> read_export (string_of_bytes b) = Some events"
proof -
  obtain vs where vs: "events_json events = Inr vs" "those (map (read_event base64_read) vs) = Some events"
    "list_all (printable (max_depth - 2)) vs"
    using events_json_read [OF assms, of "max_depth - 2"] by (auto simp: max_depth_def)
  let ?doc = "JObj [(''events'', if events = [] then JNull else JArr vs)]"
  have "valid_utf8 ''events''" by (simp add: ascii_utf8)
  with vs(3) have "printable max_depth ?doc" by (simp add: max_depth_def)
  from json_roundtrip(2) [OF this, of "[]" 0] have "json_parse (MarshalIndent 0 ?doc) = Some ?doc" by simp
  with vs(1,2) show ?thesis by (auto simp: serializeJSON_def read_export_def)
qed

lemma export_json_lossless_witness:
  "\<exists>b. serializeJSON [sample_row 9 ''\"q\"'', sample_row 12 ''b''] = Inr b \<and>
    read_export (string_of_bytes b) = Some [sample_row 9 ''\"q\"'', sample_row 12 ''b'']"
proof (rule export_json_lossless)
  show "list_all exportable [sample_row 9 ''\"q\"'', sample_row 12 ''b'']"
    by (simp add: exportable_def text_columns_def sample_row_def year_10000_def nanos_per_sec_def ascii_utf8)
qed

section \<open>The CSV artifact\<close>

text \<open>
  What a consumer of the CSV file does: the first record names the columns, each value is found
  by the name of its column, times are parsed, hashes are hexadecimal after \<^verbatim>\<open>sha256:\<close> and flags
  are the words \<^verbatim>\<open>true\<close> and \<^verbatim>\<open>false\<close>.
\<close>

definition hash_cell :: "string \<Rightarrow> bytes option" where
  "hash_cell s =
     (if take 7 s = ''sha256:'' then (case hex_DecodeString (drop 7 s) of Inr b \<Rightarrow> Some b | Inl _ \<Rightarrow> None) else None)"

definition bool_cell :: "string \<Rightarrow> bool option" where
  "bool_cell s = (if s = ''true'' then Some True else if s = ''false'' then Some False else None)"

definition read_csv_event :: "string list \<Rightarrow> string list \<Rightarrow> event option" where
  "read_csv_event header row = (let m = map_of (zip header row) in do {
     i \<leftarrow> m ''id'';
     t \<leftarrow> Option.bind (m ''ts'') parse_time_opt;
     service \<leftarrow> m ''source_service'';
     actor \<leftarrow> m ''actor_id'';
     action \<leftarrow> m ''action'';
     ttype \<leftarrow> m ''target_type'';
     tid \<leftarrow> m ''target_id'';
     payload \<leftarrow> Option.bind (m ''payload_hash'') hash_cell;
     ref \<leftarrow> m ''payload_ref'';
     prev \<leftarrow> Option.bind (m ''prev_hash'') hash_cell;
     this \<leftarrow> Option.bind (m ''this_hash'') hash_cell;
     anchored \<leftarrow> Option.bind (m ''anchored'') bool_cell;
     hold \<leftarrow> Option.bind (m ''legal_hold'') bool_cell;
     redacted \<leftarrow> Option.bind (m ''redacted'') bool_cell;
     Some \<lparr>ID = i, TS = t, SourceService = service, ActorID = actor, Action = action, TargetType = ttype,
       TargetID = tid, PayloadHash = payload, PayloadRef = ref, PrevHash = prev, ThisHash = this,
       Anchored = anchored, LegalHold = hold, Redacted = redacted\<rparr> })"

definition read_csv_export :: "string \<Rightarrow> event list option" where
  "read_csv_export s =
     (case read_csv s of [] \<Rightarrow> None | header # rows \<Rightarrow> those (map (read_csv_event header) rows))"

lemma cells [simp]:
  "hash_cell (''sha256:'' @ hex_EncodeToString b) = Some b" "bool_cell (boolStr c) = Some c"
  "length b = 32 \<Longrightarrow> hash_cell (HashHex b) = Some b"
  by (simp_all add: hash_cell_def bool_cell_def boolStr_def HashHex_def HashPrefix_def)

lemma read_csv_row:
  assumes "0 \<le> TS e" and "TS e < year_10000" and "length (PrevHash e) = 32" and "length (ThisHash e) = 32"
  shows "read_csv_event csv_header (csv_row e) = Some e"
  using assms parse_format_opt [OF assms(1,2)] cells(1) [of "PayloadHash e"]
  by (simp add: read_csv_event_def csv_header_def csv_row_def)

text \<open>
  C32: the CSV artifact is lossless. For rows whose times lie in the years 1 to 9999 and whose
  two chain hashes have 32 bytes, whatever characters the text columns hold (quotes, commas and
  line breaks included), a reader that finds each column by its name in the header and decodes it
  (RFC 3339 times, hexadecimal hashes, flags) recovers exactly the exported rows, in their order
  and with every column.
\<close>

theorem export_csv_lossless:
  assumes "\<forall>e \<in> set events. 0 \<le> TS e \<and> TS e < year_10000 \<and> length (PrevHash e) = 32 \<and> length (ThisHash e) = 32"
  shows "\<exists>b. serializeCSV events = Inr b \<and> read_csv_export (string_of_bytes b) = Some events"
proof -
  obtain b where b: "serializeCSV events = Inr b" "read_csv (string_of_bytes b) = csv_header # map csv_row events"
    using read_csv_serialized by blast
  have "those (map (read_csv_event csv_header) (map csv_row events)) = Some events"
    using assms by (induction events) (simp_all add: read_csv_row)
  with b show ?thesis by (simp add: read_csv_export_def)
qed

lemma export_csv_lossless_witness:
  "\<exists>b. serializeCSV [sample_row 9 ''\"q\",'', sample_row 12 ''b'']  = Inr b \<and>
    read_csv_export (string_of_bytes b) = Some [sample_row 9 ''\"q\",'', sample_row 12 ''b'']"
  by (rule export_csv_lossless) (simp add: sample_row_def year_10000_def nanos_per_sec_def)

end
