(* ===== verification/Paging.thy ===== *)
theory Paging
  imports Api Json_Export Memstore
begin

text \<open>
  A client of \<^verbatim>\<open>GET /v1/events\<close> that follows \<open>next_cursor\<close>: the handler, the text of the cursor
  and the listing of the store composed. The laws of the listing come from \<open>event_listing\<close>, so
  the result holds for every store with that contract. Then the JSON answer of the verification
  endpoint, parsed.
\<close>

section \<open>One page\<close>

text \<open>The filter of a request as \<open>handleListEvents\<close> builds it.\<close>

definition page_filter :: "request \<Rightarrow> event_filter result" where
  "page_filter r =
     (case time_param ''from'' r of Inl err \<Rightarrow> Inl err
      | Inr from_ts \<Rightarrow> (case time_param ''to'' r of Inl err \<Rightarrow> Inl err
        | Inr to_ts \<Rightarrow> (case ParseCursor (rq_Query r ''cursor'') of Inl err \<Rightarrow> Inl err
          | Inr c \<Rightarrow>
              let f = list_filter r;
                  f = (case from_ts of Some ts \<Rightarrow> f\<lparr>f_From := ts\<rparr> | None \<Rightarrow> f);
                  f = (case to_ts of Some ts \<Rightarrow> f\<lparr>f_To := ts\<rparr> | None \<Rightarrow> f)
              in Inr (f\<lparr>f_Cursor := c\<rparr>))))"

text \<open>The rows and the cursor text of the response.\<close>

definition list_page ::
  "('s, 'j, 'p, 'r) api_deps \<Rightarrow> request \<Rightarrow> ('s, 'j, 'p, 'r) api_world \<Rightarrow> (event list \<times> string) option" where
  "list_page d r w =
     (case page_filter r of Inl _ \<Rightarrow> None
      | Inr f \<Rightarrow> (case es_List (ad_Events d) f (aw_Events w) of Inl _ \<Rightarrow> None
        | Inr res \<Rightarrow> Some (lr_Events res,
            if IsZero (c_TS (lr_NextCursor res)) then '''' else Cursor_String (lr_NextCursor res))))"

definition page_response :: "event list \<Rightarrow> string \<Rightarrow> response" where
  "page_response es c = writeJSON 200 (go_map [(''events'', toEventJSONs es), (''next_cursor'', JStr c)])"

lemma no_cursor_kept:
  "f_Cursor f = no_cursor \<Longrightarrow> ParseCursor s = Inr c \<Longrightarrow> (if s \<noteq> '''' then f\<lparr>f_Cursor := c\<rparr> else f) = f\<lparr>f_Cursor := c\<rparr>"
  by (auto simp: ParseCursor_def)

lemma list_page_answered:
  assumes "list_page d r w = Some (es, c)"
  shows "fst (handleListEvents q d r w) = page_response es c"
proof -
  have f0: "f_Cursor (list_filter r) = no_cursor" by (simp add: list_filter_def zero_filter_def)
  show ?thesis
    using assms f0
    by (auto simp: list_page_def page_filter_def handleListEvents_def page_response_def Let_def no_cursor_kept
        split: sum.splits option.splits)
qed

section \<open>The response read\<close>

text \<open>
  What a client makes of an answer: with status 200 the body is parsed, each element of
  \<open>events\<close> is a row with its hashes in hexadecimal.
\<close>

definition hash_text :: "string \<Rightarrow> bytes option" where
  "hash_text s = (case DecodeHashToBytes s of Inl _ \<Rightarrow> None | Inr b \<Rightarrow> Some b)"

definition client_page :: "response \<Rightarrow> (event list \<times> string) option" where
  "client_page r =
     (if hr_Code r \<noteq> 200 then None
      else case json_parse (hr_Body r) of
        Some (JObj m) \<Rightarrow>
          (case (map_of m ''events'', string_at ''next_cursor'' m) of
            (Some (JArr vs), Some c) \<Rightarrow> map_option (\<lambda>es. (es, c)) (those (map (read_event hash_text) vs))
          | _ \<Rightarrow> None)
      | _ \<Rightarrow> None)"

text \<open>The rows a response shows in full: an exportable row with hashes of 32 bytes.\<close>

definition presentable :: "event \<Rightarrow> bool" where
  "presentable e \<longleftrightarrow> exportable e \<and> length (PayloadHash e) = 32 \<and> length (PrevHash e) = 32 \<and> length (ThisHash e) = 32"

lemma hash_text_hex: "length b = 32 \<Longrightarrow> hash_text (HashPrefix @ hex_EncodeToString b) = Some b"
  by (simp add: hash_text_def DecodeHashToBytes_def)

lemma map_put_subset: "set (map_put k v m) \<subseteq> insert (k, v) (set m)"
  by (induction m rule: map_put.induct) auto

lemma fold_map_put_subset: "set (fold (\<lambda>(k, v) m. map_put k v m) kvs m) \<subseteq> set kvs \<union> set m"
proof (induction kvs arbitrary: m)
  case (Cons kv kvs)
  then show ?case using map_put_subset [of "fst kv" "snd kv" m] by (cases kv) fastforce
qed simp

lemma go_map_printable:
  "0 < d \<Longrightarrow> \<forall>(k, v) \<in> set kvs. valid_utf8 k \<and> printable (d - 1) v \<Longrightarrow> printable d (go_map kvs)"
  using fold_map_put_subset [of kvs "[]"] by (auto simp: go_map_def list_all_iff)

lemma hex_digit_ascii: "n < 16 \<Longrightarrow> code (hex_digit n) < 128"
proof -
  have "list_all (\<lambda>n. code (hex_digit n) < 128) [0..<16]" by code_simp
  then show "n < 16 \<Longrightarrow> code (hex_digit n) < 128" by (simp add: list_all_iff)
qed

lemma hex_utf8 [simp]: "valid_utf8 (hex_EncodeToString b)"
proof (rule ascii_utf8, induction b)
  case (Cons b bs)
  have "unat b div 16 < 16" using byte_below [of b] by (simp add: less_mult_imp_div_less)
  with Cons show ?case by (simp add: hex_digit_ascii)
qed simp

lemma toEventJSON_read:
  assumes "presentable e" and "1 < d"
  shows "read_event hash_text (go_map (toEventJSON e)) = Some e" and "printable d (go_map (toEventJSON e))"
proof -
  have t: "0 \<le> TS e" "TS e < year_10000" using assms(1) by (simp_all add: presentable_def exportable_def)
  show "read_event hash_text (go_map (toEventJSON e)) = Some e"
    using assms(1) parse_format_opt [OF t]
    by (simp add: go_map_def toEventJSON_def string_at_def bool_at_def map_of_map_put HashHex_def presentable_def
        HashPrefix_def hash_text_hex [unfolded HashPrefix_def append.simps])
  show "printable d (go_map (toEventJSON e))"
    using assms time_text_utf8 [OF t]
    by (intro go_map_printable)
      (simp_all add: toEventJSON_def presentable_def exportable_def text_columns_def HashHex_def HashPrefix_def)
qed

lemma client_page_response:
  assumes "list_all presentable es" and "valid_utf8 c"
  shows "client_page (page_response es c) = Some (es, c)"
proof -
  let ?vs = "map (\<lambda>e. go_map (toEventJSON e)) es"
  let ?doc = "go_map [(''events'', JArr ?vs), (''next_cursor'', JStr c)]"
  have es: "list_all (\<lambda>e. printable (max_depth - 2) (go_map (toEventJSON e))) es"
    using assms(1) toEventJSON_read(2) [of _ "max_depth - 2"] by (simp add: list_all_iff max_depth_def)
  then have doc: "printable max_depth ?doc"
    using assms(2) by (intro go_map_printable) (simp_all add: max_depth_def list_all_iff)
  have "blank [newline]" by (simp add: json_ws_def)
  from json_roundtrip(1) [OF doc this]
  have parsed: "json_parse (hr_Body (page_response es c)) = Some ?doc"
    by (simp add: page_response_def writeJSON_def toEventJSONs_def)
  have "those (map (read_event hash_text) ?vs) = Some es"
    using assms(1) toEventJSON_read(1) [of _ 2] by (induction es) (simp_all del: read_event.simps)
  with parsed show ?thesis
    by (simp add: client_page_def page_response_def writeJSON_def go_map_def string_at_def comp_def)
qed

definition with_cursor :: "request \<Rightarrow> string \<Rightarrow> request" where
  "with_cursor r c = r\<lparr>rq_Query := (rq_Query r)(''cursor'' := c)\<rparr>"

section \<open>The client\<close>

text \<open>Ask with the empty cursor, then with the cursor of each answer until it is empty.\<close>

fun client_walk :: "nat \<Rightarrow> (string \<Rightarrow> (event list \<times> string) option) \<Rightarrow> string \<Rightarrow> event list option" where
  "client_walk 0 ask c = None"
| "client_walk (Suc n) ask c =
     (case ask c of None \<Rightarrow> None
      | Some (es, c') \<Rightarrow> if c' = '''' then Some es else map_option ((@) es) (client_walk n ask c'))"

lemma with_cursor_filter:
  assumes "page_filter (with_cursor r '''') = Inr f" and "ParseCursor c = Inr cur"
  shows "page_filter (with_cursor r c) = Inr (f\<lparr>f_Cursor := cur\<rparr>)"
proof -
  have "time_param k (with_cursor r c) = time_param k (with_cursor r '''')" if "k \<noteq> ''cursor''" for k
    using that by (simp add: time_param_def with_cursor_def)
  moreover have "list_filter (with_cursor r c) = list_filter (with_cursor r '''')"
    by (simp add: list_filter_def with_cursor_def)
  ultimately show ?thesis
    using assms by (auto simp: page_filter_def with_cursor_def Let_def split: sum.splits option.splits)
qed

context event_listing
begin

lemma client_walk_selected:
  assumes "inv s" and times: "\<forall>e \<in> set (rows s). 0 < TS e \<and> TS e < year_10000"
    and ask: "\<And>c cur. ParseCursor c = Inr cur \<Longrightarrow> fits (f\<lparr>f_Cursor := cur\<rparr>) \<Longrightarrow> ask c =
      (case es_List ops (f\<lparr>f_Cursor := cur\<rparr>) s of Inl _ \<Rightarrow> None
       | Inr res \<Rightarrow> Some (lr_Events res,
           if IsZero (c_TS (lr_NextCursor res)) then '''' else Cursor_String (lr_NextCursor res)))"
    and "ParseCursor c = Inr cur" and "fits (f\<lparr>f_Cursor := cur\<rparr>)"
    and "sel = filter (\<lambda>e. selected f e \<and> after_cursor cur e) (rows s)"
  shows "\<exists>n \<le> Suc (length sel). client_walk n ask c = Some sel"
  using assms(4-)
proof (induction "length sel" arbitrary: sel c cur rule: less_induct)
  case less
  let ?f = "f\<lparr>f_Cursor := cur\<rparr>"
  have sel: "sel = filter (\<lambda>e. selected ?f e \<and> after_cursor (f_Cursor ?f) e) (rows s)" using less.prems(3) by simp
  obtain res where res: "es_List ops ?f s = Inr res"
    using listing_total [OF assms(1) less.prems(2)] by (auto simp: is_ok_def split: sum.splits)
  note list = listing [OF assms(1) less.prems(2) res sel]
  have nz: "\<forall>e \<in> set (rows s). \<not> IsZero (TS e)" using times by auto
  from assms(1) less.prems(2) nz res sel show ?case
  proof (cases rule: page_cases)
    case last_page
    then have "IsZero (c_TS (lr_NextCursor res))" using list by auto
    then have "client_walk 1 ask c = Some sel" using last_page(1) ask [OF less.prems(1,2)] by (simp add: res)
    then show ?thesis by (intro exI [of _ 1]) simp
  next
    case more
    let ?next = "lr_NextCursor res"
    have next_c: "?next = ev_key (last (lr_Events res))" using list more(4) by auto
    have "last (lr_Events res) \<in> set sel" using more(1,2) by (metis in_set_takeD last_in_set)
    then have t: "0 < c_TS ?next" "c_TS ?next < year_10000" using times less.prems(3) by (auto simp: next_c)
    have parsed: "ParseCursor (Cursor_String ?next) = Inr ?next" using ParseCursor_Cursor_String t by simp
    have "Cursor_String ?next \<noteq> ''''" using t by (simp add: Cursor_String_def)
    have admissible: "fits (f\<lparr>f_Cursor := ?next\<rparr>)"
      and rest: "drop (page_limit ?f) sel = filter (\<lambda>e. selected f e \<and> after_cursor ?next e) (rows s)"
      using more(3,6) by simp_all
    obtain n where n: "n \<le> Suc (length (drop (page_limit ?f) sel))"
        "client_walk n ask (Cursor_String ?next) = Some (drop (page_limit ?f) sel)"
      using less.hyps [OF more(5) parsed admissible rest] by blast
    have "client_walk (Suc n) ask c = Some sel"
      using ask [OF less.prems(1,2)] res more(1,4) n(2) \<open>Cursor_String ?next \<noteq> ''''\<close>
      by (simp add: append_take_drop_id)
    moreover have "Suc n \<le> Suc (length sel)" using n(1) more(5) by simp
    ultimately show ?thesis by blast
  qed
qed

text \<open>What a page holds comes from the store, its cursor names one of the rows or none.\<close>

lemma page_from_store:
  assumes "inv s" and "fits f" and "es_List ops f s = Inr res"
  shows "set (lr_Events res) \<subseteq> set (rows s)"
    and "lr_NextCursor res = no_cursor \<or> (\<exists>e \<in> set (rows s). lr_NextCursor res = ev_key e)"
proof -
  let ?sel = "filter (\<lambda>e. selected f e \<and> after_cursor (f_Cursor f) e) (rows s)"
  note page = listing [OF assms refl]
  show rows: "set (lr_Events res) \<subseteq> set (rows s)" using page by (auto dest: in_set_takeD)
  have "lr_Events res \<noteq> []" if "?sel \<noteq> []" using page that page_limit_pos [of f] by (simp del: page_limit_pos)
  then have "last (lr_Events res) \<in> set (rows s)" if "?sel \<noteq> []"
    using rows that last_in_set by (metis subsetD)
  then show "lr_NextCursor res = no_cursor \<or> (\<exists>e \<in> set (rows s). lr_NextCursor res = ev_key e)"
    using page by blast
qed

end

lemma cursor_utf8:
  assumes "0 \<le> c_TS c" and "c_TS c < year_10000" and "valid_utf8 (c_ID c)"
  shows "valid_utf8 (Cursor_String c)"
proof -
  have "list_all (\<lambda>c. code c < 128) p \<Longrightarrow> valid_utf8 (p @ s) = valid_utf8 s" for p s by (induction p) simp_all
  moreover have "list_all (\<lambda>c. code c < 128) (format_RFC3339Nano (c_TS c))"
    using format_chars [OF assms(1,2)] time_char_ascii by (auto simp: list_all_iff)
  ultimately show ?thesis using assms(3) by (simp add: Cursor_String_def)
qed

lemma client_page_listed:
  assumes "event_listing (ad_Events d) ok rows fit" and "ok (aw_Events w)"
    and pres: "\<forall>e \<in> set (rows (aw_Events w)). presentable e"
    and "page_filter r = Inr f" and "fit f"
  shows "client_page (fst (handleListEvents q d r w)) = list_page d r w"
proof -
  obtain res where res: "es_List (ad_Events d) f (aw_Events w) = Inr res"
    using event_listing.listing_total [OF assms(1,2,5)] by (auto simp: is_ok_def split: sum.splits)
  note page = event_listing.page_from_store [OF assms(1,2,5) res]
  let ?c = "if IsZero (c_TS (lr_NextCursor res)) then '''' else Cursor_String (lr_NextCursor res)"
  have ans: "list_page d r w = Some (lr_Events res, ?c)" using assms(4) res by (simp add: list_page_def)
  have "valid_utf8 ?c"
    using page(2) pres by (auto intro!: cursor_utf8 simp: presentable_def exportable_def text_columns_def ev_key_def)
  moreover have "list_all presentable (lr_Events res)" using page(1) pres by (auto simp: list_all_iff)
  ultimately show ?thesis by (simp only: list_page_answered [OF ans] client_page_response ans)
qed

section \<open>Properties\<close>

text \<open>
  C19: following \<open>next_cursor\<close> reads everything. Over any store that keeps the listing contract,
  a client that asks \<^verbatim>\<open>GET /v1/events\<close> without a cursor, parses the JSON body of each answer and
  goes on with its \<open>next_cursor\<close>, until it is empty, ends and has read exactly the rows that the
  request's filter selects, each with all its columns, once each and in chain order, whatever
  page size it asked for. The rows are those a response can show: times in the years 1 to 9999,
  columns in valid UTF-8, hashes of 32 bytes.
\<close>

theorem api_pagination_complete:
  assumes "event_listing (ad_Events d) ok rows fit" and "ok (aw_Events w)"
    and "\<forall>e \<in> set (rows (aw_Events w)). 0 < TS e \<and> presentable e"
    and "page_filter (with_cursor r '''') = Inr f" and "fit f"
  shows "\<exists>n \<le> Suc (length (rows (aw_Events w))).
    client_walk n (\<lambda>c. client_page (fst (handleListEvents q d (with_cursor r c) w))) '''' =
      Some (filter (selected f) (rows (aw_Events w)))"
proof -
  let ?ask = "\<lambda>c. client_page (fst (handleListEvents q d (with_cursor r c) w))"
  let ?all = "rows (aw_Events w)"
  have start: "ParseCursor '''' = Inr no_cursor" by (simp add: ParseCursor_def)
  then have f: "f\<lparr>f_Cursor := no_cursor\<rparr> = f" using with_cursor_filter [OF assms(4) start] assms(4) by simp
  have times: "\<forall>e \<in> set ?all. 0 < TS e \<and> TS e < year_10000" and pres: "\<forall>e \<in> set ?all. presentable e"
    using assms(3) by (auto simp: presentable_def exportable_def)
  have sel: "filter (\<lambda>e. selected f e \<and> after_cursor no_cursor e) ?all = filter (selected f) ?all"
    by (simp add: after_cursor_def)
  have "\<exists>n \<le> Suc (length (filter (selected f) ?all)). client_walk n ?ask '''' = Some (filter (selected f) ?all)"
  proof (rule event_listing.client_walk_selected [OF assms(1,2) times _ start _ sel [symmetric]], goal_cases)
    case (1 c cur)
    then show ?case
      using client_page_listed [OF assms(1,2) pres with_cursor_filter [OF assms(4) 1(1)] 1(2)]
      by (simp add: list_page_def with_cursor_filter [OF assms(4) 1(1)])
  qed (use assms(5) f in simp)
  then show ?thesis using length_filter_le [of "selected f" ?all] by (meson Suc_le_mono le_trans)
qed

text \<open>A client that asks for one row at a time.\<close>

definition one_by_one :: request where
  "one_by_one = \<lparr>rq_Method = ''GET'', rq_Path = [''v1'', ''events''],
     rq_Query = (\<lambda>k. if k = ''limit'' then ''1'' else ''''), rq_Roles = ''audit-reader'', rq_Body = ''''\<rparr>"

theorem api_pagination_complete_witness:
  "\<exists>n. client_walk n (\<lambda>c. client_page (fst (handleListEvents plain_texts sample_api (with_cursor one_by_one c)
     (sample_world two_rows)))) '''' = Some two_rows"
proof -
  have st: "mem_inv (store_of two_rows)" "mem_rows (store_of two_rows) = two_rows"
    by (rule store_of_inv store_of_rows; simp add: two_rows_def less_cursor_def)+
  let ?f = "list_filter one_by_one\<lparr>f_Cursor := no_cursor\<rparr>"
  have f: "page_filter (with_cursor one_by_one '''') = Inr ?f"
    by (simp add: page_filter_def with_cursor_def one_by_one_def time_param_def list_filter_def ParseCursor_def)
  have all: "filter (selected ?f) two_rows = two_rows"
    by (simp add: filter_id_conv selected_def in_window_def attrs_match_def list_filter_def one_by_one_def zero_filter_def)
  have times: "\<forall>e \<in> set two_rows. 0 < TS e \<and> presentable e"
    by (simp add: two_rows_def sealed_row_def sample_row_def presentable_def exportable_def text_columns_def
        year_10000_def nanos_per_sec_def)
  have w: "aw_Events (sample_world two_rows) = store_of two_rows" "ad_Events sample_api = mem_event_store"
    by (simp_all add: sample_world_def sample_api_def)
  from api_pagination_complete [of sample_api mem_inv mem_rows "\<lambda>_. True" "sample_world two_rows" one_by_one ?f plain_texts]
  show ?thesis using f all times st mem.event_listing_axioms unfolding w by auto
qed

section \<open>The verification endpoint\<close>

lemma HashHex_utf8 [simp]: "valid_utf8 (HashHex b)"
  by (simp add: HashHex_def HashPrefix_def)

lemma verify_members_parsed:
  assumes "valid_utf8 (ID e)"
  shows "json_parse (hr_Body (writeJSON 200 (go_map (verify_members e p)))) = Some (go_map (verify_members e p))"
proof -
  have "valid_utf8 (status_text s)" for s by (cases s) (simp_all add: ascii_utf8)
  moreover have "valid_utf8 (vr_Reason (VerifyEvent e (Some p)))"
    by (auto simp: VerifyEvent_reason ascii_utf8)
  ultimately have doc: "printable max_depth (go_map (verify_members e p))"
    using assms by (intro go_map_printable) (auto simp: verify_members_def Let_def max_depth_def)
  have "blank [newline]" by (simp add: json_ws_def)
  from json_roundtrip(1) [OF doc this] show ?thesis by (simp add: writeJSON_def)
qed

text \<open>
  C37: what the verification endpoint answers. For a row (its id in valid UTF-8) whose
  predecessor in the chain is strictly older and among the first 1000 rows, the answer is a JSON
  document of status 200 whose \<open>status\<close> is broken if the stored hash is not the recomputed one,
  else gap if the link is not the predecessor's hash, else ok; it names the row, the
  predecessor's hash, the stored and the recomputed hash, and the reason of a failure. The
  verdict is counted and nothing else changes.
\<close>

theorem verify_endpoint_answer:
  assumes "mem_inv (aw_Events w)" and "ad_Events d = mem_event_store"
    and "mem_rows (aw_Events w) = xs @ x # e # ys" and "TS x < TS e" and "length xs < 1000"
    and "ThisHash x \<noteq> []" and "ID e \<noteq> []" and "validID d (ID e)" and "\<not> IsZero (TS e)" and "valid_utf8 (ID e)"
    and "verdict = (if ThisHash e \<noteq> EventHash e then ''broken''
       else if PrevHash e \<noteq> ThisHash x then ''gap'' else ''ok'')"
  shows "\<exists>resp m. handleVerifyEvent q d (ID e) w = (resp, observe (ChainVerifyOutcomes verdict) w) \<and>
    hr_Code resp = 200 \<and> json_parse (hr_Body resp) = Some (JObj m) \<and>
    string_at ''status'' m = Some verdict \<and> string_at ''id'' m = Some (ID e) \<and>
    string_at ''prev_hash'' m = Some (HashHex (ThisHash x)) \<and>
    string_at ''this_hash'' m = Some (HashHex (ThisHash e)) \<and>
    string_at ''computed'' m = Some (HashHex (EventHash e)) \<and>
    string_at ''reason'' m =
      (if verdict = ''broken'' then Some ''stored this_hash does not match recomputed hash''
       else if verdict = ''gap'' then Some ''prev_hash linkage broken'' else None)"
proof -
  have cmp: "compared_hash e (mem_rows (aw_Events w)) = ThisHash x"
    by (rule compared_hash_predecessor [OF assms(1,3-6)])
  have mem: "e \<in> set (mem_rows (aw_Events w))" by (simp add: assms(3))
  have status: "status_text (vr_Status (VerifyEvent e (Some (ThisHash x)))) = verdict"
    by (auto simp: VerifyEvent_status assms(11))
  note answer = handleVerifyEvent_answer [OF assms(1,2) mem assms(7-9), of q, unfolded cmp status]
  obtain m where m: "go_map (verify_members e (ThisHash x)) = JObj m" by (simp add: go_map_def)
  then have members: "m = fold (\<lambda>(k, v) m. map_put k v m) (verify_members e (ThisHash x)) []"
    by (simp add: go_map_def)
  have body: "string_at ''status'' m = Some verdict \<and> string_at ''id'' m = Some (ID e) \<and>
    string_at ''prev_hash'' m = Some (HashHex (ThisHash x)) \<and>
    string_at ''this_hash'' m = Some (HashHex (ThisHash e)) \<and>
    string_at ''computed'' m = Some (HashHex (EventHash e)) \<and>
    string_at ''reason'' m =
      (if verdict = ''broken'' then Some ''stored this_hash does not match recomputed hash''
       else if verdict = ''gap'' then Some ''prev_hash linkage broken'' else None)"
    using status
    by (auto simp: members verify_members_def Let_def string_at_def map_of_map_put VerifyEvent_reason assms(11))
  have "json_parse (hr_Body (writeJSON 200 (go_map (verify_members e (ThisHash x))))) = Some (JObj m)"
    using verify_members_parsed [OF assms(10)] m by metis
  with answer body show ?thesis
    by (intro exI [of _ "writeJSON 200 (go_map (verify_members e (ThisHash x)))"] exI [of _ m])
      (simp add: writeJSON_def)
qed

text \<open>A history of two rows of which the second has another stored hash.\<close>

definition spoiled_rows :: "event list" where
  "spoiled_rows = [sealed_row 1 ''a'' ZeroHash, sample_row 2 ''b''\<lparr>ThisHash := [7]\<rparr>]"

theorem verify_endpoint_answer_witness:
  "\<exists>resp m. handleVerifyEvent plain_texts sample_api ''b'' (sample_world spoiled_rows) =
     (resp, observe (ChainVerifyOutcomes ''broken'') (sample_world spoiled_rows)) \<and>
   json_parse (hr_Body resp) = Some (JObj m) \<and> string_at ''status'' m = Some ''broken''"
proof -
  have "mem_inv (store_of spoiled_rows)"
    by (rule store_of_inv) (simp_all add: spoiled_rows_def less_cursor_def ev_key_def)
  moreover have "EventHash (sample_row 2 ''b''\<lparr>ThisHash := [7]\<rparr>) \<noteq> [7]"
    by (metis length_EventHash length_Cons list.size(3) numeral_eq_one_iff One_nat_def semiring_norm(85))
  ultimately show ?thesis
    using verify_endpoint_answer [of "sample_world spoiled_rows" sample_api "[]" "spoiled_rows ! 0" "spoiled_rows ! 1"
      "[]" _ plain_texts, OF _ _ _ _ _ _ _ _ _ _ refl]
    by (fastforce simp: sample_world_def sample_api_def spoiled_rows_def validID_def EventHash_nonempty)
qed

end
