(* ===== verification/Wire.thy ===== *)
theory Wire
  imports Audit_Event Json_Export
begin

text \<open>
  An envelope on the wire: the text that \<^verbatim>\<open>json.Marshal\<close> makes of an \<^verbatim>\<open>Envelope\<close>
  (internal/event/event.go) by the tags of the struct, and that \<open>Decode\<close> reads it back with the
  payload byte for byte, which is what the payload hash is checked against.
\<close>

section \<open>The text of an envelope\<close>

text \<open>
  A member is its key, its value and the text of the value. The payload is a
  \<^verbatim>\<open>json.RawMessage\<close>, here the compact text of a value; \<open>None\<close> is the empty message.
  \<open>omitempty\<close> leaves a field out.
\<close>

definition text_member :: "string \<Rightarrow> string \<Rightarrow> string \<times> json \<times> string" where
  "text_member k s = (k, JStr s, encode_string s)"

definition omit_empty :: "string \<Rightarrow> string \<Rightarrow> (string \<times> json \<times> string) list" where
  "omit_empty k s = (if s = '''' then [] else [text_member k s])"

definition envelope_members :: "envelope \<Rightarrow> json option \<Rightarrow> (string \<times> json \<times> string) list" where
  "envelope_members e payload =
     [text_member ''id'' (env_ID e), text_member ''ts'' (format_RFC3339Nano (env_TS e)),
      text_member ''source_service'' (env_SourceService e), text_member ''actor_id'' (env_ActorID e),
      text_member ''action'' (env_Action e), text_member ''target_type'' (env_TargetType e),
      text_member ''target_id'' (env_TargetID e), text_member ''payload_hash'' (env_PayloadHash e)] @
     (case payload of None \<Rightarrow> [] | Some v \<Rightarrow> [(''payload'', v, Marshal v)]) @
     omit_empty ''prev_hash'' (env_PrevHash e) @ omit_empty ''this_hash'' (env_ThisHash e) @
     omit_empty ''redaction'' (env_Redaction e)"

definition member_text :: "string \<times> json \<times> string \<Rightarrow> string" where
  "member_text = (\<lambda>(k, _, raw). encode_string k @ '':'' @ raw)"

definition Marshal_envelope :: "envelope \<Rightarrow> json option \<Rightarrow> string" where
  "Marshal_envelope e payload = ''{'' @ join '','' (map member_text (envelope_members e payload)) @ ''}''"

section \<open>Members with their texts\<close>

lemma members_raw:
  assumes "ms \<noteq> []" and "\<forall>(k, v, raw) \<in> set ms. valid_utf8 k \<and> json_text d v raw"
  shows "parse_members d first (join '','' (map member_text ms) @ CHR ''}'' # r) = Some (ms, r)"
  using assms
proof (induction ms arbitrary: first)
  case (Cons m ms)
  obtain k v raw where m: "m = (k, v, raw)" by (cases m)
  have k: "valid_utf8 k" and v: "json_text d v raw" using Cons.prems(2) by (auto simp: m)
  obtain c s where c: "raw = c # s" "\<not> json_ws c" using json_text_start [OF v] by blast
  show ?case
  proof (cases ms)
    case Nil
    have "ends_number (CHR ''}'' # r)" using ends_after [of "[]" "CHR ''}''"] by simp
    from parse_text(1) [OF v this] show ?thesis
      using c k by (simp add: Nil m member_text_def parse_members.simps [of d first] encode_string_def scan_encoded
          unquote_encode_body Let_def)
  next
    case (Cons x xs)
    let ?rest = "join '','' (map member_text ms) @ CHR ''}'' # r"
    have "ends_number (CHR '','' # ?rest)" using ends_after [of "[]" "CHR '',''"] by simp
    from parse_text(1) [OF v this] have pv: "parse_value d (raw @ CHR '','' # ?rest) = Some (v, CHR '','' # ?rest)" .
    have rest: "parse_members d False ?rest = Some (ms, r)" using Cons.IH Cons.prems Cons by simp
    have "join '','' (map member_text (m # ms)) @ CHR ''}'' # r =
        dquote # encode_body k @ dquote # CHR '':'' # raw @ CHR '','' # ?rest"
      by (simp add: Cons m member_text_def encode_string_def)
    then show ?thesis
      using c k pv rest
      by (simp add: m parse_members.simps [of d first "dquote # _"] scan_encoded unquote_encode_body Let_def)
  qed
qed simp

section \<open>The instant\<close>

lemma time_char_plain: "time_char c \<Longrightarrow> encode_ascii c = [c] \<and> code c < 128"
proof -
  have "list_all (\<lambda>c. encode_ascii c = [c] \<and> code c < 128) ''0123456789-:.TZ''" by code_simp
  then show "time_char c \<Longrightarrow> encode_ascii c = [c] \<and> code c < 128"
    unfolding time_char_def list_all_iff by blast
qed

lemma encode_time_text: "list_all time_char s \<Longrightarrow> encode_body s = s"
proof (induction s)
  case Nil
  show ?case by (subst encode_body.simps) simp
next
  case (Cons c s)
  then show ?case using time_char_plain [of c] by (simp add: encode_body_Cons)
qed

lemma digit_not_colon: "0 \<le> n \<Longrightarrow> n < 10 \<Longrightarrow> hex_digit (nat n) \<noteq> CHR '':''"
  using digit_val_hex [of n] by (auto simp: digit_val_def)

lemma format_shape:
  assumes "0 \<le> t" and "t < year_10000"
  obtains y m d h r where
    "format_RFC3339Nano t = digit4 y @ ''-'' @ digit2 m @ ''-'' @ digit2 d @ ''T'' @ digit2 h @ r @ ''Z''" "5 < length r"
proof -
  let ?d = "t div nanos_per_sec div 86400" and ?s = "t div nanos_per_sec mod 86400"
  obtain y yd where y: "year_yday ?d = (y, yd)" by (cases "year_yday ?d")
  obtain m md where m: "month_day (month_lengths (is_leap y)) 1 yd = (m, md)"
    by (cases "month_day (month_lengths (is_leap y)) 1 yd")
  have "0 \<le> ?d" "?d < 3652059" using assms by (auto simp: year_10000_def nanos_per_sec_def)
  with year_below [OF y] have "1 \<le> y" "y \<le> 9999" by blast+
  then have "append_year y = digit4 y" by (simp add: append_year_def)
  then have "format_RFC3339Nano t = digit4 y @ ''-'' @ digit2 m @ ''-'' @ digit2 md @ ''T'' @ digit2 (?s div 3600) @
      ('':'' @ digit2 (?s div 60 mod 60) @ '':'' @ digit2 (?s mod 60) @ append_nano (t mod nanos_per_sec)) @ ''Z''"
    by (simp add: format_RFC3339Nano_def Let_def y m)
  then show thesis by (rule that) (simp add: digit2_def)
qed

lemma parse_strict_format:
  assumes "0 \<le> t" and "t < year_10000"
  shows "parse_strict (format_RFC3339Nano t) = Some t"
proof -
  obtain y m d h r where f: "format_RFC3339Nano t =
      digit4 y @ ''-'' @ digit2 m @ ''-'' @ digit2 d @ ''T'' @ digit2 h @ r @ ''Z''" "5 < length r"
    by (rule format_shape [OF assms])
  have n: "format_RFC3339Nano t ! 12 \<noteq> CHR '':''" "last (format_RFC3339Nano t) = CHR ''Z''"
    using digit_not_colon [of "h mod 10"] by (simp_all add: f(1) digit4_def digit2_def)
  have "19 < length (format_RFC3339Nano t)" using f(2) by (simp add: f(1) digit4_def digit2_def)
  then have "time_char (format_RFC3339Nano t ! 19)" using format_chars [OF assms] by (simp add: list_all_length)
  then have "format_RFC3339Nano t ! 19 \<noteq> CHR '',''" by (auto simp: time_char_def)
  with n show ?thesis by (simp add: parse_strict_def parse_format_opt [OF assms])
qed

lemma UnmarshalJSON_time_format:
  assumes "0 \<le> t" and "t < year_10000"
  shows "UnmarshalJSON_time (encode_string (format_RFC3339Nano t)) = Some (Some t)"
  by (simp add: UnmarshalJSON_time_def encode_string_def encode_time_text format_chars parse_strict_format assms)

section \<open>The round trip\<close>

definition wire_ready :: "envelope \<Rightarrow> json option \<Rightarrow> bool" where
  "wire_ready e payload \<longleftrightarrow>
     0 \<le> env_TS e \<and> env_TS e < year_10000 \<and>
     list_all valid_utf8 [env_ID e, env_SourceService e, env_ActorID e, env_Action e, env_TargetType e,
       env_TargetID e, env_PayloadHash e, env_PrevHash e, env_ThisHash e, env_Redaction e] \<and>
     (case payload of None \<Rightarrow> env_Payload e = []
      | Some v \<Rightarrow> printable (max_depth - 1) v \<and> env_Payload e = bytes_of_string (Marshal v))"

lemma envelope_members_text:
  assumes "wire_ready e payload"
  shows "\<forall>(k, v, raw) \<in> set (envelope_members e payload). valid_utf8 k \<and> json_text (max_depth - 1) v raw"
  using assms time_text_utf8 [of "env_TS e"] Marshal_text
  by (auto simp: envelope_members_def wire_ready_def text_member_def omit_empty_def text_str split: option.splits)

lemma Marshal_envelope_members:
  assumes "wire_ready e payload"
  shows "json_members (Marshal_envelope e payload) = Some (envelope_members e payload)"
proof -
  have "envelope_members e payload \<noteq> []" by (simp add: envelope_members_def)
  from members_raw [OF this envelope_members_text [OF assms], of True "[]"]
  show ?thesis by (simp add: json_members_def Marshal_envelope_def) (simp add: skip_ws_def)
qed

lemma envelope_field_tag: "list_all (\<lambda>k. envelope_field k = Some k) envelope_tags"
  by (simp add: envelope_field_def match_field_def list_all_iff envelope_tags_def)

lemma set_envelope_members:
  assumes "wire_ready e payload"
  shows "set_members (envelope_members e payload) zero_envelope = Some e"
proof -
  have t: "0 \<le> env_TS e" "env_TS e < year_10000" using assms by (simp_all add: wire_ready_def)
  show ?thesis
    using assms UnmarshalJSON_time_format [OF t] envelope_field_tag
    by (auto simp: envelope_members_def wire_ready_def text_member_def omit_empty_def set_envelope_def
        string_field_def zero_envelope_def envelope_tags_def split: option.splits)
qed

text \<open>
  C33: what a producer sends is what the service reads. \<open>Decode\<close> inverts \<^verbatim>\<open>json.Marshal\<close> on an
  envelope whose time lies in the years 1 to 9999 and whose texts are valid UTF-8: every field is
  recovered, an omitted field as its zero value, and the payload as exactly the bytes on the wire.
\<close>

theorem Decode_Marshal_envelope:
  assumes "wire_ready e payload"
  shows "Decode (bytes_of_string (Marshal_envelope e payload)) = Inr e"
proof -
  have "Marshal_envelope e payload \<noteq> []" by (simp add: Marshal_envelope_def)
  then show ?thesis
    using Marshal_envelope_members [OF assms] json_members_parse [OF Marshal_envelope_members [OF assms]]
      set_envelope_members [OF assms]
    by (simp add: Decode_def Unmarshal_envelope_def Let_def)
qed

text \<open>An envelope with a payload, a quote in a text and a field left out.\<close>

definition sample_wire :: envelope where
  "sample_wire = \<lparr>env_ID = ''a-1'', env_TS = 63839491507123456000, env_SourceService = ''orders'', env_ActorID = ''j\"d'',
     env_Action = ''create'', env_TargetType = ''order'', env_TargetID = ''7'', env_PayloadHash = ''sha256:ab'',
     env_Payload = bytes_of_string (Marshal (JObj [(''n'', JStr ''x'')])), env_PrevHash = '''',
     env_ThisHash = '''', env_Redaction = ''''\<rparr>"

lemma Decode_Marshal_envelope_witness:
  "Decode (bytes_of_string (Marshal_envelope sample_wire (Some (JObj [(''n'', JStr ''x'')])))) = Inr sample_wire"
proof (rule Decode_Marshal_envelope)
  show "wire_ready sample_wire (Some (JObj [(''n'', JStr ''x'')]))"
    by (simp add: wire_ready_def sample_wire_def max_depth_def year_10000_def nanos_per_sec_def)
qed

end
