(* ===== verification/Kafka_Service.thy ===== *)
theory Kafka_Service
  imports App Kafka_Adapter Postgres
begin

text \<open>
  The consumer goroutine of the production server: the loop of internal/kafka/kafkaadapter with
  the handler that internal/app installs, over a reader in a consumer group. What the loop does
  to the stores is the delivery of the messages it read, one after the other.
\<close>

section \<open>The order of a feed\<close>

text \<open>The envelopes of the messages that decode and validate; the others are dead-lettered.\<close>

definition envelope_of :: "raw_message \<Rightarrow> envelope option" where
  "envelope_of m = (case DecodeAndValidate (rm_Value m) of Inl _ \<Rightarrow> None | Inr ev \<Rightarrow> Some ev)"

abbreviation env_key :: "envelope \<Rightarrow> cursor" where
  "env_key ev \<equiv> Cursor (env_TS ev) (env_ID ev)"

text \<open>An event follows another one when it comes later in the order of the chain, or has its id.\<close>

definition follows :: "cursor \<Rightarrow> cursor \<Rightarrow> bool" where
  "follows c c' \<longleftrightarrow> c_ID c' = c_ID c \<or> c < c'"

text \<open>A topic in order after the given rows.\<close>

definition feed_in_order :: "cursor list \<Rightarrow> raw_message list \<Rightarrow> bool" where
  "feed_in_order seen ms \<longleftrightarrow>
     sorted_wrt follows (map env_key (List.map_filter envelope_of ms)) \<and>
     (\<forall>c \<in> set seen. \<forall>ev \<in> set (List.map_filter envelope_of ms). follows c (env_key ev))"

section \<open>Deliveries over any store\<close>

context chain_store
begin

definition chain_intact :: "'s \<Rightarrow> bool" where
  "chain_intact s \<longleftrightarrow> inv s \<and> vr_Status (fst (VerifyChain (rows s))) = StatusOK"

text \<open>Each row has one of the keys.\<close>

definition rows_from :: "cursor list \<Rightarrow> 's \<Rightarrow> bool" where
  "rows_from cs s \<longleftrightarrow> ev_key ` set (rows s) \<subseteq> set cs"

lemma app_handler_in_order:
  assumes "sa_Events (srv_Stores srv) = ops" and "chain_intact (sw_Events W)" and "rows_from seen (sw_Events W)"
    and ord: "feed_in_order seen [m]"
    and keeps: "\<forall>ev \<in> set (List.map_filter envelope_of [m]). keeps (env_key ev)"
    and h: "app_handler ou srv (to_message m) W = (err, W')"
  shows "chain_intact (sw_Events W') \<and> rows_from (seen @ map env_key (List.map_filter envelope_of [m])) (sw_Events W')"
proof -
  let ?deps = "pipeline_deps (ou_Float ou) (ou_Lower ou) srv (sw_Redactor W)"
  let ?msg = "\<lparr>im_Topic = rm_Topic m, im_Partition = rm_Partition m, im_Offset = rm_Offset m,
    im_Key = rm_Key m, im_Value = rm_Value m\<rparr>"
  let ?w = "ingest_world W"
  obtain res w where run: "IngestMessage (ou_Texts ou) ?deps (ou_Env ou (sw_Clock W)) ?msg ?w = (res, w)"
    by (metis surj_pair)
  then have w: "sw_Events W' = w_Events w" using h by (auto simp: app_handler_def to_message_def)
  have d: "id_Events ?deps = ops" "w_Events ?w = sw_Events W"
    using assms(1) by (simp_all add: pipeline_deps_def ingest_world_def)
  have pre: "inv (w_Events ?w)" "vr_Status (fst (VerifyChain (rows (w_Events ?w)))) = StatusOK"
    using assms(2) by (simp_all add: d(2) chain_intact_def)
  have fit: "\<forall>ev. DecodeAndValidate (im_Value ?msg) = Inr ev \<longrightarrow> keeps (env_key ev)"
    using keeps by (auto simp: envelope_of_def List.map_filter_def)
  have newer: "newer_or_known (rows (w_Events ?w)) ev" if "DecodeAndValidate (im_Value ?msg) = Inr ev" for ev
  proof -
    from that ord have "\<forall>c \<in> set seen. follows c (env_key ev)"
      by (simp add: envelope_of_def List.map_filter_def feed_in_order_def)
    then have "env_ID ev = ID e \<or> ev_key e < env_key ev" if "e \<in> set (rows (sw_Events W))" for e
      using assms(3) that by (force simp: rows_from_def follows_def ev_key_def)
    then show ?thesis unfolding d(2) newer_or_known_def by force
  qed
  have "inv (w_Events w) \<and> vr_Status (fst (VerifyChain (rows (w_Events w)))) = StatusOK"
    by (rule in_order_ingest [OF d(1) pre _ run]) (use fit newer in blast)
  moreover have "ev_key e \<in> set (seen @ map env_key (List.map_filter envelope_of [m]))"
    if "e \<in> set (rows (w_Events w))" for e
    using ingest_row_source [OF d(1) pre(1) fit run that] assms(3)
    by (auto simp: d(2) rows_from_def envelope_of_def List.map_filter_def)
  ultimately show ?thesis by (auto simp: w chain_intact_def rows_from_def)
qed

lemma deliveries_in_order:
  assumes "sa_Events (srv_Stores srv) = ops" and "chain_intact (sw_Events W)" and "rows_from seen (sw_Events W)"
    and "feed_in_order seen ms"
    and "\<forall>ev \<in> set (List.map_filter envelope_of ms). keeps (env_key ev)"
  shows "chain_intact (sw_Events (fold (\<lambda>m W. snd (app_handler ou srv (to_message m) W)) ms W))"
  using assms(2-)
proof (induction ms arbitrary: W seen)
  case (Cons m ms)
  obtain err W1 where h: "app_handler ou srv (to_message m) W = (err, W1)" by (metis surj_pair)
  have split: "List.map_filter envelope_of (m # ms) =
      List.map_filter envelope_of [m] @ List.map_filter envelope_of ms"
    by (simp add: List.map_filter_def)
  then have "feed_in_order seen [m]"
    and rest: "feed_in_order (seen @ map env_key (List.map_filter envelope_of [m])) ms"
    and k: "\<forall>ev \<in> set (List.map_filter envelope_of [m]). keeps (env_key ev)"
      "\<forall>ev \<in> set (List.map_filter envelope_of ms). keeps (env_key ev)"
    using Cons.prems(3,4) by (auto simp: feed_in_order_def sorted_wrt_append)
  from app_handler_in_order [OF assms(1) Cons.prems(1,2) this(1) k(1) h] Cons.IH [OF _ _ rest k(2), of W1]
  show ?case by (simp add: h)
qed simp

text \<open>The consumer loop on a topic in order.\<close>

lemma topic_to_chain:
  assumes "group_reader rd unread resume" and "sa_Events (srv_Stores srv) = ops"
    and "inv (sw_Events W)" and "vr_Status (fst (VerifyChain (rows (sw_Events W)))) = StatusOK"
    and "feed_in_order (map ev_key (rows (sw_Events W))) (unread b)"
    and "\<forall>ev \<in> set (List.map_filter envelope_of (unread b)). keeps (env_key ev)"
    and "Consumer_Run rd ctx (app_handler ou srv) n 0 b W = (r, b', W')"
  shows "inv (sw_Events W') \<and> vr_Status (fst (VerifyChain (rows (sw_Events W')))) = StatusOK \<and>
    (\<exists>k \<le> n. unread b' = drop k (unread b) \<and> (r = None \<longrightarrow> k = n \<or> unread b' = []))"
proof -
  obtain k where k: "k \<le> n" "unread b' = drop k (unread b)" "r = None \<longrightarrow> k = n \<or> unread b' = []"
    "W' = fold (\<lambda>m W. snd (app_handler ou srv (to_message m) W)) (take k (unread b)) W"
    using group_reader.Run_handles [OF assms(1,7)] by blast
  have "List.map_filter envelope_of (unread b) =
      List.map_filter envelope_of (take k (unread b)) @ List.map_filter envelope_of (drop k (unread b))"
    by (metis List.map_filter_def append_take_drop_id filter_append map_append)
  then have ord: "feed_in_order (map ev_key (rows (sw_Events W))) (take k (unread b))"
    and fit: "\<forall>ev \<in> set (List.map_filter envelope_of (take k (unread b))). keeps (env_key ev)"
    using assms(5,6) by (auto simp: feed_in_order_def sorted_wrt_append)
  have "chain_intact (sw_Events W)" "rows_from (map ev_key (rows (sw_Events W))) (sw_Events W)"
    by (simp_all add: assms(3,4) chain_intact_def rows_from_def)
  from deliveries_in_order [OF assms(2) this ord fit] k show ?thesis by (auto simp: chain_intact_def)
qed

end

section \<open>What is recorded\<close>

abbreviation ingest_form :: "raw_message \<Rightarrow> ingest_message" where
  "ingest_form m \<equiv> \<lparr>im_Topic = rm_Topic m, im_Partition = rm_Partition m, im_Offset = rm_Offset m,
    im_Key = rm_Key m, im_Value = rm_Value m\<rparr>"

text \<open>The envelope of a message that passes the checks of the pipeline under the policy of a world.\<close>

definition taken ::
  "outside \<Rightarrow> ('s, 'a, 'j, 'd, 'p, 'c) server \<Rightarrow> reloader \<Rightarrow> raw_message \<Rightarrow> envelope option" where
  "taken ou srv policy m =
     map_option fst (accepted (ou_Texts ou) (pipeline_deps (ou_Float ou) (ou_Lower ou) srv policy) (ingest_form m))"

text \<open>No payload is written, or no write of one fails.\<close>

definition payloads_written :: "('s, 'a, 'j, 'd, 'p, 'c) server \<Rightarrow> bool" where
  "payloads_written srv \<longleftrightarrow> cfg_PayloadBucket (srv_Config srv) = '''' \<or>
     (\<forall>now bucket opts body p. is_ok (fst (sc_Put (srv_Payloads srv) now bucket opts body p)))"

lemma put_payload_ok:
  assumes "payloads_written srv"
  shows "is_ok (fst (put_payload (pipeline_deps fl uni srv policy) env key body p))"
  using assms
  by (auto simp: payloads_written_def put_payload_def pipeline_deps_def PutAdapter_def is_ok_def split: prod.splits sum.splits)
    (metis fst_conv)+

context reliable_event_store
begin

lemma app_handler_records:
  assumes "sa_Events (srv_Stores srv) = ops" and "inv (sw_Events W)" and "payloads_written srv"
    and h: "app_handler ou srv (to_message m) W = (err, W')"
  shows "inv (sw_Events W') \<and> sw_Redactor W' = sw_Redactor W \<and>
    ID ` set (rows (sw_Events W')) = ID ` set (rows (sw_Events W)) \<union> env_ID ` set_option (taken ou srv (sw_Redactor W) m)"
proof -
  let ?deps = "pipeline_deps (ou_Float ou) (ou_Lower ou) srv (sw_Redactor W)"
  let ?env = "ou_Env ou (sw_Clock W)"
  obtain res w where run: "IngestMessage (ou_Texts ou) ?deps ?env (ingest_form m) (ingest_world W) = (res, w)"
    by (metis surj_pair)
  then have W': "sw_Events W' = w_Events w" "sw_Redactor W' = sw_Redactor W"
    using h by (auto simp: app_handler_def to_message_def)
  have d: "id_Events ?deps = ops" "w_Events (ingest_world W) = sw_Events W"
    using assms(1) by (simp_all add: pipeline_deps_def ingest_world_def)
  have "inv (w_Events w) \<and>
    ID ` set (rows (w_Events w)) = ID ` set (rows (sw_Events W)) \<union> env_ID ` set_option (taken ou srv (sw_Redactor W) m)"
  proof (cases "accepted (ou_Texts ou) ?deps (ingest_form m)")
    case None
    then have t: "taken ou srv (sw_Redactor W) m = None" by (simp add: taken_def)
    have "w_Events w = sw_Events W"
      using None run d(2)
      by (elim IngestMessage_rejected [of "ou_Texts ou" ?deps "ingest_form m" ?env "ingest_world W"])
        (auto simp: deadLetter_sel)
    then show ?thesis using assms(2) by (simp add: t)
  next
    case (Some x)
    obtain ev body redacted ph where x: "x = (ev, body, redacted, ph)" by (cases x)
    obtain w1 where ix: "index_event (ou_Texts ou) ?deps ?env ev body redacted ph (ingest_world W) = (res, w1)"
      and w: "w_Events w = w_Events w1"
      using run IngestMessage_accepted [OF Some [unfolded x], of ?env "ingest_world W"] by (auto split: prod.splits)
    have t: "taken ou srv (sw_Redactor W) m = Some ev" using Some by (simp add: taken_def x)
    from ix show ?thesis
    proof (cases rule: index_event_cases)
      case (head_failed err)
      then show ?thesis using ChainHead_total [OF assms(2)] by (simp add: d is_ok_def)
    next
      case (put_failed err p')
      then show ?thesis
        using put_payload_ok [OF assms(3), of "ou_Float ou" "ou_Lower ou" "sw_Redactor W" ?env "env_ID ev" body "w_Payloads (ingest_world W)"]
        by (simp add: is_ok_def)
    next
      case (insert_called head ref p' row r s')
      have "ID row = env_ID ev" by (simp add: insert_called(3))
      then show ?thesis
        using Insert_contract [OF assms(2) insert_called(4) [unfolded d]] Insert_total [OF assms(2), of row] insert_called(4,5)
        by (auto simp: d w t is_ok_def set_insort_key split: sum.splits if_splits)
    qed
  qed
  then show ?thesis by (simp add: W')
qed

lemma deliveries_recorded:
  assumes "sa_Events (srv_Stores srv) = ops" and "inv (sw_Events W)" and "payloads_written srv"
  shows "inv (sw_Events (fold (\<lambda>m W. snd (app_handler ou srv (to_message m) W)) ms W)) \<and>
    ID ` set (rows (sw_Events (fold (\<lambda>m W. snd (app_handler ou srv (to_message m) W)) ms W))) =
      ID ` set (rows (sw_Events W)) \<union> env_ID ` set (List.map_filter (taken ou srv (sw_Redactor W)) ms)"
  using assms(2)
proof (induction ms arbitrary: W)
  case (Cons m ms)
  obtain err W1 where h: "app_handler ou srv (to_message m) W = (err, W1)" by (metis surj_pair)
  note one = app_handler_records [OF assms(1) Cons.prems assms(3) h]
  then show ?case using Cons.IH [of W1] h
    by (cases "taken ou srv (sw_Redactor W) m") (auto simp: List.map_filter_def)
qed (simp add: List.map_filter_def)

lemma topic_recorded:
  assumes "group_reader rd unread resume" and "sa_Events (srv_Stores srv) = ops" and "inv (sw_Events W)"
    and "payloads_written srv" and "Consumer_Run rd ctx (app_handler ou srv) n 0 b W = (r, b', W')"
  shows "\<exists>k \<le> n. unread b' = drop k (unread b) \<and> (r = None \<longrightarrow> k = n \<or> unread b' = []) \<and>
    distinct (map ID (rows (sw_Events W'))) \<and>
    ID ` set (rows (sw_Events W')) = ID ` set (rows (sw_Events W)) \<union>
      env_ID ` set (List.map_filter (taken ou srv (sw_Redactor W)) (take k (unread b)))"
proof -
  obtain k where k: "k \<le> n" "unread b' = drop k (unread b)" "r = None \<longrightarrow> k = n \<or> unread b' = []"
    "W' = fold (\<lambda>m W. snd (app_handler ou srv (to_message m) W)) (take k (unread b)) W"
    using group_reader.Run_handles [OF assms(1,5)] by blast
  from deliveries_recorded [OF assms(2-4), of ou "take k (unread b)"] rows_distinct k show ?thesis by blast
qed

end

section \<open>The loop delivers\<close>

lemma deliver_all:
  "happen_all ou srv (map (\<lambda>m. Delivered (to_message m)) ms) W =
    Some (fold (\<lambda>m W. snd (app_handler ou srv (to_message m) W)) ms W)"
  by (induction ms arbitrary: W) simp_all

text \<open>
  The adapter's loop is a sequence of deliveries. However many rounds it runs, over any reader
  of a consumer group, the state is that of the service after the messages it read, in order;
  the properties of the service hold for the production consumer.
\<close>

theorem kafka_loop_delivers:
  assumes "group_reader rd unread resume"
    and "Consumer_Run rd ctx (app_handler ou srv) n 0 b W = (r, b', W')"
  shows "\<exists>k \<le> n. unread b' = drop k (unread b) \<and> (r = None \<longrightarrow> k = n \<or> unread b' = []) \<and>
    happen_all ou srv (map (\<lambda>m. Delivered (to_message m)) (take k (unread b))) W = Some W'"
  using group_reader.Run_handles [OF assms] unfolding deliver_all by blast

section \<open>Properties\<close>


text \<open>
  C8: exactly once. Over every event store that does not fail, and with payload writes that do
  not fail, whatever the topic holds (malformed and rejected messages, redeliveries, events out
  of order): after any number of rounds the ids in the store are those it held before and those
  of the messages that were read and pass the checks of the pipeline, each of them in one row.
\<close>

theorem topic_recorded_exactly_once:
  assumes "group_reader rd unread resume" and "reliable_event_store (sa_Events (srv_Stores srv)) ok rows"
    and "ok (sw_Events W)" and "payloads_written srv"
    and "Consumer_Run rd ctx (app_handler ou srv) n 0 b W = (r, b', W')"
  shows "\<exists>k \<le> n. unread b' = drop k (unread b) \<and> (r = None \<longrightarrow> k = n \<or> unread b' = []) \<and>
    distinct (map ID (rows (sw_Events W'))) \<and>
    ID ` set (rows (sw_Events W')) = ID ` set (rows (sw_Events W)) \<union>
      env_ID ` set (List.map_filter (taken ou srv (sw_Redactor W)) (take k (unread b)))"
  by (rule reliable_event_store.topic_recorded [OF assms(2,1) refl assms(3-5)])

text \<open>Over Postgres, with times in whole microseconds and ids in the canonical form or refused.\<close>

lemma kafka_topic_to_postgres:
  assumes "group_reader rd unread resume" and "audit_database conn uuid ok rows"
    and "sa_Events (srv_Stores srv) = pg_event_store conn" and "ok (sw_Events W)"
    and "vr_Status (fst (VerifyChain (rows (sw_Events W)))) = StatusOK"
    and "feed_in_order (map ev_key (rows (sw_Events W))) (unread b)"
    and "\<forall>ev \<in> set (List.map_filter envelope_of (unread b)). exact_key uuid (env_key ev)"
    and "Consumer_Run rd ctx (app_handler ou srv) n 0 b W = (r, b', W')"
  shows "vr_Status (fst (VerifyChain (rows (sw_Events W')))) = StatusOK"
  using chain_store.topic_to_chain [OF audit_database.pg_chain_store [OF assms(2)] assms(1,3-8)] by blast

text \<open>An empty message, an event, and the event once more.\<close>

definition sample_topic :: "raw_message list" where
  "sample_topic = map (\<lambda>(n, v). \<lparr>rm_Topic = ''t'', rm_Partition = 0, rm_Offset = n, rm_Key = [], rm_Value = v, rm_Headers = []\<rparr>)
     [(6, []), (7, im_Value the_message), (8, im_Value the_message)]"

text \<open>A store that already holds a row, older than the event of the topic.\<close>

definition older_store :: mem_events where
  "older_store = store_of [sealed_row 1 ''a'' ZeroHash]"

lemma older_store_sel [simp]:
  "mem_inv older_store" "mem_rows older_store = [sealed_row 1 ''a'' ZeroHash]"
  unfolding older_store_def by (rule store_of_inv, simp_all)

lemma sample_topic_envelopes [simp]:
  "List.map_filter envelope_of sample_topic = [sample_envelope ''b'' the_ts, sample_envelope ''b'' the_ts]"
proof -
  have "DecodeAndValidate [] = Inl (ErrValidation ''empty payload'')" by (simp add: DecodeAndValidate_def Decode_def)
  then show ?thesis
    by (simp add: List.map_filter_def sample_topic_def envelope_of_def sample_decoded)
qed


lemma topic_recorded_exactly_once_witness:
  "\<exists>r b' W'. Consumer_Run list_reader (\<lambda>_. None) (app_handler sample_outside sample_server) 3 0 (sample_topic, 0)
      (start_world NewEventStore) = (r, b', W') \<and> distinct (map ID (mem_rows (sw_Events W')))"
proof -
  obtain r b' W' where run: "Consumer_Run list_reader (\<lambda>_. None) (app_handler sample_outside sample_server) 3 0
      (sample_topic, 0) (start_world NewEventStore) = (r, b', W')" by (metis surj_pair)
  have s: "reliable_event_store (sa_Events (srv_Stores sample_server)) mem_inv mem_rows"
    using sample_server_built(2) mem.reliable_event_store_axioms by (auto simp: in_memory_def memory_stores_def)
  have w: "mem_inv (sw_Events (start_world NewEventStore))" by (simp add: start_world_def)
  have "cfg_PayloadBucket sample_config = ''''" by code_simp
  then have "payloads_written sample_server"
    using Build_wires(3) [OF sample_server_built(1)] by (simp add: payloads_written_def)
  from topic_recorded_exactly_once [OF listed.group_reader_axioms s w this run] show ?thesis using run by blast
qed

end
