(* ===== verification/Spec2Isabelle.thy ===== *)
theory Spec2Isabelle
  imports Interleaving Program Paging Wire Kafka_Service
begin

text \<open>
  A verification development of the Audit Event Log service (Go, module audit-event-log).

  \<^bold>\<open>The program.\<close> The service consumes audit envelopes from Kafka, checks and redacts them,
  stores the payload in an object store and appends a row to an event store whose rows are
  linked by SHA-256 hashes. An anchor loop signs the head of the chain and records it; a sweep
  re-verifies the chain and the anchors; a REST API lists, verifies, exports and puts legal
  holds; two commands migrate the database and verify the chain offline.

  \<^bold>\<open>The theories\<close>, in the order of the imports (sources under src/internal unless stated):

  \<^item> \<open>Prelude\<close>, \<open>Encoding\<close>, \<open>Sha256\<close>, \<open>GoText\<close>, \<open>GoTime\<close>, \<open>Json\<close>: the Go the code uses. Errors are
    values of \<open>go_error\<close>, a call that can fail returns \<open>result\<close>; times are nanoseconds since the
    zero time.Time; hex, base64, big-endian integers, SHA-256 (FIPS 180-4), strings, strconv,
    RFC 3339 texts, encoding/json for the shapes the code decodes and prints.
  \<^item> \<open>Audit_Event\<close> (event/event.go): the envelope, its decoding, validation and payload hash.
  \<^item> \<open>Store\<close> (store/store.go): rows, filters, cursors, and the four store interfaces as records of
    operations over any state. The locales \<open>event_store_contract\<close>, \<open>append_only_store\<close>,
    \<open>chain_store\<close>, \<open>event_listing\<close> and \<open>reliable_event_store\<close> are what the clients rely on; the
    page loop and its completeness, and the ingest of a chain, are proved inside them.
  \<^item> \<open>Memstore\<close> (store/memstore): pointer slice, id index and their invariant; its
    interpretation of the locales, the refinement to a sorted list of rows.
  \<^item> \<open>Chain\<close> (chain/chain.go): canonical encoding, \<open>VerifyEvent\<close>, \<open>VerifyChain\<close>, \<open>AnchorJob_Run\<close>,
    \<open>Sweep\<close>, \<open>MerkleRoot\<close>. Tamper evidence is stated without assuming that SHA-256 is injective:
    a change is detected or a collision is exhibited.
  \<^item> \<open>S3_Fake\<close> (s3/s3.go), \<open>Redaction\<close> (redaction), \<open>Config\<close>, \<open>Auth\<close>, \<open>Metrics\<close>: object lock, the
    policy parser and the transforms, the environment, the roles, the counters.
  \<^item> \<open>Ingest\<close> (ingest/ingest.go): the pipeline with each of its rejections and error paths.
  \<^item> \<open>Export\<close> (export/export.go): jobs, JSON and CSV artifacts, the manifest.
  \<^item> \<open>Api\<close> (api/api.go): the routes with their roles, and every handler.
  \<^item> \<open>Kafka_Fake\<close> (kafka/kafka.go): the consumer loop with its commits.
  \<^item> \<open>App\<close> (app/app.go, app/adapters.go): \<open>Build\<close> with its fallbacks and the composed service:
    a history of deliveries, anchor ticks and requests (\<open>happening\<close>) folded over its state.
  \<^item> \<open>Interleaving\<close>: ingest workers, anchor loop and legal holds over one in-memory store, each
    store operation one step; the sequential definitions are shown to be runs of these steps.
  \<^item> \<open>Postgres\<close> (store/postgres): the statements the adapter sends, their parameters, and what it
    makes of the answers, over any connection. The locale \<open>audit_database\<close> says what the
    database does with these statements (UUID texts are made canonical or refused, times are
    cut to microseconds); \<open>reliable_database\<close> adds that reads do not fail. Both are interpreted
    on tables held in lists; the listing and the chain contract of \<open>Store\<close> are sublocales.
  \<^item> \<open>Migrations\<close> (store/migrations, src/cmd/migrate) and \<open>Cli\<close> (cli/cli.go, \<open>runVerifyChain\<close> of
    src/cmd/audit-event-log): pairing of the SQL files, the runner, the command line, the
    report and the exit status.
  \<^item> \<open>Kms\<close> (kms, kms/kmsadapter), \<open>S3_Adapter\<close> (s3/s3adapter), \<open>Kafka_Adapter\<close>
    (kafka/kafkaadapter): the signer and the adapters over their libraries. The key service's
    methods get a context that may be nil, and may panic; the adapter passes nil, so over the
    documented service it never signs. \<open>Build\<close> takes the signer as an argument.
  \<^item> \<open>Lifecycle\<close> (\<^verbatim>\<open>Run\<close>, \<^verbatim>\<open>startLoops\<close> and \<^verbatim>\<open>Shutdown\<close> of app/app.go): the goroutines of the server
    as labelled steps (\<open>life\<close>). What they do to the stores is what \<open>App\<close> does for the sequence of
    their labels; a measure on the states (\<open>work\<close>) bounds a shutdown.
  \<^item> \<open>Program\<close> (src/cmd/audit-event-log, otel/otel.go, app/adapters.go): \<^verbatim>\<open>main\<close> with its exit
    statuses, the telemetry it starts, and the constructors of the adapters.
  \<^item> \<open>Kafka_Service\<close>: the loop of the Kafka adapter with the handler of the server, over any reader
    with the contract of \<open>group_reader\<close> and any store with that of \<open>chain_store\<close>.
  \<^item> \<open>Time_Text\<close>, \<open>Json_Text\<close>, \<open>Json_Export\<close>, \<open>Wire\<close>, \<open>Paging\<close>: texts read back. An instant and a
    cursor; a JSON value, whose texts are the relation \<open>json_text\<close>; the rows of the JSON and of the CSV
    artifact; an envelope as a producer sends it; and, with \<open>event_listing\<close>, what a client of the
    REST API reads that follows the cursors, and the answer of the verification endpoint.

  \<^bold>\<open>What the properties show.\<close> Integrity: the canonical encoding is injective, a changed row or
  history is noticed, in-order ingestion keeps the chain, also under interleaving with one
  worker and from a Kafka topic to either store, where each accepted event gets one row; what
  breaks it (late events, two workers, times finer than the database's, ids in another
  spelling) are theorems as well. Storage: the stores are append-only, the in-memory one refines a sorted
  list, the two listings agree, page loops end and are complete. Anchors: all or nothing, stay
  valid, cover the marked rows. Handling: what is rejected, what is
  dead-lettered, what is written first, who may do what, what an export contains, which status
  a command ends with, when a shutdown ends and what it leaves. Round trips: times, cursors, JSON,
  CSV, envelopes, flags, migrations.

  \<^bold>\<open>Loops and fuel.\<close> The loops over pages (\<open>collect_pages\<close>, hence \<open>Sweep\<close>, \<open>RunJob\<close> and the
  verification endpoint) are \<open>partial_function\<close>s in the option type: \<open>None\<close> means that the loop
  never returns, and the completeness theorems prove \<open>Some\<close> for stores that keep the contract
  and rows whose time is not the zero time. The consumer loops take the number of their rounds
  (or the list of their events); their theorems hold for every number. \<open>Interleaving\<close> has no
  bound on workers or steps.

  \<^bold>\<open>Modelling decisions.\<close> A method that holds its mutex is one step. Pointers are kept where
  aliasing matters (the in-memory event store), elsewhere records are values. A nil and an empty
  slice are not told apart. A context is a function that says at which call it is cancelled. The
  clock, fresh ids and random bytes of a call are in its environment argument. UUID parsing,
  strings.ToLower outside ASCII, JSON number texts and the time zone of the printed report are
  arguments. Requests reach the router with clean paths.

  \<^bold>\<open>Assumptions on code outside the repository\<close> are locales or named hypotheses: the SQL
  database, the table of migrations, RSA-PSS, the key service, the versioned object service,
  the reader of the consumer group. Each has an interpretation on a concrete instance.

  \<^bold>\<open>Not modelled.\<close> The observed values of the histograms, which the Prometheus library keeps. The SQL scripts are data of the migration runner; their effect on rows is the
  locale \<open>audit_database\<close>. Closing the database pool, the lines that only log, and the accessors
  for tests. \<open>Lifecycle\<close> has the in-memory consumer; the Kafka adapter's loop runs by itself in
  \<open>Kafka_Service\<close>. \<^verbatim>\<open>Enqueue\<close> of the in-memory consumer is one step in \<open>Lifecycle\<close>, though it
  releases its mutex before it sends (\<open>Enqueue_check\<close>, \<open>Enqueue_send\<close>).
\<close>

end
